(* ===== verification/Prelude.thy ===== *)
theory Prelude
  imports Main "HOL-Library.Word"
begin

unbundle bit_operations_syntax

section \<open>Shared vocabulary of the xv6 development\<close>

text \<open>
  This theory holds what every component shares: the C integer types, the
  automation collections, the effect type of kernel code and its rules, and
  generic facts on words and lists.

  Kernel code is modelled as a function from the state of the machine to an
  \<open>outcome\<close>. A call can return, run into \<open>panic()\<close>, dereference a null pointer,
  wait for something that never happens, run out of the fuel that bounds a loop,
  or leave the C control flow for good (\<open>exit\<close>, \<open>swtch\<close> of a dead process,
  the jump to user space). Waiting is explicit: beside the state, every call
  takes the list of what the rest of the machine (other harts, devices,
  interrupt handlers, other processes) does each time the code spins or sleeps.
  A call that waits consumes the head of the list; a call that waits on an empty
  list is \<open>Block\<close>.
\<close>

subsection \<open>Integer types of \<open>kernel/types.h\<close>\<close>

type_synonym uint8 = "8 word"
type_synonym uint16 = "16 word"
type_synonym uint32 = "32 word"
type_synonym uint64 = "64 word"

subsection \<open>Automation collections\<close>

named_theorems exec_simps \<open>symbolic execution of kernel code\<close>
named_theorems layout_defs \<open>constants of param.h, memlayout.h, riscv.h and fs.h\<close>
named_theorems frame_simps \<open>what an operation leaves alone\<close>
named_theorems blind_rules \<open>code that does not look at harts, cpus and locks\<close>
named_theorems env_rules \<open>operations never add to the list of future environment steps\<close>

subsection \<open>Outcomes\<close>

datatype ('s, 'a) outcome =
    Ret 'a "('s \<Rightarrow> 's) list" 's
  | Panic string 's
  | Fault 's
  | Block 's
  | Diverge 's
  | NoReturn 's

type_synonym ('s, 'a) M = "('s \<Rightarrow> 's) list \<Rightarrow> 's \<Rightarrow> ('s, 'a) outcome"

definition return :: "'a \<Rightarrow> ('s, 'a) M" where
  "return x = (\<lambda>e s. Ret x e s)"

definition bind :: "('s, 'a) M \<Rightarrow> ('a \<Rightarrow> ('s, 'b) M) \<Rightarrow> ('s, 'b) M" where
  "bind m f = (\<lambda>e s. case m e s of
      Ret x e' s' \<Rightarrow> f x e' s'
    | Panic msg t \<Rightarrow> Panic msg t
    | Fault t \<Rightarrow> Fault t
    | Block t \<Rightarrow> Block t
    | Diverge t \<Rightarrow> Diverge t
    | NoReturn t \<Rightarrow> NoReturn t)"

definition gets :: "('s \<Rightarrow> 'a) \<Rightarrow> ('s, 'a) M" where
  "gets f = (\<lambda>e s. Ret (f s) e s)"

definition modify :: "('s \<Rightarrow> 's) \<Rightarrow> ('s, unit) M" where
  "modify f = (\<lambda>e s. Ret () e (f s))"

definition panic :: "string \<Rightarrow> ('s, 'a) M" where
  "panic msg = (\<lambda>e s. Panic msg s)"

definition fault :: "('s, 'a) M" where
  "fault = (\<lambda>e s. Fault s)"

definition diverge :: "('s, 'a) M" where
  "diverge = (\<lambda>e s. Diverge s)"

definition noreturn :: "('s, 'a) M" where
  "noreturn = (\<lambda>e s. NoReturn s)"

definition whenM :: "bool \<Rightarrow> ('s, unit) M \<Rightarrow> ('s, unit) M" where
  "whenM b m = (if b then m else return ())"

definition deref :: "'a option \<Rightarrow> ('s, 'a) M" where
  "deref p = (case p of None \<Rightarrow> fault | Some x \<Rightarrow> return x)"

text \<open>The value of a loop that may run forever: \<open>None\<close> is not returning.\<close>

definition of_loop :: "'a option \<Rightarrow> ('s, 'a) M" where
  "of_loop r = (case r of None \<Rightarrow> diverge | Some x \<Rightarrow> return x)"

text \<open>Wait for the rest of the machine to take one step.\<close>

definition await :: "('s, unit) M" where
  "await = (\<lambda>e s. case e of [] \<Rightarrow> Block s | f # e' \<Rightarrow> Ret () e' (f s))"

text \<open>A \<open>for\<close> loop over a fixed table, in table order.\<close>

primrec for_each :: "'a list \<Rightarrow> ('a \<Rightarrow> ('s, unit) M) \<Rightarrow> ('s, unit) M" where
  "for_each [] body = return ()"
| "for_each (x # xs) body = bind (body x) (\<lambda>_. for_each xs body)"

text \<open>
  A \<open>for\<close> loop whose body may \<open>break\<close> or \<open>return\<close> from the function: \<open>Some\<close> ends
  the loop with that value, \<open>None\<close> goes on.
\<close>

primrec for_find :: "'a list \<Rightarrow> ('a \<Rightarrow> ('s, 'b option) M) \<Rightarrow> ('s, 'b option) M" where
  "for_find [] body = return None"
| "for_find (x # xs) body =
     bind (body x) (\<lambda>r. case r of Some y \<Rightarrow> return (Some y) | None \<Rightarrow> for_find xs body)"

text \<open>
  A \<open>for\<close> loop with an accumulator: \<open>Inl\<close> is its next value, \<open>Inr\<close> leaves the function.
\<close>

primrec for_fold :: "'a list \<Rightarrow> 'b \<Rightarrow> ('a \<Rightarrow> 'b \<Rightarrow> ('s, 'b + 'c) M) \<Rightarrow> ('s, 'b + 'c) M" where
  "for_fold [] acc body = return (Inl acc)"
| "for_fold (x # xs) acc body =
     bind (body x acc) (\<lambda>r. case r of Inl acc' \<Rightarrow> for_fold xs acc' body | Inr y \<Rightarrow> return (Inr y))"

lemma exec_return [simp]: "return x e s = Ret x e s"
  by (simp add: return_def)

lemma exec_bind [simp]:
  "bind m f e s = (case m e s of
      Ret x e' s' \<Rightarrow> f x e' s'
    | Panic msg t \<Rightarrow> Panic msg t
    | Fault t \<Rightarrow> Fault t
    | Block t \<Rightarrow> Block t
    | Diverge t \<Rightarrow> Diverge t
    | NoReturn t \<Rightarrow> NoReturn t)"
  by (simp add: bind_def)

lemma exec_gets [simp]: "gets f e s = Ret (f s) e s"
  by (simp add: gets_def)

lemma exec_modify [simp]: "modify f e s = Ret () e (f s)"
  by (simp add: modify_def)

lemma exec_panic [simp]: "panic msg e s = Panic msg s"
  by (simp add: panic_def)

lemma exec_fault [simp]: "fault e s = Fault s"
  by (simp add: fault_def)

lemma exec_diverge [simp]: "diverge e s = Diverge s"
  by (simp add: diverge_def)

lemma exec_noreturn [simp]: "noreturn e s = NoReturn s"
  by (simp add: noreturn_def)

lemma exec_whenM [simp]: "whenM b m e s = (if b then m e s else Ret () e s)"
  by (simp add: whenM_def)

lemma exec_deref [simp]: "deref p e s = (case p of None \<Rightarrow> Fault s | Some x \<Rightarrow> Ret x e s)"
  by (simp add: deref_def split: option.split)

lemma exec_of_loop [simp]: "of_loop r e s = (case r of None \<Rightarrow> Diverge s | Some x \<Rightarrow> Ret x e s)"
  by (simp add: of_loop_def split: option.split)

lemma exec_await [simp]:
  "await [] s = Block s" "await (f # e) s = Ret () e (f s)"
  by (simp_all add: await_def)

lemma bind_assoc: "bind (bind m f) g = bind m (\<lambda>x. bind (f x) g)"
  by (rule ext)+ (simp split: outcome.split)

lemma bind_return_left [simp]: "bind (return x) f = f x"
  by (rule ext)+ simp

lemma bind_return_right [simp]: "bind m return = m"
  by (rule ext)+ (simp split: outcome.split)

lemma bind_return_unit [simp]: "bind m (\<lambda>_. return ()) = (m :: ('s, unit) M)"
  by (rule ext)+ (simp split: outcome.split)

lemma bind_eq_Ret:
  "bind m f e s = Ret x e'' s'' \<longleftrightarrow> (\<exists>y e' s'. m e s = Ret y e' s' \<and> f y e' s' = Ret x e'' s'')"
  by (simp split: outcome.split)

text \<open>
  A loop that may wait. The body is given the loop variables and either ends the loop
  (\<open>Inr\<close>) or starts the next round (\<open>Inl\<close>). Every round must use up something: it has
  waited, or it has made the measure of loop variables and state smaller. A round that
  does neither can repeat forever, and is \<open>Diverge\<close>.
\<close>

function loop_env :: "('i \<Rightarrow> 's \<Rightarrow> nat) \<Rightarrow> ('i \<Rightarrow> ('s, 'i + 'a) M) \<Rightarrow> 'i \<Rightarrow> ('s, 'a) M" where
  "loop_env m body i e s = (case body i e s of
      Ret r e' s' \<Rightarrow> (case r of
          Inr x \<Rightarrow> Ret x e' s'
        | Inl j \<Rightarrow>
            if length e' < length e \<or> length e' = length e \<and> m j s' < m i s
            then loop_env m body j e' s' else Diverge s')
    | Panic msg t \<Rightarrow> Panic msg t
    | Fault t \<Rightarrow> Fault t
    | Block t \<Rightarrow> Block t
    | Diverge t \<Rightarrow> Diverge t
    | NoReturn t \<Rightarrow> NoReturn t)"
  by pat_completeness auto
termination
  by (relation "measures [\<lambda>(m, body, i, e, s). length e, \<lambda>(m, body, i, e, s). m i s]") auto

declare loop_env.simps [simp del]

text \<open>\<open>while(cond) sleep(...)\<close>: \<open>None\<close> is another round.\<close>

definition while_sleep :: "('s, 'a option) M \<Rightarrow> ('s, 'a) M" where
  "while_sleep body = loop_env (\<lambda>_ _. 0) (\<lambda>_ :: unit. bind body (\<lambda>r.
     return (case r of None \<Rightarrow> Inl () | Some x \<Rightarrow> Inr x))) ()"

text \<open>A loop without loop variables that makes a measure of the state smaller in every round.\<close>

definition while_dec :: "('s \<Rightarrow> nat) \<Rightarrow> ('s, 'a option) M \<Rightarrow> ('s, 'a) M" where
  "while_dec m body = loop_env (\<lambda>_. m) (\<lambda>_ :: unit. bind body (\<lambda>r.
     return (case r of None \<Rightarrow> Inl () | Some x \<Rightarrow> Inr x))) ()"

lemma loop_env_done: "body i e s = Ret (Inr x) e' s' \<Longrightarrow> loop_env m body i e s = Ret x e' s'"
  by (simp add: loop_env.simps)

lemma loop_env_next:
  "body i e s = Ret (Inl j) e' s' \<Longrightarrow>
     length e' < length e \<or> length e' = length e \<and> m j s' < m i s \<Longrightarrow>
     loop_env m body i e s = loop_env m body j e' s'"
  by (subst loop_env.simps) simp

lemma while_sleep_done: "body e s = Ret (Some x) e' s' \<Longrightarrow> while_sleep body e s = Ret x e' s'"
  unfolding while_sleep_def by (rule loop_env_done) simp

lemma while_sleep_next:
  "body e s = Ret None e' s' \<Longrightarrow> length e' < length e \<Longrightarrow> while_sleep body e s = while_sleep body e' s'"
  unfolding while_sleep_def by (rule loop_env_next) simp_all

lemma while_sleep_Block: "body e s = Block t \<Longrightarrow> while_sleep body e s = Block t"
  unfolding while_sleep_def by (simp add: loop_env.simps)

lemma while_dec_done: "body e s = Ret (Some x) e' s' \<Longrightarrow> while_dec m body e s = Ret x e' s'"
  unfolding while_dec_def by (rule loop_env_done) simp

lemma while_dec_next:
  "body e s = Ret None e s' \<Longrightarrow> m s' < m s \<Longrightarrow> while_dec m body e s = while_dec m body e s'"
  unfolding while_dec_def by (rule loop_env_next) simp_all

subsection \<open>Total-correctness triples\<close>

text \<open>
  \<open>triple P m Q\<close>: from every state in \<open>P\<close> the call returns, does not wait, and ends
  in \<open>Q\<close>. Panics, null dereferences and exhausted fuel all falsify it.
\<close>

definition triple :: "('s \<Rightarrow> bool) \<Rightarrow> ('s, 'a) M \<Rightarrow> ('a \<Rightarrow> 's \<Rightarrow> bool) \<Rightarrow> bool" where
  "triple P m Q \<longleftrightarrow> (\<forall>e s. P s \<longrightarrow> (\<exists>x s'. m e s = Ret x e s' \<and> Q x s'))"

lemma tripleI:
  "(\<And>e s. P s \<Longrightarrow> \<exists>x s'. m e s = Ret x e s' \<and> Q x s') \<Longrightarrow> triple P m Q"
  by (simp add: triple_def)

lemma tripleD:
  "triple P m Q \<Longrightarrow> P s \<Longrightarrow> \<exists>x s'. m e s = Ret x e s' \<and> Q x s'"
  by (simp add: triple_def)

lemma triple_bind:
  assumes "triple P m R" and "\<And>x. triple (R x) (f x) Q"
  shows "triple P (bind m f) Q"
proof (rule tripleI)
  fix e s
  assume "P s"
  then obtain x s' where m: "m e s = Ret x e s'" and "R x s'"
    using assms(1) by (blast dest: tripleD)
  then obtain y s'' where "f x e s' = Ret y e s''" and "Q y s''"
    using assms(2) by (blast dest: tripleD)
  with m show "\<exists>y s''. bind m f e s = Ret y e s'' \<and> Q y s''"
    by simp
qed

lemma triple_conseq:
  assumes "triple P' m Q'" and "\<And>s. P s \<Longrightarrow> P' s" and "\<And>x s. Q' x s \<Longrightarrow> Q x s"
  shows "triple P m Q"
  using assms unfolding triple_def by blast

lemma triple_for_each:
  assumes "\<And>x. x \<in> set xs \<Longrightarrow> triple P (body x) (\<lambda>_. P)"
  shows "triple P (for_each xs body) (\<lambda>_. P)"
  using assms
proof (induction xs)
  case Nil
  show ?case by (rule tripleI) simp
next
  case (Cons x xs)
  show ?case
    unfolding for_each.simps
    by (rule triple_bind [where R = "\<lambda>_. P"]) (simp_all only: Cons list.set_intros)
qed

subsection \<open>The list of environment steps only shrinks\<close>

definition env_mono :: "('s, 'a) M \<Rightarrow> bool" where
  "env_mono m \<longleftrightarrow> (\<forall>e s x e' s'. m e s = Ret x e' s' \<longrightarrow> (\<exists>k. e' = drop k e))"

definition env_less :: "('s, 'a) M \<Rightarrow> bool" where
  "env_less m \<longleftrightarrow> (\<forall>e s x e' s'. m e s = Ret x e' s' \<longrightarrow> (\<exists>k. e' = drop (Suc k) e \<and> e \<noteq> []))"

lemma env_less_length: "env_less m \<Longrightarrow> m e s = Ret x e' s' \<Longrightarrow> length e' < length e"
  by (fastforce simp: env_less_def)

lemma env_less_mono: "env_less m \<Longrightarrow> env_mono m"
  unfolding env_less_def env_mono_def by blast

lemma env_mono_bind [env_rules]:
  assumes "env_mono m" and "\<And>x. env_mono (f x)"
  shows "env_mono (bind m f)"
  unfolding env_mono_def bind_eq_Ret
proof (intro allI impI)
  fix e s x e' s'
  assume "\<exists>y e1 s1. m e s = Ret y e1 s1 \<and> f y e1 s1 = Ret x e' s'"
  then obtain y e1 s1 where 1: "m e s = Ret y e1 s1" and 2: "f y e1 s1 = Ret x e' s'"
    by blast
  from 1 assms(1) obtain k where "e1 = drop k e" unfolding env_mono_def by blast
  moreover from 2 assms(2) obtain l where "e' = drop l e1" unfolding env_mono_def by blast
  ultimately have "e' = drop (l + k) e" by simp
  then show "\<exists>k. e' = drop k e" ..
qed

lemma env_less_bind1:
  assumes "env_less m" and "\<And>x. env_mono (f x)"
  shows "env_less (bind m f)"
  unfolding env_less_def bind_eq_Ret
proof (intro allI impI)
  fix e s x e' s'
  assume "\<exists>y e1 s1. m e s = Ret y e1 s1 \<and> f y e1 s1 = Ret x e' s'"
  then obtain y e1 s1 where 1: "m e s = Ret y e1 s1" and 2: "f y e1 s1 = Ret x e' s'"
    by blast
  from 1 assms(1) obtain k where k: "e1 = drop (Suc k) e" "e \<noteq> []" unfolding env_less_def by blast
  from 2 assms(2) obtain l where "e' = drop l e1" unfolding env_mono_def by blast
  with k have "e' = drop (Suc (l + k)) e" by simp
  with k show "\<exists>k. e' = drop (Suc k) e \<and> e \<noteq> []" by blast
qed

lemma env_less_bind2:
  assumes "env_mono m" and "\<And>x. env_less (f x)"
  shows "env_less (bind m f)"
  unfolding env_less_def bind_eq_Ret
proof (intro allI impI)
  fix e s x e' s'
  assume "\<exists>y e1 s1. m e s = Ret y e1 s1 \<and> f y e1 s1 = Ret x e' s'"
  then obtain y e1 s1 where 1: "m e s = Ret y e1 s1" and 2: "f y e1 s1 = Ret x e' s'"
    by blast
  from 1 assms(1) obtain k where k: "e1 = drop k e" unfolding env_mono_def by blast
  from 2 assms(2) obtain l where l: "e' = drop (Suc l) e1" "e1 \<noteq> []"
    unfolding env_less_def by blast
  from k l have "e' = drop (Suc (l + k)) e" "e \<noteq> []" by auto
  then show "\<exists>k. e' = drop (Suc k) e \<and> e \<noteq> []" by blast
qed

lemma env_mono_same: "(\<And>e s x e' s'. m e s = Ret x e' s' \<Longrightarrow> e' = e) \<Longrightarrow> env_mono m"
  unfolding env_mono_def by (metis drop_0)

lemma env_mono_basic [env_rules]:
  "env_mono (return x)" "env_mono (gets f)" "env_mono (modify g)"
  "env_mono (panic msg)" "env_mono fault" "env_mono diverge" "env_mono noreturn"
  "env_mono (deref p)"
  by (rule env_mono_same; simp split: option.splits)+

lemma env_mono_whenM [env_rules]: "env_mono m \<Longrightarrow> env_mono (whenM b m)"
  unfolding whenM_def by (cases b) (auto simp only: if_True if_False env_mono_basic)

lemma env_mono_if [env_rules]: "env_mono m \<Longrightarrow> env_mono m' \<Longrightarrow> env_mono (if b then m else m')"
  by simp

lemma env_less_await: "env_less await"
  unfolding env_less_def
proof (intro allI impI)
  fix e s x e' s'
  assume "await e s = Ret x e' s'"
  then show "\<exists>k. e' = drop (Suc k) e \<and> e \<noteq> []"
    by (cases e) (auto intro: exI [of _ 0])
qed

lemma env_mono_for_each [env_rules]:
  "(\<And>x. env_mono (body x)) \<Longrightarrow> env_mono (for_each xs body)"
  by (induction xs) (auto simp only: for_each.simps intro: env_rules)

lemma env_mono_for_find [env_rules]:
  assumes "\<And>x. env_mono (body x)"
  shows "env_mono (for_find xs body)"
proof (induction xs)
  case Nil
  show ?case unfolding for_find.simps by (rule env_mono_basic)
next
  case (Cons x xs)
  show ?case
    unfolding for_find.simps
  proof (rule env_mono_bind [OF assms])
    fix r
    show "env_mono (case r of None \<Rightarrow> for_find xs body | Some y \<Rightarrow> return (Some y))"
      using Cons.IH by (cases r) (simp_all only: option.case env_mono_basic)
  qed
qed

end
