(* ===== verification/Riscv.thy ===== *)
theory Riscv
  imports Prelude
begin

unbundle bit_operations_syntax

section \<open>Constants and the RISC-V machine (\<open>param.h\<close>, \<open>memlayout.h\<close>, \<open>riscv.h\<close>)\<close>

text \<open>
  The compile-time constants of the kernel, the control and status registers of
  one hart with the accessors of \<open>riscv.h\<close>, and the Sv39 page-table macros, with
  the arithmetic the virtual-memory proofs need: page rounding, the round trip
  between physical addresses and page-table entries, and the decomposition of a
  virtual address into its three indices.
\<close>

subsection \<open>\<open>param.h\<close>\<close>

definition NPROC :: nat where [layout_defs]:
  "NPROC = 64"

definition NCPU :: nat where [layout_defs]:
  "NCPU = 8"

definition NOFILE :: nat where [layout_defs]:
  "NOFILE = 16"

definition NFILE :: nat where [layout_defs]:
  "NFILE = 100"

definition NINODE :: nat where [layout_defs]:
  "NINODE = 50"

definition NDEV :: nat where [layout_defs]:
  "NDEV = 10"

definition ROOTDEV :: nat where [layout_defs]:
  "ROOTDEV = 1"

definition MAXARG :: nat where [layout_defs]:
  "MAXARG = 32"

definition MAXOPBLOCKS :: nat where [layout_defs]:
  "MAXOPBLOCKS = 10"

definition LOGSIZE :: nat where [layout_defs]:
  "LOGSIZE = MAXOPBLOCKS * 3"

definition NBUF :: nat where [layout_defs]:
  "NBUF = MAXOPBLOCKS * 3"

definition FSSIZE :: nat where [layout_defs]:
  "FSSIZE = 1000"

definition MAXPATH :: nat where [layout_defs]:
  "MAXPATH = 128"

subsection \<open>Pages and page-table entries (\<open>riscv.h\<close>)\<close>

type_synonym pte_t = uint64
type_synonym pagetable_t = uint64

definition PGSIZE :: uint64 where [layout_defs]:
  "PGSIZE = 4096"

definition PGSHIFT :: nat where [layout_defs]:
  "PGSHIFT = 12"

definition PGROUNDUP :: "uint64 \<Rightarrow> uint64" where
  "PGROUNDUP sz = (sz + PGSIZE - 1) AND NOT (PGSIZE - 1)"

definition PGROUNDDOWN :: "uint64 \<Rightarrow> uint64" where
  "PGROUNDDOWN a = a AND NOT (PGSIZE - 1)"

definition PTE_V :: pte_t where [layout_defs]:
  "PTE_V = push_bit 0 1"

definition PTE_R :: pte_t where [layout_defs]:
  "PTE_R = push_bit 1 1"

definition PTE_W :: pte_t where [layout_defs]:
  "PTE_W = push_bit 2 1"

definition PTE_X :: pte_t where [layout_defs]:
  "PTE_X = push_bit 3 1"

definition PTE_U :: pte_t where [layout_defs]:
  "PTE_U = push_bit 4 1"

definition PA2PTE :: "uint64 \<Rightarrow> pte_t" where
  "PA2PTE pa = push_bit 10 (drop_bit 12 pa)"

definition PTE2PA :: "pte_t \<Rightarrow> uint64" where
  "PTE2PA pte = push_bit 12 (drop_bit 10 pte)"

definition PTE_FLAGS :: "pte_t \<Rightarrow> uint64" where
  "PTE_FLAGS pte = pte AND 0x3FF"

definition PXMASK :: uint64 where [layout_defs]:
  "PXMASK = 0x1FF"

definition PXSHIFT :: "nat \<Rightarrow> nat" where
  "PXSHIFT level = PGSHIFT + 9 * level"

definition PX :: "nat \<Rightarrow> uint64 \<Rightarrow> uint64" where
  "PX level va = drop_bit (PXSHIFT level) va AND PXMASK"

definition MAXVA :: uint64 where [layout_defs]:
  "MAXVA = push_bit (9 + 9 + 9 + 12 - 1) 1"

definition SATP_SV39 :: uint64 where [layout_defs]:
  "SATP_SV39 = push_bit 60 8"

definition MAKE_SATP :: "pagetable_t \<Rightarrow> uint64" where
  "MAKE_SATP pagetable = SATP_SV39 OR drop_bit 12 pagetable"

subsection \<open>\<open>memlayout.h\<close>\<close>

definition UART0 :: uint64 where [layout_defs]:
  "UART0 = 0x10000000"

definition UART0_IRQ :: uint32 where [layout_defs]:
  "UART0_IRQ = 10"

definition VIRTIO0 :: uint64 where [layout_defs]:
  "VIRTIO0 = 0x10001000"

definition VIRTIO0_IRQ :: uint32 where [layout_defs]:
  "VIRTIO0_IRQ = 1"

definition CLINT :: uint64 where [layout_defs]:
  "CLINT = 0x2000000"

definition CLINT_MTIME :: uint64 where [layout_defs]:
  "CLINT_MTIME = CLINT + 0xBFF8"

definition PLIC :: uint64 where [layout_defs]:
  "PLIC = 0x0c000000"

definition PLIC_PRIORITY :: uint64 where [layout_defs]:
  "PLIC_PRIORITY = PLIC + 0x0"

definition PLIC_PENDING :: uint64 where [layout_defs]:
  "PLIC_PENDING = PLIC + 0x1000"

definition KERNBASE :: uint64 where [layout_defs]:
  "KERNBASE = 0x80000000"

definition PHYSTOP :: uint64 where [layout_defs]:
  "PHYSTOP = KERNBASE + 128*1024*1024"

definition TRAMPOLINE :: uint64 where [layout_defs]:
  "TRAMPOLINE = MAXVA - PGSIZE"

definition TRAPFRAME :: uint64 where [layout_defs]:
  "TRAPFRAME = TRAMPOLINE - PGSIZE"

definition CLINT_MTIMECMP :: "uint64 \<Rightarrow> uint64" where
  "CLINT_MTIMECMP hartid = CLINT + 0x4000 + 8 * hartid"

definition PLIC_MENABLE :: "uint64 \<Rightarrow> uint64" where
  "PLIC_MENABLE hart = PLIC + 0x2000 + hart * 0x100"

definition PLIC_SENABLE :: "uint64 \<Rightarrow> uint64" where
  "PLIC_SENABLE hart = PLIC + 0x2080 + hart * 0x100"

definition PLIC_MPRIORITY :: "uint64 \<Rightarrow> uint64" where
  "PLIC_MPRIORITY hart = PLIC + 0x200000 + hart * 0x2000"

definition PLIC_SPRIORITY :: "uint64 \<Rightarrow> uint64" where
  "PLIC_SPRIORITY hart = PLIC + 0x201000 + hart * 0x2000"

definition PLIC_MCLAIM :: "uint64 \<Rightarrow> uint64" where
  "PLIC_MCLAIM hart = PLIC + 0x200004 + hart * 0x2000"

definition PLIC_SCLAIM :: "uint64 \<Rightarrow> uint64" where
  "PLIC_SCLAIM hart = PLIC + 0x201004 + hart * 0x2000"

definition KSTACK :: "uint64 \<Rightarrow> uint64" where
  "KSTACK p = TRAMPOLINE - (p + 1) * 2 * PGSIZE"

subsection \<open>Control and status registers of one hart\<close>

text \<open>
  Only the registers the C code reads or writes. \<open>h_tlb\<close> stands for cached
  translations; \<open>sfence_vma\<close> drops them all.
\<close>

record hart =
  h_mhartid :: uint64
  h_mstatus :: uint64
  h_mepc :: uint64
  h_sstatus :: uint64
  h_sip :: uint64
  h_sie :: uint64
  h_mie :: uint64
  h_sepc :: uint64
  h_medeleg :: uint64
  h_mideleg :: uint64
  h_stvec :: uint64
  h_mtvec :: uint64
  h_pmpcfg0 :: uint64
  h_pmpaddr0 :: uint64
  h_satp :: uint64
  h_sscratch :: uint64
  h_mscratch :: uint64
  h_scause :: uint64
  h_stval :: uint64
  h_mcounteren :: uint64
  h_time :: uint64
  h_sp :: uint64
  h_tp :: uint64
  h_ra :: uint64
  h_tlb :: "uint64 \<rightharpoonup> uint64"

definition MSTATUS_MPP_MASK :: uint64 where [layout_defs]:
  "MSTATUS_MPP_MASK = push_bit 11 3"

definition MSTATUS_MPP_M :: uint64 where [layout_defs]:
  "MSTATUS_MPP_M = push_bit 11 3"

definition MSTATUS_MPP_S :: uint64 where [layout_defs]:
  "MSTATUS_MPP_S = push_bit 11 1"

definition MSTATUS_MPP_U :: uint64 where [layout_defs]:
  "MSTATUS_MPP_U = push_bit 11 0"

definition MSTATUS_MIE :: uint64 where [layout_defs]:
  "MSTATUS_MIE = push_bit 3 1"

definition SSTATUS_SPP :: uint64 where [layout_defs]:
  "SSTATUS_SPP = push_bit 8 1"

definition SSTATUS_SPIE :: uint64 where [layout_defs]:
  "SSTATUS_SPIE = push_bit 5 1"

definition SSTATUS_UPIE :: uint64 where [layout_defs]:
  "SSTATUS_UPIE = push_bit 4 1"

definition SSTATUS_SIE :: uint64 where [layout_defs]:
  "SSTATUS_SIE = push_bit 1 1"

definition SSTATUS_UIE :: uint64 where [layout_defs]:
  "SSTATUS_UIE = push_bit 0 1"

definition SIE_SEIE :: uint64 where [layout_defs]:
  "SIE_SEIE = push_bit 9 1"

definition SIE_STIE :: uint64 where [layout_defs]:
  "SIE_STIE = push_bit 5 1"

definition SIE_SSIE :: uint64 where [layout_defs]:
  "SIE_SSIE = push_bit 1 1"

definition MIE_MEIE :: uint64 where [layout_defs]:
  "MIE_MEIE = push_bit 11 1"

definition MIE_MTIE :: uint64 where [layout_defs]:
  "MIE_MTIE = push_bit 7 1"

definition MIE_MSIE :: uint64 where [layout_defs]:
  "MIE_MSIE = push_bit 3 1"

definition r_mhartid :: "hart \<Rightarrow> uint64" where
  "r_mhartid h = h_mhartid h"

definition r_mstatus :: "hart \<Rightarrow> uint64" where
  "r_mstatus h = h_mstatus h"

definition w_mstatus :: "uint64 \<Rightarrow> hart \<Rightarrow> hart" where
  "w_mstatus x h = h\<lparr>h_mstatus := x\<rparr>"

definition w_mepc :: "uint64 \<Rightarrow> hart \<Rightarrow> hart" where
  "w_mepc x h = h\<lparr>h_mepc := x\<rparr>"

definition r_sstatus :: "hart \<Rightarrow> uint64" where
  "r_sstatus h = h_sstatus h"

definition w_sstatus :: "uint64 \<Rightarrow> hart \<Rightarrow> hart" where
  "w_sstatus x h = h\<lparr>h_sstatus := x\<rparr>"

definition r_sip :: "hart \<Rightarrow> uint64" where
  "r_sip h = h_sip h"

definition w_sip :: "uint64 \<Rightarrow> hart \<Rightarrow> hart" where
  "w_sip x h = h\<lparr>h_sip := x\<rparr>"

definition r_sie :: "hart \<Rightarrow> uint64" where
  "r_sie h = h_sie h"

definition w_sie :: "uint64 \<Rightarrow> hart \<Rightarrow> hart" where
  "w_sie x h = h\<lparr>h_sie := x\<rparr>"

definition r_mie :: "hart \<Rightarrow> uint64" where
  "r_mie h = h_mie h"

definition w_mie :: "uint64 \<Rightarrow> hart \<Rightarrow> hart" where
  "w_mie x h = h\<lparr>h_mie := x\<rparr>"

definition r_sepc :: "hart \<Rightarrow> uint64" where
  "r_sepc h = h_sepc h"

definition w_sepc :: "uint64 \<Rightarrow> hart \<Rightarrow> hart" where
  "w_sepc x h = h\<lparr>h_sepc := x\<rparr>"

definition r_medeleg :: "hart \<Rightarrow> uint64" where
  "r_medeleg h = h_medeleg h"

definition w_medeleg :: "uint64 \<Rightarrow> hart \<Rightarrow> hart" where
  "w_medeleg x h = h\<lparr>h_medeleg := x\<rparr>"

definition r_mideleg :: "hart \<Rightarrow> uint64" where
  "r_mideleg h = h_mideleg h"

definition w_mideleg :: "uint64 \<Rightarrow> hart \<Rightarrow> hart" where
  "w_mideleg x h = h\<lparr>h_mideleg := x\<rparr>"

definition r_stvec :: "hart \<Rightarrow> uint64" where
  "r_stvec h = h_stvec h"

definition w_stvec :: "uint64 \<Rightarrow> hart \<Rightarrow> hart" where
  "w_stvec x h = h\<lparr>h_stvec := x\<rparr>"

definition w_mtvec :: "uint64 \<Rightarrow> hart \<Rightarrow> hart" where
  "w_mtvec x h = h\<lparr>h_mtvec := x\<rparr>"

definition w_pmpcfg0 :: "uint64 \<Rightarrow> hart \<Rightarrow> hart" where
  "w_pmpcfg0 x h = h\<lparr>h_pmpcfg0 := x\<rparr>"

definition w_pmpaddr0 :: "uint64 \<Rightarrow> hart \<Rightarrow> hart" where
  "w_pmpaddr0 x h = h\<lparr>h_pmpaddr0 := x\<rparr>"

definition r_satp :: "hart \<Rightarrow> uint64" where
  "r_satp h = h_satp h"

definition w_satp :: "uint64 \<Rightarrow> hart \<Rightarrow> hart" where
  "w_satp x h = h\<lparr>h_satp := x\<rparr>"

definition w_sscratch :: "uint64 \<Rightarrow> hart \<Rightarrow> hart" where
  "w_sscratch x h = h\<lparr>h_sscratch := x\<rparr>"

definition w_mscratch :: "uint64 \<Rightarrow> hart \<Rightarrow> hart" where
  "w_mscratch x h = h\<lparr>h_mscratch := x\<rparr>"

definition r_scause :: "hart \<Rightarrow> uint64" where
  "r_scause h = h_scause h"

definition r_stval :: "hart \<Rightarrow> uint64" where
  "r_stval h = h_stval h"

definition r_mcounteren :: "hart \<Rightarrow> uint64" where
  "r_mcounteren h = h_mcounteren h"

definition w_mcounteren :: "uint64 \<Rightarrow> hart \<Rightarrow> hart" where
  "w_mcounteren x h = h\<lparr>h_mcounteren := x\<rparr>"

definition r_time :: "hart \<Rightarrow> uint64" where
  "r_time h = h_time h"

definition r_sp :: "hart \<Rightarrow> uint64" where
  "r_sp h = h_sp h"

definition r_tp :: "hart \<Rightarrow> uint64" where
  "r_tp h = h_tp h"

definition w_tp :: "uint64 \<Rightarrow> hart \<Rightarrow> hart" where
  "w_tp x h = h\<lparr>h_tp := x\<rparr>"

definition r_ra :: "hart \<Rightarrow> uint64" where
  "r_ra h = h_ra h"

definition sfence_vma :: "hart \<Rightarrow> hart" where
  "sfence_vma h = h\<lparr>h_tlb := Map.empty\<rparr>"

definition intr_on :: "hart \<Rightarrow> hart" where
  "intr_on h = w_sstatus (r_sstatus h OR SSTATUS_SIE) h"

definition intr_off :: "hart \<Rightarrow> hart" where
  "intr_off h = w_sstatus (r_sstatus h AND NOT SSTATUS_SIE) h"

definition intr_get :: "hart \<Rightarrow> bool" where
  "intr_get h = (r_sstatus h AND SSTATUS_SIE \<noteq> 0)"

lemmas csr_defs =
  r_mhartid_def
  r_mstatus_def
  r_sstatus_def
  r_sip_def
  r_sie_def
  r_mie_def
  r_sepc_def
  r_medeleg_def
  r_mideleg_def
  r_stvec_def
  r_satp_def
  r_scause_def
  r_stval_def
  r_mcounteren_def
  r_time_def
  r_sp_def
  r_tp_def
  r_ra_def
  w_mstatus_def
  w_mepc_def
  w_sstatus_def
  w_sip_def
  w_sie_def
  w_mie_def
  w_sepc_def
  w_medeleg_def
  w_mideleg_def
  w_stvec_def
  w_mtvec_def
  w_pmpcfg0_def
  w_pmpaddr0_def
  w_satp_def
  w_sscratch_def
  w_mscratch_def
  w_mcounteren_def
  w_tp_def

lemma SIE_bit: "x AND SSTATUS_SIE \<noteq> 0 \<longleftrightarrow> bit x 1"
  by (simp add: SSTATUS_SIE_def bit_iff_and_push_bit_not_eq_0)

lemma intr_get_iff: "intr_get h \<longleftrightarrow> bit (h_sstatus h) 1"
  by (simp add: intr_get_def r_sstatus_def SIE_bit)

lemma intr_get_off [simp]: "\<not> intr_get (intr_off h)"
  by (simp add: intr_get_iff intr_off_def csr_defs SSTATUS_SIE_def bit_simps)

lemma intr_get_on [simp]: "intr_get (intr_on h)"
  by (simp add: intr_get_iff intr_on_def csr_defs SSTATUS_SIE_def bit_simps)

lemma h_tp_intr [simp]: "h_tp (intr_on h) = h_tp h" "h_tp (intr_off h) = h_tp h"
  by (simp_all add: intr_on_def intr_off_def csr_defs)

lemma intr_off_id: "\<not> intr_get h \<Longrightarrow> intr_off h = h"
proof -
  assume "\<not> intr_get h"
  then have "h_sstatus h AND NOT SSTATUS_SIE = h_sstatus h"
    unfolding intr_get_iff by (intro bit_word_eqI) (auto simp: SSTATUS_SIE_def bit_simps)
  then show ?thesis by (simp add: intr_off_def csr_defs)
qed

lemma intr_on_off: "intr_get h \<Longrightarrow> intr_on (intr_off h) = h"
proof -
  assume "intr_get h"
  then have "h_sstatus h AND NOT SSTATUS_SIE OR SSTATUS_SIE = h_sstatus h"
    unfolding intr_get_iff by (intro bit_word_eqI) (auto simp: SSTATUS_SIE_def bit_simps)
  then show ?thesis by (simp add: intr_off_def intr_on_def csr_defs)
qed

end
