(* ===== verification/Page_Arith.thy ===== *)
theory Page_Arith
  imports Riscv
begin

unbundle bit_operations_syntax

section \<open>Arithmetic of pages and page-table entries\<close>

text \<open>
  Facts about the macros of \<open>riscv.h\<close>: page rounding as integer arithmetic, the
  round trip between a page's physical address and its page-table entry, and
  that three 9-bit indices and the page offset determine a virtual address
  below \<open>MAXVA\<close>.
\<close>

text \<open>\<open>pa % PGSIZE == 0\<close>, the alignment test of \<open>kfree\<close> and \<open>uvmunmap\<close>.\<close>

definition pg_aligned :: "uint64 \<Rightarrow> bool" where
  "pg_aligned a \<longleftrightarrow> a mod PGSIZE = 0"

lemma pg_aligned_iff: "pg_aligned a \<longleftrightarrow> unat a mod 4096 = 0"
  by (simp add: pg_aligned_def PGSIZE_def unat_eq_zero[symmetric] unat_mod_distrib)

lemma PGSIZE_mask: "PGSIZE - 1 = mask 12"
  by (simp add: PGSIZE_def mask_eq_exp_minus_1)

lemma PGROUNDDOWN_push: "PGROUNDDOWN a = push_bit 12 (drop_bit 12 a)"
  unfolding PGROUNDDOWN_def PGSIZE_mask
  by (intro bit_word_eqI) (auto simp: bit_simps)

lemma unat_PGROUNDDOWN: "unat (PGROUNDDOWN a) = unat a div 4096 * 4096"
proof -
  have "unat a div 4096 * 4096 < 2 ^ 64" 
    using unsigned_less [of a, where ?'a = nat] by (simp add: less_le_trans)
  then show ?thesis
    unfolding PGROUNDDOWN_push unsigned_push_bit_eq unsigned_drop_bit_eq
    by (simp add: push_bit_eq_mult drop_bit_eq_div take_bit_nat_eq_self)
qed

lemma pg_aligned_push: "pg_aligned pa \<longleftrightarrow> push_bit 12 (drop_bit 12 pa) = pa"
proof -
  have "pg_aligned pa \<longleftrightarrow> unat (PGROUNDDOWN pa) = unat pa"
    unfolding pg_aligned_iff unat_PGROUNDDOWN mod_eq_0_iff_dvd
    by (metis dvd_div_mult_self dvd_triv_right)
  then show ?thesis by (simp only: PGROUNDDOWN_push word_unat_eq_iff)
qed

lemma small_bits:
  fixes f :: uint64
  assumes "unat f < 2 ^ n" "bit f k" shows "k < n"
proof (rule ccontr)
  assume "\<not> k < n"
  have "bit (unat f) k" using assms(2) by (simp add: bit_unsigned_iff bit_imp_possible_bit)
  moreover have "take_bit n (unat f) = unat f" using assms(1) by (rule take_bit_nat_eq_self)
  ultimately have "bit (take_bit n (unat f)) k" by simp
  with \<open>\<not> k < n\<close> show False by (simp add: bit_take_bit_iff)
qed

lemma PTE2PA_PA2PTE:
  assumes "pg_aligned pa" "unat pa < 2 ^ 56" "unat f < 1024"
  shows "PTE2PA (PA2PTE pa OR f) = pa"
proof -
  have "drop_bit 10 (PA2PTE pa OR f) = drop_bit 12 pa"
    unfolding PA2PTE_def using small_bits [of pa 56] small_bits [of f 10] assms(2,3)
    by (intro bit_word_eqI) (fastforce simp: bit_simps)
  with assms(1) show ?thesis by (simp add: PTE2PA_def pg_aligned_push)
qed

lemma PTE_FLAGS_PA2PTE:
  assumes "unat f < 1024"
  shows "PTE_FLAGS (PA2PTE pa OR f) = f"
proof -
  have m: "(0x3FF :: uint64) = mask 10" by (simp add: mask_eq_exp_minus_1)
  show ?thesis
    unfolding PTE_FLAGS_def PA2PTE_def m using small_bits [of f 10] assms
    by (intro bit_word_eqI) (auto simp: bit_simps)
qed
lemma PX_mask: "PXMASK = mask 9" by (simp add: PXMASK_def mask_eq_exp_minus_1)

lemma PX_take: "PX l va = take_bit 9 (drop_bit (12 + 9 * l) va)"
  by (simp add: PX_def PX_mask PXSHIFT_def PGSHIFT_def take_bit_eq_mask)

lemma unat_PX: "unat (PX l va) = unat va div 2 ^ (12 + 9 * l) mod 512"
  unfolding PX_take unsigned_take_bit_eq unsigned_drop_bit_eq
  using unsigned_less [of va, where ?'a = nat]
  by (simp add: drop_bit_eq_div take_bit_eq_mod)

lemma unat_PX_less: "unat (PX l va) < 512"
  by (simp add: unat_PX)

lemma digits_eq:
  fixes a b :: nat
  assumes "a < 2 ^ 26" "b < 2 ^ 26" "a div 2 ^ 18 mod 512 = b div 2 ^ 18 mod 512"
    "a div 2 ^ 9 mod 512 = b div 2 ^ 9 mod 512" "a mod 512 = b mod 512"
  shows "a = b"
proof -
  have split: "x = (x div 2 ^ 18) * 2 ^ 18 + (x div 2 ^ 9 mod 512) * 2 ^ 9 + x mod 512" for x :: nat
  proof -
    have "x div 2 ^ 18 = x div 2 ^ 9 div 512" by (simp add: div_mult2_eq [symmetric])
    then have 1: "x div 2 ^ 9 = x div 2 ^ 18 * 512 + x div 2 ^ 9 mod 512" by simp
    have "x = x div 2 ^ 9 * 2 ^ 9 + x mod 512" by simp
    also have "\<dots> = (x div 2 ^ 18 * 512 + x div 2 ^ 9 mod 512) * 2 ^ 9 + x mod 512"
      by (rule arg_cong [OF 1])
    finally show ?thesis by (simp add: algebra_simps)
  qed
  have "a div 2 ^ 18 < 512" "b div 2 ^ 18 < 512" using assms(1,2) by simp_all
  with assms(3) have "a div 2 ^ 18 = b div 2 ^ 18" by simp
  with assms(4,5) split [of a] split [of b] show ?thesis by metis
qed

lemma same_page_iff:
  assumes "va < MAXVA" "vb < MAXVA"
  shows "PGROUNDDOWN va = PGROUNDDOWN vb \<longleftrightarrow> (PX 2 va = PX 2 vb \<and> PX 1 va = PX 1 vb \<and> PX 0 va = PX 0 vb)"
proof -
  have b: "unat va div 4096 < 2 ^ 26" "unat vb div 4096 < 2 ^ 26"
    using assms by (simp_all add: MAXVA_def word_less_nat_alt)
  have d: "x div 2 ^ 30 = x div 4096 div 2 ^ 18" "x div 2 ^ 21 = x div 4096 div 2 ^ 9" for x :: nat
    by (simp_all add: div_mult2_eq [symmetric])
  have "unat va div 4096 = unat vb div 4096 \<longleftrightarrow>
     unat va div 2 ^ 30 mod 512 = unat vb div 2 ^ 30 mod 512 \<and>
     unat va div 2 ^ 21 mod 512 = unat vb div 2 ^ 21 mod 512 \<and>
     unat va div 4096 mod 512 = unat vb div 4096 mod 512"
    unfolding d using digits_eq [OF b] by auto
  then show ?thesis
    by (simp add: word_unat_eq_iff unat_PGROUNDDOWN unat_PX)
qed

lemma PGROUNDUP_DOWN: "PGROUNDUP a = PGROUNDDOWN (a + 4095)"
  by (simp add: PGROUNDUP_def PGROUNDDOWN_def PGSIZE_def add.commute)

lemma unat_PGROUNDUP:
  assumes "unat a + 4095 < 2 ^ 64"
  shows "unat (PGROUNDUP a) = (unat a + 4095) div 4096 * 4096"
proof -
  have "unat (a + 4095) = unat a + 4095"
    using assms by (simp add: unat_word_ariths)
  then show ?thesis by (simp add: PGROUNDUP_DOWN unat_PGROUNDDOWN)
qed

lemma pg_aligned_PGROUNDDOWN [simp]: "pg_aligned (PGROUNDDOWN a)"
  by (simp add: pg_aligned_iff unat_PGROUNDDOWN)

lemma pg_aligned_PGROUNDUP [simp]: "pg_aligned (PGROUNDUP a)"
  by (simp add: PGROUNDUP_DOWN)

lemma PGROUNDDOWN_aligned [simp]: "pg_aligned a \<Longrightarrow> PGROUNDDOWN a = a"
  by (simp add: PGROUNDDOWN_push pg_aligned_push)

lemma PGROUNDUP_aligned: "pg_aligned a \<Longrightarrow> unat a + 4095 < 2 ^ 64 \<Longrightarrow> PGROUNDUP a = a"
proof -
  assume al: "pg_aligned a" and "unat a + 4095 < 2 ^ 64"
  then have "unat (PGROUNDUP a) = (unat a + 4095) div 4096 * 4096" by (simp only: unat_PGROUNDUP)
  moreover obtain k where "unat a = 4096 * k"
    using al unfolding pg_aligned_iff mod_eq_0_iff_dvd by blast
  ultimately show ?thesis unfolding word_unat_eq_iff by simp
qed

lemma unat_PGROUNDDOWN_le: "unat (PGROUNDDOWN a) \<le> unat a"
  by (simp add: unat_PGROUNDDOWN)

lemma PGROUNDDOWN_le: "PGROUNDDOWN a \<le> a"
  by (simp add: word_le_nat_alt unat_PGROUNDDOWN)

lemma unat_page_offset: "unat (a - PGROUNDDOWN a) = unat a mod 4096"
proof -
  have "unat (a - PGROUNDDOWN a) = unat a - unat (PGROUNDDOWN a)"
    by (rule unat_sub) (rule PGROUNDDOWN_le)
  then show ?thesis by (simp add: unat_PGROUNDDOWN minus_div_mult_eq_mod)
qed

lemma pg_aligned_0 [simp]: "pg_aligned 0"
  by (simp add: pg_aligned_iff)

lemma unat_PGSIZE [simp]: "unat PGSIZE = 4096"
  by (simp add: PGSIZE_def)

lemma PGROUNDUP_least:
  assumes "pg_aligned p" "unat a + 4095 < 2 ^ 64"
  shows "PGROUNDUP a \<le> p \<longleftrightarrow> a \<le> p"
proof -
  obtain k where k: "unat p = 4096 * k"
    using assms(1) unfolding pg_aligned_iff mod_eq_0_iff_dvd by blast
  have "(unat a + 4095) div 4096 * 4096 \<le> 4096 * k \<longleftrightarrow> (unat a + 4095) div 4096 < Suc k"
    by auto
  also have "\<dots> \<longleftrightarrow> unat a + 4095 < Suc k * 4096" by (rule div_less_iff_less_mult) simp
  also have "\<dots> \<longleftrightarrow> unat a \<le> 4096 * k" by auto
  finally have "(unat a + 4095) div 4096 * 4096 \<le> 4096 * k \<longleftrightarrow> unat a \<le> 4096 * k" .
  then show ?thesis by (simp only: word_le_nat_alt unat_PGROUNDUP [OF assms(2)] k)
qed

end
