(* ===== verification/Kstring.thy ===== *)
theory Kstring
  imports Page_Arith
begin

unbundle bit_operations_syntax

section \<open>Memory and the routines of \<open>kernel/string.c\<close>\<close>

text \<open>
  Memory is a total map from 64-bit addresses to bytes; pointer arithmetic wraps at
  \<open>2 ^ 64\<close> as it does on the machine. Every routine of \<open>string.c\<close> is the loop of
  the source, as a function from memory to memory. The lemmas give each loop its
  closed form: \<open>memset\<close> and \<open>memmove\<close> as pointwise equations (\<open>memmove\<close> for
  overlapping buffers too), \<open>strlen\<close>, \<open>memcmp\<close> and \<open>safestrcpy\<close> against
  NUL-terminated byte strings. Multi-byte accesses are little endian.
\<close>

type_synonym memory = "uint64 \<Rightarrow> uint8"

subsection \<open>Routines of \<open>kernel/string.c\<close>\<close>

lemma unat_plus_one:
  fixes i n :: "'a::len word"
  assumes "i < n"
  shows "unat (i + 1) = unat i + 1"
proof -
  have "unat i < unat n" using assms by (simp add: word_less_nat_alt)
  moreover have "unat n < 2 ^ LENGTH('a)" by (rule unsigned_less)
  ultimately have "unat i + 1 < 2 ^ LENGTH('a)" by linarith
  then show ?thesis by (simp add: unat_word_ariths)
qed

lemma eq_add_iff:
  fixes a d x :: "'a::len word"
  shows "a = d + x \<longleftrightarrow> unat (a - d) = unat x"
proof -
  have "a = d + x \<longleftrightarrow> a - d = x" by (auto simp: algebra_simps)
  then show ?thesis by (simp only: word_unat_eq_iff)
qed

function memset_loop :: "uint64 \<Rightarrow> uint8 \<Rightarrow> uint32 \<Rightarrow> uint32 \<Rightarrow> memory \<Rightarrow> memory" where
  "memset_loop cdst c i n m =
     (if i < n then memset_loop cdst c (i + 1) n (m(cdst + ucast i := c)) else m)"
  by pat_completeness auto
termination
proof (relation "measure (\<lambda>(cdst, c, i, n, m). unat n - unat i)", goal_cases)
  case (2 cdst c i n m)
  then have "unat (i + 1) = unat i + 1"
    by (rule unat_plus_one)
  with 2 show ?case by (simp add: word_less_nat_alt)
qed simp

declare memset_loop.simps [simp del]

definition memset :: "uint64 \<Rightarrow> uint32 \<Rightarrow> uint32 \<Rightarrow> memory \<Rightarrow> memory" where
  "memset dst c n m = memset_loop dst (ucast c) 0 n m"

primrec copy_forward :: "nat \<Rightarrow> uint64 \<Rightarrow> uint64 \<Rightarrow> memory \<Rightarrow> memory" where
  "copy_forward 0 d s m = m"
| "copy_forward (Suc n) d s m = copy_forward n (d + 1) (s + 1) (m(d := m s))"

primrec copy_backward :: "nat \<Rightarrow> uint64 \<Rightarrow> uint64 \<Rightarrow> memory \<Rightarrow> memory" where
  "copy_backward 0 d s m = m"
| "copy_backward (Suc n) d s m = copy_backward n (d - 1) (s - 1) (m(d - 1 := m (s - 1)))"

definition memmove :: "uint64 \<Rightarrow> uint64 \<Rightarrow> uint32 \<Rightarrow> memory \<Rightarrow> memory" where
  "memmove dst src n m =
     (if n = 0 then m
      else if src < dst \<and> src + ucast n > dst
      then copy_backward (unat n) (dst + ucast n) (src + ucast n) m
      else copy_forward (unat n) dst src m)"

lemma unat_ucast_64 [simp]: "unat (ucast (i :: uint32) :: uint64) = unat i"
proof -
  have "unat i < 2 ^ 32" using unsigned_less [of i, where ?'a = nat] by simp
  then have "unat i < 2 ^ 64" by simp
  then show ?thesis by (simp add: unsigned_ucast_eq take_bit_nat_eq_self)
qed

lemma memset_loop_apply:
  "unat i \<le> unat n \<Longrightarrow> memset_loop dst c i n m a =
     (if unat i \<le> unat (a - dst) \<and> unat (a - dst) < unat n then c else m a)"
proof (induction dst c i n m rule: memset_loop.induct)
  case (1 dst c i n m)
  show ?case
  proof (cases "i < n")
    case True
    then have i1: "unat (i + 1) = unat i + 1"
      by (rule unat_plus_one)
    have "a = dst + ucast i \<longleftrightarrow> unat (a - dst) = unat i"
      by (simp add: eq_add_iff)
    moreover have "memset_loop dst c i n m a = (if unat i + 1 \<le> unat (a - dst) \<and>
        unat (a - dst) < unat n then c else (m(dst + ucast i := c)) a)"
      using True 1 i1 unfolding memset_loop.simps [of dst c i n m] word_less_nat_alt
      by (simp only: if_True Suc_leI Suc_eq_plus1 [symmetric])
    ultimately show ?thesis using True by (simp add: word_less_nat_alt)
  next
    case False
    with 1 show ?thesis by (auto simp: memset_loop.simps word_less_nat_alt)
  qed
qed

lemma memset_apply:
  "memset dst c n m a = (if unat (a - dst) < unat n then ucast c else m a)"
  by (simp add: memset_def memset_loop_apply)

lemma unat_minus_one:
  fixes x :: "'a::len word"
  shows "x \<noteq> 0 \<Longrightarrow> unat (x - 1) = unat x - 1"
  by (rule unat_minus_one)

lemma copy_forward_apply:
  "n < 2 ^ 64 \<Longrightarrow> d = s \<or> n \<le> unat (d - s) \<Longrightarrow>
   copy_forward n d s m a = (if unat (a - d) < n then m (s + (a - d)) else m a)"
proof (induction n arbitrary: d s m)
  case (Suc n)
  have IH: "copy_forward n (d + 1) (s + 1) m' a =
      (if unat (a - (d + 1)) < n then m' (s + (a - d)) else m' a)" for m'
    using Suc.IH [of "d + 1" "s + 1" m'] Suc.prems by auto
  show ?case
  proof (cases "a = d")
    case True
    have "unat (- 1 :: uint64) = 2 ^ 64 - 1"
      by (simp add: unsigned_minus_1_eq_mask mask_eq_exp_minus_1)
    then have "\<not> unat (a - (d + 1)) < n" using True Suc.prems(1) by simp
    with True show ?thesis unfolding copy_forward.simps IH by simp
  next
    case False
    then have "unat (a - d) \<noteq> 0" by (simp add: unat_eq_zero)
    have k: "unat (a - (d + 1)) = unat (a - d) - 1"
      using False by (subst unat_minus_one [symmetric]) (simp_all add: diff_diff_eq)
    have "s + (a - d) \<noteq> d" if "unat (a - d) < Suc n"
    proof
      assume "s + (a - d) = d"
      then have "a - d = d - s" by (simp add: algebra_simps)
      with that Suc.prems(2) False show False by auto
    qed
    with False k \<open>unat (a - d) \<noteq> 0\<close> show ?thesis by (auto simp: IH)
  qed
qed simp

lemma copy_backward_apply:
  "n < 2 ^ 64 \<Longrightarrow> d = s \<or> n \<le> unat (s - d) \<Longrightarrow>
   copy_backward n (d + of_nat n) (s + of_nat n) m a =
     (if unat (a - d) < n then m (s + (a - d)) else m a)"
proof (induction n arbitrary: m)
  case (Suc n)
  define m' where "m' = m(d + of_nat n := m (s + of_nat n))"
  have step: "copy_backward (Suc n) (d + of_nat (Suc n)) (s + of_nat (Suc n)) m =
      copy_backward n (d + of_nat n) (s + of_nat n) m'"
    by (simp add: m'_def algebra_simps)
  have IH: "copy_backward n (d + of_nat n) (s + of_nat n) m' a =
      (if unat (a - d) < n then m' (s + (a - d)) else m' a)"
    by (rule Suc.IH) (use Suc.prems in auto)
  have un: "unat (of_nat n :: uint64) = n"
    using Suc.prems(1) by (simp add: unat_of_nat take_bit_nat_eq_self)
  have ad: "a = d + of_nat n \<longleftrightarrow> unat (a - d) = n"
    using un by (simp add: eq_add_iff)
  have "s + (a - d) \<noteq> d + of_nat n" if "unat (a - d) < n"
  proof
    assume "s + (a - d) = d + of_nat n"
    then have gap: "of_nat n - (a - d) = s - d" by (simp add: algebra_simps)
    have "unat (of_nat n - (a - d)) = n - unat (a - d)"
      using that un by (subst unat_sub) (simp_all add: word_le_nat_alt)
    then have "unat (s - d) = n - unat (a - d)" by (simp only: gap)
    with that Suc.prems(2) show False by auto
  qed
  then show ?case
    unfolding step IH using ad by (auto simp: m'_def less_Suc_eq)
qed simp

lemma unat_diff_mod:
  fixes x y :: uint64
  shows "unat (x - y) = (if unat y \<le> unat x then unat x - unat y else unat x + 2 ^ 64 - unat y)"
  by (simp add: unat_sub_if')

lemma forward_gap:
  fixes src dst :: uint64
  assumes "unat src + k < 2 ^ 64" "k < 2 ^ 64" "\<not> (src < dst \<and> src + of_nat k > dst)"
  shows "dst = src \<or> k \<le> unat (dst - src)"
proof (cases "src < dst")
  case True
  have "unat (of_nat k :: uint64) = k" using assms(2) by (simp add: unat_of_nat take_bit_nat_eq_self)
  then have "unat (src + of_nat k) = unat src + k"
    using assms(1) by (simp add: unat_word_ariths)
  with True assms(3) have "unat src + k \<le> unat dst" by (simp add: word_less_nat_alt)
  then have "unat src \<le> unat dst" "k \<le> unat dst - unat src" by linarith+
  then show ?thesis unfolding unat_diff_mod by (simp only: if_True simp_thms)
next
  case False
  show ?thesis
  proof (cases "dst = src")
    case F: False
    with False have "unat dst < unat src"
      by (metis linorder_less_linear word_less_nat_alt)
    then have "\<not> unat src \<le> unat dst" "k \<le> unat dst + 2 ^ 64 - unat src"
      using assms(1) by linarith+
    then show ?thesis unfolding unat_diff_mod by (simp only: if_False simp_thms)
  qed simp
qed

lemma backward_gap:
  fixes src dst :: uint64
  assumes "unat dst + k < 2 ^ 64" "src < dst"
  shows "k \<le> unat (src - dst)"
proof -
  have "unat src < unat dst" using assms(2) by (simp add: word_less_nat_alt)
  then have "\<not> unat dst \<le> unat src" "k \<le> unat src + 2 ^ 64 - unat dst"
    using assms(1) by linarith+
  then show ?thesis unfolding unat_diff_mod by (simp only: if_False)
qed

lemma memmove_apply:
  assumes "unat src + unat n < 2 ^ 64" and "unat dst + unat n < 2 ^ 64"
  shows "memmove dst src n m a = (if unat (a - dst) < unat n then m (src + (a - dst)) else m a)"
proof -
  have n64: "unat n < 2 ^ 64" using assms(1) by simp
  have eq: "(ucast n :: uint64) = of_nat (unat n)" by simp
  consider (zero) "n = 0"
    | (bwd) "n \<noteq> 0" "src < dst \<and> src + of_nat (unat n) > dst"
    | (fwd) "n \<noteq> 0" "\<not> (src < dst \<and> src + of_nat (unat n) > dst)" by blast
  then show ?thesis
  proof cases
    case zero
    then show ?thesis by (simp add: memmove_def)
  next
    case bwd
    then have "dst = src \<or> unat n \<le> unat (src - dst)"
      using backward_gap [OF assms(2)] by blast
    with n64 have "copy_backward (unat n) (dst + of_nat (unat n)) (src + of_nat (unat n)) m a =
        (if unat (a - dst) < unat n then m (src + (a - dst)) else m a)"
      by (rule copy_backward_apply)
    with bwd show ?thesis unfolding memmove_def eq by (simp only: if_False if_True simp_thms)
  next
    case fwd
    then have "dst = src \<or> unat n \<le> unat (dst - src)"
      using forward_gap [OF assms(1) n64] by blast
    with n64 have "copy_forward (unat n) dst src m a =
        (if unat (a - dst) < unat n then m (src + (a - dst)) else m a)"
      by (rule copy_forward_apply)
    with fwd show ?thesis unfolding memmove_def eq by (simp only: if_False if_True simp_thms)
  qed
qed

text \<open>
  C36. \<open>memmove(dst, src, n)\<close> makes the \<open>n\<close> bytes at \<open>dst\<close> those that were at \<open>src\<close>
  before the call, also when the two ranges overlap in either direction, and changes
  no other byte.
\<close>

theorem memmove_correct:
  assumes "unat src + unat n < 2 ^ 64" and "unat dst + unat n < 2 ^ 64"
  shows "memmove dst src n m a = (if unat (a - dst) < unat n then m (src + (a - dst)) else m a)"
  using assms by (rule memmove_apply)

theorem memmove_correct_witness:
  "memmove 0x1002 0x1000 4 (\<lambda>a. ucast a) 0x1005 = 3 \<and> memmove 0x1000 0x1002 4 (\<lambda>a. ucast a) 0x1000 = 2"
  using memmove_correct [of "0x1000" 4 "0x1002" "\<lambda>a. ucast a" "0x1005"]
    memmove_correct [of "0x1002" 4 "0x1000" "\<lambda>a. ucast a" "0x1000"] by simp

definition memcpy :: "uint64 \<Rightarrow> uint64 \<Rightarrow> uint32 \<Rightarrow> memory \<Rightarrow> memory" where
  "memcpy dst src n m = memmove dst src n m"

primrec memcmp_loop :: "nat \<Rightarrow> uint64 \<Rightarrow> uint64 \<Rightarrow> memory \<Rightarrow> int" where
  "memcmp_loop 0 s1 s2 m = 0"
| "memcmp_loop (Suc n) s1 s2 m =
     (if m s1 \<noteq> m s2 then uint (m s1) - uint (m s2) else memcmp_loop n (s1 + 1) (s2 + 1) m)"

definition memcmp :: "uint64 \<Rightarrow> uint64 \<Rightarrow> uint32 \<Rightarrow> memory \<Rightarrow> int" where
  "memcmp v1 v2 n m = memcmp_loop (unat n) v1 v2 m"

primrec strncmp_loop :: "nat \<Rightarrow> uint64 \<Rightarrow> uint64 \<Rightarrow> memory \<Rightarrow> int" where
  "strncmp_loop 0 p q m = 0"
| "strncmp_loop (Suc n) p q m =
     (if m p \<noteq> 0 \<and> m p = m q then strncmp_loop n (p + 1) (q + 1) m
      else uint (m p) - uint (m q))"

definition strncmp :: "uint64 \<Rightarrow> uint64 \<Rightarrow> uint32 \<Rightarrow> memory \<Rightarrow> int" where
  "strncmp p q n m = strncmp_loop (unat n) p q m"

primrec zero_fill :: "nat \<Rightarrow> uint64 \<Rightarrow> memory \<Rightarrow> memory" where
  "zero_fill 0 s m = m"
| "zero_fill (Suc n) s m = zero_fill n (s + 1) (m(s := 0))"

primrec strncpy_loop :: "nat \<Rightarrow> uint64 \<Rightarrow> uint64 \<Rightarrow> memory \<Rightarrow> memory" where
  "strncpy_loop 0 s t m = m"
| "strncpy_loop (Suc n) s t m =
     (if m t \<noteq> 0 then strncpy_loop n (s + 1) (t + 1) (m(s := m t))
      else zero_fill n (s + 1) (m(s := m t)))"

definition strncpy :: "uint64 \<Rightarrow> uint64 \<Rightarrow> int \<Rightarrow> memory \<Rightarrow> memory" where
  "strncpy s t n m = strncpy_loop (nat n) s t m"

primrec safestrcpy_loop :: "nat \<Rightarrow> uint64 \<Rightarrow> uint64 \<Rightarrow> memory \<Rightarrow> memory" where
  "safestrcpy_loop 0 s t m = m(s := 0)"
| "safestrcpy_loop (Suc n) s t m =
     (if m t \<noteq> 0 then safestrcpy_loop n (s + 1) (t + 1) (m(s := m t))
      else (m(s := m t))(s + 1 := 0))"

definition safestrcpy :: "uint64 \<Rightarrow> uint64 \<Rightarrow> int \<Rightarrow> memory \<Rightarrow> memory" where
  "safestrcpy s t n m = (if n \<le> 0 then m else safestrcpy_loop (nat (n - 1)) s t m)"

partial_function (option) strlen_loop :: "memory \<Rightarrow> uint64 \<Rightarrow> nat \<Rightarrow> nat option" where
  "strlen_loop m s n = (if m (s + of_nat n) = 0 then Some n else strlen_loop m s (Suc n))"

definition strlen :: "uint64 \<Rightarrow> memory \<Rightarrow> nat option" where
  "strlen s m = strlen_loop m s 0"

definition to_le :: "nat \<Rightarrow> 'a::len word \<Rightarrow> uint8 list" where
  "to_le n w = map (\<lambda>i. ucast (drop_bit (8 * i) w)) [0..<n]"

definition of_le :: "uint8 list \<Rightarrow> 'a::len word" where
  "of_le bs = word_of_int (horner_sum uint (2 ^ 8) bs)"

definition bytes_at :: "memory \<Rightarrow> uint64 \<Rightarrow> nat \<Rightarrow> uint8 list" where
  "bytes_at m a n = map (\<lambda>i. m (a + of_nat i)) [0..<n]"

definition put_bytes :: "uint64 \<Rightarrow> uint8 list \<Rightarrow> memory \<Rightarrow> memory" where
  "put_bytes a bs m = (\<lambda>x. if unat (x - a) < length bs then bs ! unat (x - a) else m x)"

definition load64 :: "memory \<Rightarrow> uint64 \<Rightarrow> uint64" where
  "load64 m a = of_le (bytes_at m a 8)"

definition store64 :: "uint64 \<Rightarrow> uint64 \<Rightarrow> memory \<Rightarrow> memory" where
  "store64 a v m = put_bytes a (to_le 8 v) m"

lemma length_to_le [simp]: "length (to_le n w) = n"
  by (simp add: to_le_def)

lemma length_bytes_at [simp]: "length (bytes_at m a n) = n"
  by (simp add: bytes_at_def)

lemma bit_of_le:
  "bit (of_le bs :: 'a::len word) n \<longleftrightarrow>
     n < LENGTH('a) \<and> n div 8 < length bs \<and> bit (bs ! (n div 8)) (n mod 8)"
  using bit_horner_sum_uint_exp_iff [of bs n]
  by (simp add: of_le_def bit_word_of_int_iff)

lemma of_le_to_le:
  fixes w :: "'a::len word"
  assumes "LENGTH('a) \<le> 8 * n"
  shows "of_le (to_le n w) = w"
proof (rule bit_word_eqI)
  fix k
  assume k: "k < LENGTH('a)"
  with assms have "k div 8 < n" by auto
  with k show "bit (of_le (to_le n w) :: 'a word) k = bit w k"
    by (simp add: bit_of_le) (simp add: to_le_def bit_simps)
qed

lemma bytes_at_put_bytes_same:
  "length bs < 2 ^ 64 \<Longrightarrow> bytes_at (put_bytes a bs m) a (length bs) = bs"
  by (rule nth_equalityI)
     (simp_all add: bytes_at_def put_bytes_def unat_of_nat take_bit_nat_eq_self)

lemma load64_store64_same [simp]: "load64 (store64 a v m) a = v"
  using bytes_at_put_bytes_same [of "to_le 8 v" a m]
  by (simp add: load64_def store64_def of_le_to_le)

lemma load64_cong:
  "(\<And>i. i < 8 \<Longrightarrow> m (a + of_nat i) = m' (a + of_nat i)) \<Longrightarrow> load64 m a = load64 m' a"
  unfolding load64_def bytes_at_def by (rule arg_cong [where f = of_le]) simp

lemma load64_zero: "(\<And>i. i < 8 \<Longrightarrow> m (a + of_nat i) = 0) \<Longrightarrow> load64 m a = 0"
proof -
  assume *: "\<And>i. i < 8 \<Longrightarrow> m (a + of_nat i) = 0"
  have "bytes_at m a 8 = to_le 8 (0 :: uint64)"
    unfolding bytes_at_def to_le_def by (rule map_cong) (auto simp: *)
  then show ?thesis by (simp only: load64_def of_le_to_le) (simp add: of_le_to_le)
qed


definition cstr_at :: "memory \<Rightarrow> uint64 \<Rightarrow> uint8 list \<Rightarrow> bool" where
  "cstr_at m s bs \<longleftrightarrow>
     (\<forall>i < length bs. m (s + of_nat i) = bs ! i \<and> bs ! i \<noteq> 0) \<and> m (s + of_nat (length bs)) = 0"

lemma strlen_loop_cstr:
  "cstr_at m s bs \<Longrightarrow> n \<le> length bs \<Longrightarrow> strlen_loop m s n = Some (length bs)"
proof (induction "length bs - n" arbitrary: n)
  case 0
  then show ?case by (subst strlen_loop.simps) (simp add: cstr_at_def)
next
  case (Suc k)
  then have "n < length bs" by simp
  with Suc.prems(1) have "m (s + of_nat n) \<noteq> 0" by (auto simp: cstr_at_def)
  moreover have "strlen_loop m s (Suc n) = Some (length bs)"
    using Suc.hyps(1) [of "Suc n"] Suc.hyps(2) Suc.prems(1) \<open>n < length bs\<close> by simp
  ultimately show ?case by (subst strlen_loop.simps) simp
qed

lemma strlen_cstr: "cstr_at m s bs \<Longrightarrow> strlen s m = Some (length bs)"
  by (simp add: strlen_def strlen_loop_cstr)

lemma memcmp_loop_zero:
  "memcmp_loop n s1 s2 m = 0 \<longleftrightarrow> (\<forall>i < n. m (s1 + of_nat i) = m (s2 + of_nat i))"
proof (induction n arbitrary: s1 s2)
  case (Suc n)
  have "memcmp_loop n (s1 + 1) (s2 + 1) m = 0 \<longleftrightarrow>
      (\<forall>i < n. m (s1 + of_nat (Suc i)) = m (s2 + of_nat (Suc i)))"
    unfolding Suc.IH by (simp add: add.assoc)
  then show ?case
    by (auto simp: All_less_Suc2 word_uint_eq_iff simp del: of_nat_Suc)
qed simp

lemma cstr_at_Cons:
  "cstr_at m s (b # bs) \<longleftrightarrow> m s = b \<and> b \<noteq> 0 \<and> cstr_at m (s + 1) bs"
  by (auto simp: cstr_at_def All_less_Suc2 add.assoc)

lemma unat_pred_self: "unat (s - (s + 1) :: uint64) = 2 ^ 64 - 1"
  by (simp add: unsigned_minus_1_eq_mask mask_eq_exp_minus_1)

lemma unat_shift_one:
  fixes a s :: uint64
  assumes "k < unat (a - s)"
  shows "unat (a - (s + 1)) = unat (a - s) - 1"
proof -
  have "a - s \<noteq> 0" using assms by (metis less_nat_zero_code unsigned_0)
  then show ?thesis by (subst unat_minus_one [symmetric]) (simp_all add: diff_diff_eq)
qed

lemma safestrcpy_loop_cstr:
  assumes "cstr_at m t bs" "k < 2 ^ 64 - 1"
    and "\<And>i j. i \<le> k \<Longrightarrow> j \<le> length bs \<Longrightarrow> s + of_nat i \<noteq> t + of_nat j"
  shows "cstr_at (safestrcpy_loop k s t m) s (take k bs) \<and>
     (\<forall>a. k < unat (a - s) \<longrightarrow> safestrcpy_loop k s t m a = m a)"
  using assms
proof (induction k arbitrary: s t m bs)
  case 0
  then show ?case by (auto simp: cstr_at_def)
next
  case (Suc k)
  show ?case
  proof (cases bs)
    case Nil
    with Suc.prems(1) have "m t = 0" by (simp add: cstr_at_def)
    moreover have "a \<noteq> s \<and> a \<noteq> s + 1" if "Suc k < unat (a - s)" for a
      using that by auto
    ultimately show ?thesis using Nil by (auto simp: cstr_at_def)
  next
    case (Cons b bs')
    define m1 where "m1 = m(s := b)"
    have t: "m t = b" "b \<noteq> 0" and tl: "cstr_at m (t + 1) bs'"
      using Suc.prems(1) Cons by (auto simp: cstr_at_Cons)
    have "s \<noteq> t + 1 + of_nat j" if "j \<le> length bs'" for j
      using Suc.prems(3) [of 0 "Suc j"] that Cons by (simp add: add.assoc)
    with tl have 1: "cstr_at m1 (t + 1) bs'"
      unfolding cstr_at_def m1_def by (metis fun_upd_other less_imp_le_nat order_refl)
    have 2: "s + 1 + of_nat i \<noteq> t + 1 + of_nat j" if "i \<le> k" "j \<le> length bs'" for i j
      using Suc.prems(3) [of "Suc i" "Suc j"] that Cons by (simp add: add.assoc)
    have IH: "cstr_at (safestrcpy_loop k (s + 1) (t + 1) m1) (s + 1) (take k bs') \<and>
       (\<forall>a. k < unat (a - (s + 1)) \<longrightarrow> safestrcpy_loop k (s + 1) (t + 1) m1 a = m1 a)"
      by (rule Suc.IH [OF 1 _ 2]) (use Suc.prems(2) in simp_all)
    have "k < unat (s - (s + 1))" unfolding unat_pred_self using Suc.prems(2) by simp
    with IH have at_s: "safestrcpy_loop k (s + 1) (t + 1) m1 s = b" by (simp add: m1_def)
    have "safestrcpy_loop k (s + 1) (t + 1) m1 a = m a" if a: "Suc k < unat (a - s)" for a
    proof -
      have "a \<noteq> s" using a by auto
      moreover have "k < unat (a - (s + 1))" using a unat_shift_one [OF a] by simp
      ultimately show ?thesis using IH by (simp add: m1_def)
    qed
    with IH at_s t Cons show ?thesis by (simp add: m1_def cstr_at_Cons)
  qed
qed

text \<open>
  C37. \<open>safestrcpy(s, t, n)\<close> leaves at \<open>s\<close> a nul-terminated string, the longest prefix
  of the string at \<open>t\<close> that fits into \<open>n - 1\<close> bytes, and writes nothing from \<open>s + n\<close> on.
\<close>

theorem safestrcpy_terminates_string:
  assumes "cstr_at m t bs" "0 < n" "n < 2 ^ 31"
    and "\<And>i j. i < nat n \<Longrightarrow> j \<le> length bs \<Longrightarrow> s + of_nat i \<noteq> t + of_nat j"
  shows "cstr_at (safestrcpy s t n m) s (take (nat n - 1) bs) \<and>
     (\<forall>a. nat n \<le> unat (a - s) \<longrightarrow> safestrcpy s t n m a = m a)"
proof -
  have k: "nat (n - 1) = nat n - 1" by simp
  have "cstr_at (safestrcpy_loop (nat n - 1) s t m) s (take (nat n - 1) bs) \<and>
     (\<forall>a. nat n - 1 < unat (a - s) \<longrightarrow> safestrcpy_loop (nat n - 1) s t m a = m a)"
    by (rule safestrcpy_loop_cstr [OF assms(1)]) (use assms(2-4) in auto)
  then show ?thesis using assms(2) unfolding safestrcpy_def k by auto
qed

theorem safestrcpy_terminates_string_witness:
  "cstr_at (safestrcpy 0x1000 0x2000 2 ((\<lambda>_. 0)(0x2000 := 97, 0x2001 := 98))) 0x1000 [97]"
proof -
  let ?m = "(\<lambda>_. 0)(0x2000 := 97, 0x2001 := 98 :: uint8) :: memory"
  have "cstr_at ?m 0x2000 [97, 98]" by (simp add: cstr_at_def less_Suc_eq)
  moreover have "0x1000 + of_nat i \<noteq> 0x2000 + (of_nat j :: uint64)" if "i < nat 2" "j \<le> length [97, 98 :: uint8]" for i j
  proof -
    from that have "i < 2" "j < 3" by simp_all
    then have "unat (0x1000 + of_nat i :: uint64) = 0x1000 + i" "unat (0x2000 + of_nat j :: uint64) = 0x2000 + j"
      by (simp_all add: unat_word_ariths unat_of_nat take_bit_nat_eq_self)
    with \<open>i < 2\<close> show ?thesis by auto
  qed
  ultimately show ?thesis
    using safestrcpy_terminates_string [of ?m "0x2000" "[97, 98]" 2 "0x1000"] by simp
qed

subsection \<open>Arrays kept as lists\<close>

text \<open>
  Small character arrays of the kernel are kept as lists of bytes instead of in byte
  memory. The string routines on such lists, and that they agree with the ones above;
  a position past the end of a list reads as NUL.
\<close>

definition byte :: "uint8 list \<Rightarrow> nat \<Rightarrow> uint8" where
  "byte bs i = (if i < length bs then bs ! i else 0)"

primrec strncmp_list :: "nat \<Rightarrow> uint8 list \<Rightarrow> uint8 list \<Rightarrow> int" where
  "strncmp_list 0 p q = 0"
| "strncmp_list (Suc n) p q =
     (if byte p 0 \<noteq> 0 \<and> byte p 0 = byte q 0 then strncmp_list n (drop 1 p) (drop 1 q)
      else uint (byte p 0) - uint (byte q 0))"

primrec strncpy_list :: "nat \<Rightarrow> uint8 list \<Rightarrow> uint8 list" where
  "strncpy_list 0 t = []"
| "strncpy_list (Suc n) t =
     (if byte t 0 \<noteq> 0 then byte t 0 # strncpy_list n (drop 1 t) else replicate (Suc n) 0)"

primrec safestrcpy_list :: "nat \<Rightarrow> uint8 list \<Rightarrow> uint8 list" where
  "safestrcpy_list 0 t = [0]"
| "safestrcpy_list (Suc n) t =
     (if byte t 0 \<noteq> 0 then byte t 0 # safestrcpy_list n (drop 1 t) else [0, 0])"

lemma byte_bytes_at: "byte (bytes_at m a n) i = (if i < n then m (a + of_nat i) else 0)"
  by (simp add: byte_def bytes_at_def)

lemma bytes_at_Suc: "bytes_at m a (Suc n) = m a # bytes_at m (a + 1) n"
  unfolding bytes_at_def by (simp add: upt_conv_Cons map_Suc_upt [symmetric] add.assoc del: upt_Suc)

lemma strncmp_bytes: "strncmp_loop n p q m = strncmp_list n (bytes_at m p n) (bytes_at m q n)"
  by (induction n arbitrary: p q) (simp_all add: bytes_at_Suc byte_def)

lemma length_strncpy_list [simp]: "length (strncpy_list n t) = n"
  by (induction n arbitrary: t) auto

lemma length_safestrcpy_list: "length (safestrcpy_list n t) \<le> Suc (Suc n) \<and> 0 < length (safestrcpy_list n t)"
  by (induction n arbitrary: t) auto

lemma strncpy_list_eq:
  "strncpy_list n t = take n (takeWhile (\<lambda>c. c \<noteq> 0) t @ replicate n 0)"
proof (induction n arbitrary: t)
  case (Suc n)
  then show ?case by (cases t) (simp_all add: byte_def flip: replicate_Suc)
qed simp

text \<open>Two names are equal for \<open>strncmp\<close> when they agree up to the first NUL, within \<open>n\<close> bytes.\<close>

lemma strncmp_list_0_iff:
  "strncmp_list n p q = 0 \<longleftrightarrow> strncpy_list n p = strncpy_list n q"
proof (induction n arbitrary: p q)
  case (Suc n)
  show ?case
    by (cases "byte p 0 = 0"; cases "byte q 0 = 0") (auto simp: Suc.IH unsigned_eq_0_iff simp flip: word_uint_eq_iff)
qed simp

end
