(* ===== verification/Spinlock.thy ===== *)
theory Spinlock
  imports Page_Arith
begin

section \<open>Spinlocks: \<open>kernel/spinlock.c\<close>, \<open>kernel/spinlock.h\<close>\<close>

text \<open>
  The base layer of the machine state: the harts with their control registers,
  the \<open>struct cpu\<close> table and the spinlocks, named by the objects that contain
  them. \<open>cur\<close> is the hart whose code the model follows. On it the operations of
  \<open>spinlock.c\<close>, whole, the closed forms of an uncontended acquire and release, the
  rule for a critical section that every later component uses, and the
  transition system of any number of harts racing for one lock with the atomic
  steps of \<open>acquire\<close> and \<open>release\<close> interleaved.

  \<open>struct cpu\<close> and \<open>struct context\<close> are those of \<open>proc.h\<close>; a pointer into \<open>cpus[]\<close> or
  \<open>proc[]\<close> is its index, the null pointer is \<open>None\<close>.
\<close>

subsection \<open>State\<close>

record kcontext =
  ctx_ra :: uint64
  ctx_sp :: uint64
  ctx_s0 :: uint64
  ctx_s1 :: uint64
  ctx_s2 :: uint64
  ctx_s3 :: uint64
  ctx_s4 :: uint64
  ctx_s5 :: uint64
  ctx_s6 :: uint64
  ctx_s7 :: uint64
  ctx_s8 :: uint64
  ctx_s9 :: uint64
  ctx_s10 :: uint64
  ctx_s11 :: uint64

record cpu =
  c_proc :: "nat option"
  c_context :: kcontext
  c_noff :: int
  c_intena :: bool

record spinlock =
  locked :: uint32
  lk_name :: string
  lk_cpu :: "nat option"

datatype lockid =
    Kmem_lock | Pid_lock | Wait_lock | Proc_lock nat | Tickslock
  | Bcache_lock | Buf_lk nat | Log_lock | Itable_lock | Inode_lk nat
  | Ftable_lock | Pipe_lock uint64 | Cons_lock | Uart_tx_lock | Pr_lock | Vdisk_lock

record mach =
  cur :: nat
  harts :: "nat \<Rightarrow> hart"
  cpus :: "nat \<Rightarrow> cpu"
  locks :: "lockid \<Rightarrow> spinlock"

definition this_hart :: "'z mach_scheme \<Rightarrow> hart" where
  "this_hart s = harts s (cur s)"

definition upd_hart :: "(hart \<Rightarrow> hart) \<Rightarrow> ('z mach_scheme, unit) M" where
  "upd_hart f = modify (\<lambda>s. s\<lparr>harts := (harts s)(cur s := f (harts s (cur s)))\<rparr>)"

definition upd_cpu :: "nat \<Rightarrow> (cpu \<Rightarrow> cpu) \<Rightarrow> ('z mach_scheme, unit) M" where
  "upd_cpu c f = modify (\<lambda>s. s\<lparr>cpus := (cpus s)(c := f (cpus s c))\<rparr>)"

definition upd_lock :: "lockid \<Rightarrow> (spinlock \<Rightarrow> spinlock) \<Rightarrow> ('z mach_scheme, unit) M" where
  "upd_lock l f = modify (\<lambda>s. s\<lparr>locks := (locks s)(l := f (locks s l))\<rparr>)"

definition cpuid :: "('z mach_scheme, nat) M" where
  "cpuid = gets (\<lambda>s. unat (ucast (r_tp (this_hart s)) :: uint32))"

definition mycpu :: "('z mach_scheme, nat) M" where
  "mycpu = bind cpuid (\<lambda>id. return id)"

definition initlock :: "lockid \<Rightarrow> string \<Rightarrow> ('z mach_scheme, unit) M" where
  "initlock l name = upd_lock l (\<lambda>k. k\<lparr>lk_name := name, locked := 0, lk_cpu := None\<rparr>)"

definition push_off :: "('z mach_scheme, unit) M" where
  "push_off =
     bind (gets (\<lambda>s. intr_get (this_hart s))) (\<lambda>old.
     bind (upd_hart intr_off) (\<lambda>_.
     bind mycpu (\<lambda>c.
     bind (gets (\<lambda>s. c_noff (cpus s c))) (\<lambda>noff.
     bind (whenM (noff = 0) (upd_cpu c (\<lambda>k. k\<lparr>c_intena := old\<rparr>))) (\<lambda>_.
     upd_cpu c (\<lambda>k. k\<lparr>c_noff := c_noff k + 1\<rparr>))))))"

definition pop_off :: "('z mach_scheme, unit) M" where
  "pop_off =
     bind mycpu (\<lambda>c.
     bind (gets (\<lambda>s. intr_get (this_hart s))) (\<lambda>on.
     if on then panic ''pop_off - interruptible'' else
     bind (gets (\<lambda>s. c_noff (cpus s c))) (\<lambda>noff.
     if noff < 1 then panic ''pop_off'' else
     bind (upd_cpu c (\<lambda>k. k\<lparr>c_noff := c_noff k - 1\<rparr>)) (\<lambda>_.
     bind (gets (\<lambda>s. c_noff (cpus s c) = 0 \<and> c_intena (cpus s c))) (\<lambda>reenable.
     whenM reenable (upd_hart intr_on))))))"

definition holding :: "lockid \<Rightarrow> ('z mach_scheme, bool) M" where
  "holding l =
     bind mycpu (\<lambda>c.
     gets (\<lambda>s. locked (locks s l) \<noteq> 0 \<and> lk_cpu (locks s l) = Some c))"

text \<open>\<open>__sync_lock_test_and_set(&lk->locked, 1)\<close>: the old value, and 1 stored.\<close>

definition test_and_set :: "lockid \<Rightarrow> ('z mach_scheme, uint32) M" where
  "test_and_set l =
     bind (gets (\<lambda>s. locked (locks s l))) (\<lambda>old.
     bind (upd_lock l (\<lambda>k. k\<lparr>locked := 1\<rparr>)) (\<lambda>_.
     return old))"

text \<open>The spin loop; between two tries the rest of the machine takes a step.\<close>

fun spin :: "lockid \<Rightarrow> ('z mach_scheme, unit) M" where
  "spin l e s = (case test_and_set l e s of
      Ret old _ s' \<Rightarrow>
        (if old = 0 then Ret () e s'
         else case e of [] \<Rightarrow> Block s' | f # e' \<Rightarrow> spin l e' (f s'))
    | _ \<Rightarrow> Fault s)"

declare spin.simps [simp del]

definition acquire :: "lockid \<Rightarrow> ('z mach_scheme, unit) M" where
  "acquire l =
     bind push_off (\<lambda>_.
     bind (holding l) (\<lambda>h.
     if h then panic ''acquire'' else
     bind (spin l) (\<lambda>_.
     bind mycpu (\<lambda>c.
     upd_lock l (\<lambda>k. k\<lparr>lk_cpu := Some c\<rparr>)))))"

definition release :: "lockid \<Rightarrow> ('z mach_scheme, unit) M" where
  "release l =
     bind (holding l) (\<lambda>h.
     if \<not> h then panic ''release'' else
     bind (upd_lock l (\<lambda>k. k\<lparr>lk_cpu := None\<rparr>)) (\<lambda>_.
     bind (upd_lock l (\<lambda>k. k\<lparr>locked := 0\<rparr>)) (\<lambda>_.
     pop_off)))"

lemmas lock_defs = this_hart_def upd_hart_def upd_cpu_def upd_lock_def cpuid_def mycpu_def
  push_off_def pop_off_def holding_def test_and_set_def acquire_def release_def initlock_def

definition myid :: "'z mach_scheme \<Rightarrow> nat" where
  "myid s = unat (ucast (h_tp (harts s (cur s))) :: uint32)"

definition cpu_ok :: "'z mach_scheme \<Rightarrow> bool" where
  "cpu_ok s \<longleftrightarrow> 0 \<le> c_noff (cpus s (myid s)) \<and>
     (0 < c_noff (cpus s (myid s)) \<longrightarrow> \<not> intr_get (harts s (cur s)))"

definition lock_free :: "lockid \<Rightarrow> 'z mach_scheme \<Rightarrow> bool" where
  "lock_free l s \<longleftrightarrow> locked (locks s l) = 0 \<and> lk_cpu (locks s l) = None"

definition saved_intena :: "'z mach_scheme \<Rightarrow> cpu" where
  "saved_intena s = (let k = cpus s (myid s) in
     if c_noff k = 0 then k\<lparr>c_intena := intr_get (harts s (cur s))\<rparr> else k)"

definition acquired :: "lockid \<Rightarrow> 'z mach_scheme \<Rightarrow> 'z mach_scheme" where
  "acquired l s = s\<lparr>harts := (harts s)(cur s := intr_off (harts s (cur s))),
     cpus := (cpus s)(myid s := (saved_intena s)\<lparr>c_noff := c_noff (cpus s (myid s)) + 1\<rparr>),
     locks := (locks s)(l := (locks s l)\<lparr>locked := 1, lk_cpu := Some (myid s)\<rparr>)\<rparr>"

definition intena_saved :: "'z mach_scheme \<Rightarrow> 'z mach_scheme" where
  "intena_saved s = s\<lparr>cpus := (cpus s)(myid s := saved_intena s)\<rparr>"

definition released :: "lockid \<Rightarrow> 'z mach_scheme \<Rightarrow> 'z mach_scheme" where
  "released l s = (let c = cpus s (myid s) in s\<lparr>
     locks := (locks s)(l := (locks s l)\<lparr>lk_cpu := None, locked := 0\<rparr>),
     cpus := (cpus s)(myid s := c\<lparr>c_noff := c_noff c - 1\<rparr>),
     harts := (harts s)(cur s :=
       if c_noff c = 1 \<and> c_intena c then intr_on (harts s (cur s)) else harts s (cur s))\<rparr>)"

lemma acquire_exec:
  assumes "lock_free l s"
  shows "acquire l e s = Ret () e (acquired l s)"
  using assms
  by (simp add: lock_defs csr_defs myid_def spin.simps lock_free_def acquired_def
      saved_intena_def Let_def)

lemma release_exec:
  assumes "locked (locks s l) \<noteq> 0" "lk_cpu (locks s l) = Some (myid s)"
    and "\<not> intr_get (harts s (cur s))" "1 \<le> c_noff (cpus s (myid s))"
  shows "release l e s = Ret () e (released l s)"
  using assms
  by (simp add: lock_defs csr_defs myid_def released_def Let_def)

lemma myid_acquired [simp]: "myid (acquired l s) = myid s"
  by (simp add: myid_def acquired_def)

lemma held_acquired:
  assumes "cpu_ok s"
  shows "locked (locks (acquired l s) l) \<noteq> 0" "lk_cpu (locks (acquired l s) l) = Some (myid s)"
    "\<not> intr_get (harts (acquired l s) (cur (acquired l s)))"
    "1 \<le> c_noff (cpus (acquired l s) (myid s))"
  using assms by (simp_all add: acquired_def cpu_ok_def)

lemma released_acquired:
  assumes "lock_free l s" "cpu_ok s"
  shows "released l (acquired l s) = intena_saved s"
proof -
  have "(if c_noff (saved_intena s\<lparr>c_noff := c_noff (cpus s (myid s)) + 1\<rparr>) = 1
        \<and> c_intena (saved_intena s) then intr_on (intr_off (harts s (cur s))) else intr_off (harts s (cur s)))
      = harts s (cur s)"
    using assms(2)
    by (auto simp: cpu_ok_def saved_intena_def Let_def intr_on_off intr_off_id)
  moreover have "(locks s l)\<lparr>lk_cpu := None, locked := 0\<rparr> = locks s l"
    using assms(1) by (simp add: lock_free_def)
  moreover have "(saved_intena s)\<lparr>c_noff := c_noff (cpus s (myid s))\<rparr> = saved_intena s"
    by (simp add: saved_intena_def Let_def)
  ultimately show ?thesis
    by (intro mach.equality)
       (simp_all add: released_def Let_def, auto simp: acquired_def intena_saved_def split: if_splits)
qed

lemma myid_released [simp]: "myid (intena_saved s) = myid s"
  by (simp add: myid_def intena_saved_def)

subsection \<open>Critical sections\<close>

text \<open>
  Code that neither reads nor writes harts, cpus and locks runs in the same way
  whatever they hold: \<open>lock_blind\<close>. Between \<open>acquire\<close> and \<open>release\<close> of a free lock
  such code behaves as it does without the lock.
\<close>

definition put_mach ::
  "nat \<Rightarrow> (nat \<Rightarrow> hart) \<Rightarrow> (nat \<Rightarrow> cpu) \<Rightarrow> (lockid \<Rightarrow> spinlock) \<Rightarrow> 'z mach_scheme \<Rightarrow> 'z mach_scheme" where
  "put_mach n h c k s = s\<lparr>cur := n, harts := h, cpus := c, locks := k\<rparr>"

fun on_state :: "('s \<Rightarrow> 's) \<Rightarrow> ('s, 'a) outcome \<Rightarrow> ('s, 'a) outcome" where
  "on_state f (Ret x e s) = Ret x e (f s)"
| "on_state f (Panic msg s) = Panic msg (f s)"
| "on_state f (Fault s) = Fault (f s)"
| "on_state f (Block s) = Block (f s)"
| "on_state f (Diverge s) = Diverge (f s)"
| "on_state f (NoReturn s) = NoReturn (f s)"

definition lock_blind :: "('z mach_scheme, 'a) M \<Rightarrow> bool" where
  "lock_blind m \<longleftrightarrow>
     (\<forall>e s n h c k. m e (put_mach n h c k s) = on_state (put_mach n h c k) (m e s))"

lemma blind_gets [blind_rules]:
  "(\<And>n h c k s. f (put_mach n h c k s) = f s) \<Longrightarrow> lock_blind (gets f)"
  by (simp add: lock_blind_def)

lemma blind_modify [blind_rules]:
  "(\<And>n h c k s. f (put_mach n h c k s) = put_mach n h c k (f s)) \<Longrightarrow> lock_blind (modify f)"
  by (simp add: lock_blind_def)

lemma blind_basic [blind_rules]:
  "lock_blind (return x)" "lock_blind (panic msg)" "lock_blind fault" "lock_blind diverge"
  "lock_blind noreturn" "lock_blind (deref p)"
  by (simp_all add: lock_blind_def split: option.split)

lemma blind_bind [blind_rules]:
  "lock_blind m \<Longrightarrow> (\<And>x. lock_blind (f x)) \<Longrightarrow> lock_blind (bind m f)"
  unfolding lock_blind_def by (simp split: outcome.split)

lemma blind_if [blind_rules]:
  "(b \<Longrightarrow> lock_blind m) \<Longrightarrow> (\<not> b \<Longrightarrow> lock_blind m') \<Longrightarrow> lock_blind (if b then m else m')"
  by simp

lemma blind_whenM [blind_rules]: "(b \<Longrightarrow> lock_blind m) \<Longrightarrow> lock_blind (whenM b m)"
  unfolding whenM_def by (auto simp only: blind_basic split: if_split)

lemma blind_option [blind_rules]:
  "(x = None \<Longrightarrow> lock_blind m) \<Longrightarrow> (\<And>y. x = Some y \<Longrightarrow> lock_blind (f y)) \<Longrightarrow>
     lock_blind (case x of None \<Rightarrow> m | Some y \<Rightarrow> f y)"
  by (cases x) simp_all

lemma blind_of_loop [blind_rules]: "lock_blind (of_loop r)"
  unfolding of_loop_def by (intro blind_rules)

lemma blind_for_each [blind_rules]:
  "(\<And>x. lock_blind (body x)) \<Longrightarrow> lock_blind (for_each xs body)"
  by (induction xs) (auto simp only: for_each.simps intro: blind_rules)

lemma blind_for_find [blind_rules]:
  assumes "\<And>x. lock_blind (body x)"
  shows "lock_blind (for_find xs body)"
proof (induction xs)
  case (Cons x xs)
  show ?case
    unfolding for_find.simps by (intro blind_rules assms Cons.IH)
qed (simp only: for_find.simps blind_basic)

lemma blind_keeps:
  assumes "lock_blind m" "m e s = Ret r e' s'"
  shows "cur s' = cur s \<and> harts s' = harts s \<and> cpus s' = cpus s \<and> locks s' = locks s"
proof -
  have "put_mach (cur s) (harts s) (cpus s) (locks s) s = s"
    by (simp add: put_mach_def)
  then have "m e s = on_state (put_mach (cur s) (harts s) (cpus s) (locks s)) (m e s)"
    using assms(1) unfolding lock_blind_def by metis
  with assms(2) have "s' = put_mach (cur s) (harts s) (cpus s) (locks s) s'" by simp
  then have "cur s' = cur (put_mach (cur s) (harts s) (cpus s) (locks s) s')"
    "harts s' = harts (put_mach (cur s) (harts s) (cpus s) (locks s) s')"
    "cpus s' = cpus (put_mach (cur s) (harts s) (cpus s) (locks s) s')"
    "locks s' = locks (put_mach (cur s) (harts s) (cpus s) (locks s) s')"
    by (rule arg_cong)+
  then show ?thesis by (simp add: put_mach_def)
qed

lemma acquired_put:
  "acquired l s = put_mach (cur s) (harts (acquired l s)) (cpus (acquired l s)) (locks (acquired l s)) s"
  by (simp add: put_mach_def acquired_def)

lemma acquired_cong:
  assumes "cur s' = cur s" "harts s' = harts s" "cpus s' = cpus s" "locks s' = locks s"
  shows "put_mach (cur s) (harts (acquired l s)) (cpus (acquired l s)) (locks (acquired l s)) s' = acquired l s'"
  using assms
  by (intro mach.equality) (simp_all add: put_mach_def acquired_def myid_def saved_intena_def Let_def)

lemma critical_exec:
  assumes "lock_blind m" "m e s = Ret r e' s'" "lock_free l s" "cpu_ok s"
  shows "bind (acquire l) (\<lambda>_. bind m (\<lambda>r. bind (release l) (\<lambda>_. f r))) e s = f r e' (intena_saved s')"
proof -
  have same: "cur s' = cur s" "harts s' = harts s" "cpus s' = cpus s" "locks s' = locks s"
    using blind_keeps [OF assms(1,2)] by simp_all
  have "m e (acquired l s) = on_state (put_mach (cur s) (harts (acquired l s))
      (cpus (acquired l s)) (locks (acquired l s))) (m e s)"
    using assms(1) acquired_put [of l s] unfolding lock_blind_def by metis
  then have m: "m e (acquired l s) = Ret r e' (acquired l s')"
    using assms(2) acquired_cong [OF same] by simp
  have ok: "lock_free l s'" "cpu_ok s'"
    using assms(3,4) same by (simp_all add: lock_free_def cpu_ok_def myid_def)
  have "release l e' (acquired l s') = Ret () e' (intena_saved s')"
    using release_exec [of "acquired l s'" l e'] held_acquired [OF ok(2), of l]
      released_acquired [OF ok] by simp
  then show ?thesis using acquire_exec [OF assms(3)] m by simp
qed

text \<open>The section of a function that ends with \<open>release\<close>.\<close>

lemma critical_exec_unit:
  assumes "lock_blind m" "m e s = Ret () e' s'" "lock_free l s" "cpu_ok s"
  shows "bind (acquire l) (\<lambda>_. bind m (\<lambda>_. release l)) e s = Ret () e' (intena_saved s')"
proof -
  show ?thesis
    using critical_exec [OF assms, of "\<lambda>_. return ()"] by (simp only: bind_return_unit exec_return)
qed

lemma initlock_exec:
  "initlock l nm e s = Ret () e (s\<lparr>locks := (locks s)(l := \<lparr>locked = 0, lk_name = nm, lk_cpu = None\<rparr>)\<rparr>)"
  by (cases "locks s l") (simp add: initlock_def upd_lock_def)

text \<open>What a finished critical section leaves: only the saved interrupt flag can change.\<close>

lemma intena_saved_simps [simp, frame_simps]:
  "cur (intena_saved s) = cur s" "harts (intena_saved s) = harts s"
  "locks (intena_saved s) = locks s" "mach.more (intena_saved s) = mach.more s"
  "c_noff (cpus (intena_saved s) c) = c_noff (cpus s c)"
  "c_proc (cpus (intena_saved s) c) = c_proc (cpus s c)"
  "c_context (cpus (intena_saved s) c) = c_context (cpus s c)"
  by (simp_all add: intena_saved_def saved_intena_def Let_def)

lemma intena_saved_ok [simp, frame_simps]:
  "lock_free l (intena_saved s) = lock_free l s" "cpu_ok (intena_saved s) = cpu_ok s"
  by (simp_all add: lock_free_def cpu_ok_def)

lemma intena_saved_idem [simp]: "intena_saved (intena_saved s) = intena_saved s"
  by (auto simp: intena_saved_def saved_intena_def Let_def myid_def)

subsection \<open>Harts competing for one lock\<close>

datatype lkpc = Idle | Spinning | Marking | Critical | Unlocking | Popping

type_synonym lsys = "(nat \<Rightarrow> lkpc) \<times> mach"

inductive lk_step :: "lockid \<Rightarrow> lsys \<Rightarrow> lsys \<Rightarrow> bool" for l where
  enter: "h < NCPU \<Longrightarrow> pc h = Idle \<Longrightarrow> push_off [] (s\<lparr>cur := h\<rparr>) = Ret () [] s1 \<Longrightarrow>
      holding l [] s1 = Ret False [] s2 \<Longrightarrow> lk_step l (pc, s) (pc(h := Spinning), s2)"
| retry: "h < NCPU \<Longrightarrow> pc h = Spinning \<Longrightarrow> test_and_set l [] (s\<lparr>cur := h\<rparr>) = Ret old [] s1 \<Longrightarrow>
      old \<noteq> 0 \<Longrightarrow> lk_step l (pc, s) (pc, s1)"
| win: "h < NCPU \<Longrightarrow> pc h = Spinning \<Longrightarrow> test_and_set l [] (s\<lparr>cur := h\<rparr>) = Ret old [] s1 \<Longrightarrow>
      old = 0 \<Longrightarrow> lk_step l (pc, s) (pc(h := Marking), s1)"
| mark: "h < NCPU \<Longrightarrow> pc h = Marking \<Longrightarrow>
      bind mycpu (\<lambda>c. upd_lock l (\<lambda>k. k\<lparr>lk_cpu := Some c\<rparr>)) [] (s\<lparr>cur := h\<rparr>) = Ret () [] s1 \<Longrightarrow>
      lk_step l (pc, s) (pc(h := Critical), s1)"
| unmark: "h < NCPU \<Longrightarrow> pc h = Critical \<Longrightarrow> holding l [] (s\<lparr>cur := h\<rparr>) = Ret True [] s1 \<Longrightarrow>
      upd_lock l (\<lambda>k. k\<lparr>lk_cpu := None\<rparr>) [] s1 = Ret () [] s2 \<Longrightarrow>
      lk_step l (pc, s) (pc(h := Unlocking), s2)"
| unlock: "h < NCPU \<Longrightarrow> pc h = Unlocking \<Longrightarrow>
      upd_lock l (\<lambda>k. k\<lparr>locked := 0\<rparr>) [] (s\<lparr>cur := h\<rparr>) = Ret () [] s1 \<Longrightarrow>
      lk_step l (pc, s) (pc(h := Popping), s1)"
| pop: "h < NCPU \<Longrightarrow> pc h = Popping \<Longrightarrow> pop_off [] (s\<lparr>cur := h\<rparr>) = Ret () [] s1 \<Longrightarrow>
      lk_step l (pc, s) (pc(h := Idle), s1)"

definition owns :: "lkpc \<Rightarrow> bool" where
  "owns p \<longleftrightarrow> p = Marking \<or> p = Critical \<or> p = Unlocking"

definition lk_start :: "lockid \<Rightarrow> lsys \<Rightarrow> bool" where
  "lk_start l = (\<lambda>(pc, s). (\<forall>h. pc h = Idle) \<and> lock_free l s \<and>
     (\<forall>h < NCPU. h_tp (harts s h) = of_nat h \<and> c_noff (cpus s h) = 0))"

inductive lk_reach :: "lockid \<Rightarrow> lsys \<Rightarrow> bool" for l where
  init: "lk_start l x \<Longrightarrow> lk_reach l x"
| step: "lk_reach l x \<Longrightarrow> lk_step l x y \<Longrightarrow> lk_reach l y"

definition hart_inv :: "(nat \<Rightarrow> lkpc) \<Rightarrow> mach \<Rightarrow> nat \<Rightarrow> bool" where
  "hart_inv pc s h \<longleftrightarrow> h_tp (harts s h) = of_nat h \<and>
     c_noff (cpus s h) = (if pc h = Idle then 0 else 1) \<and>
     (pc h \<noteq> Idle \<longrightarrow> \<not> intr_get (harts s h))"

definition mutex_at :: "nat option \<Rightarrow> (nat \<Rightarrow> lkpc) \<Rightarrow> spinlock \<Rightarrow> bool" where
  "mutex_at ow pc k \<longleftrightarrow> (\<forall>h. owns (pc h) = (ow = Some h)) \<and> (locked k \<noteq> 0) = (ow \<noteq> None) \<and>
     lk_cpu k = (case ow of None \<Rightarrow> None | Some h \<Rightarrow> if pc h = Critical then Some h else None)"

definition mutex_inv :: "(nat \<Rightarrow> lkpc) \<Rightarrow> spinlock \<Rightarrow> bool" where
  "mutex_inv pc k \<longleftrightarrow> (\<exists>ow. mutex_at ow pc k)"

definition lk_inv :: "lockid \<Rightarrow> lsys \<Rightarrow> bool" where
  "lk_inv l = (\<lambda>(pc, s). (\<forall>h < NCPU. hart_inv pc s h) \<and> mutex_inv pc (locks s l))"

lemma hart_index:
  assumes "h < NCPU"
  shows "unat (ucast (of_nat h :: uint64) :: uint32) = h"
  using assms by (simp add: NCPU_def unsigned_ucast_eq unat_of_nat take_bit_nat_eq_self)

lemma myid_cur: "h < NCPU \<Longrightarrow> hart_inv pc s h \<Longrightarrow> myid (s\<lparr>cur := h\<rparr>) = h"
  by (simp add: myid_def hart_inv_def hart_index)

lemma mycpu_exec: "mycpu e s = Ret (myid s) e s"
  by (simp add: mycpu_def cpuid_def this_hart_def csr_defs myid_def)

lemma holding_exec:
  "holding l e s = Ret (locked (locks s l) \<noteq> 0 \<and> lk_cpu (locks s l) = Some (myid s)) e s"
  by (simp add: holding_def mycpu_exec)

lemma test_and_set_exec:
  "test_and_set l e s =
     Ret (locked (locks s l)) e (s\<lparr>locks := (locks s)(l := (locks s l)\<lparr>locked := 1\<rparr>)\<rparr>)"
  by (simp add: test_and_set_def upd_lock_def)

lemma upd_lock_exec:
  "upd_lock l f e s = Ret () e (s\<lparr>locks := (locks s)(l := f (locks s l))\<rparr>)"
  by (simp add: upd_lock_def)

lemma push_off_exec:
  "push_off e s = Ret () e (s\<lparr>harts := (harts s)(cur s := intr_off (harts s (cur s))),
     cpus := (cpus s)(myid s := (saved_intena s)\<lparr>c_noff := c_noff (cpus s (myid s)) + 1\<rparr>)\<rparr>)"
  by (simp add: lock_defs csr_defs myid_def saved_intena_def Let_def)

lemma pop_off_exec:
  assumes "\<not> intr_get (harts s (cur s))" "1 \<le> c_noff (cpus s (myid s))"
  shows "pop_off e s = Ret () e (s\<lparr>
     cpus := (cpus s)(myid s := (cpus s (myid s))\<lparr>c_noff := c_noff (cpus s (myid s)) - 1\<rparr>),
     harts := (harts s)(cur s :=
       if c_noff (cpus s (myid s)) = 1 \<and> c_intena (cpus s (myid s))
       then intr_on (harts s (cur s)) else harts s (cur s))\<rparr>)"
  using assms by (simp add: lock_defs csr_defs myid_def)

lemma owns_simps [simp]:
  "\<not> owns Idle" "\<not> owns Spinning" "owns Marking" "owns Critical" "owns Unlocking" "\<not> owns Popping"
  by (simp_all add: owns_def)

lemma mutex_owner: "mutex_at ow pc k \<Longrightarrow> owns (pc h) \<Longrightarrow> ow = Some h"
  by (simp add: mutex_at_def)

lemma mutex_outside:
  assumes "mutex_inv pc k" "\<not> owns (pc h)" "\<not> owns p"
  shows "mutex_inv (pc(h := p)) k"
proof -
  from assms obtain ow where ow: "mutex_at ow pc k" by (auto simp: mutex_inv_def)
  with assms(2,3) have "mutex_at ow (pc(h := p)) k"
    by (auto simp: mutex_at_def split: option.splits)
  then show ?thesis by (auto simp: mutex_inv_def)
qed

lemma mutex_retry:
  assumes "mutex_inv pc k" "locked k \<noteq> 0"
  shows "mutex_inv pc (k\<lparr>locked := 1\<rparr>)"
  using assms by (auto simp: mutex_inv_def mutex_at_def)

lemma mutex_win:
  assumes "mutex_inv pc k" "locked k = 0"
  shows "mutex_inv (pc(h := Marking)) (k\<lparr>locked := 1\<rparr>)"
proof -
  from assms have "mutex_at None pc k" by (auto simp: mutex_inv_def mutex_at_def)
  then have "mutex_at (Some h) (pc(h := Marking)) (k\<lparr>locked := 1\<rparr>)" by (auto simp: mutex_at_def)
  then show ?thesis by (auto simp: mutex_inv_def)
qed

lemma mutex_holder:
  assumes "mutex_inv pc k" "owns (pc h)"
  shows "mutex_inv (pc(h := Critical)) (k\<lparr>lk_cpu := Some h\<rparr>)"
    and "mutex_inv (pc(h := Unlocking)) (k\<lparr>lk_cpu := None\<rparr>)"
    and "pc h = Unlocking \<Longrightarrow> mutex_inv (pc(h := Popping)) (k\<lparr>locked := 0\<rparr>)"
proof -
  from assms have at: "mutex_at (Some h) pc k" by (auto simp: mutex_inv_def dest: mutex_owner)
  then have "mutex_at (Some h) (pc(h := Critical)) (k\<lparr>lk_cpu := Some h\<rparr>)"
    by (simp add: mutex_at_def)
  then show "mutex_inv (pc(h := Critical)) (k\<lparr>lk_cpu := Some h\<rparr>)" by (auto simp: mutex_inv_def)
  from at have "mutex_at (Some h) (pc(h := Unlocking)) (k\<lparr>lk_cpu := None\<rparr>)"
    by (simp add: mutex_at_def)
  then show "mutex_inv (pc(h := Unlocking)) (k\<lparr>lk_cpu := None\<rparr>)" by (auto simp: mutex_inv_def)
  assume "pc h = Unlocking"
  with at have "mutex_at None (pc(h := Popping)) (k\<lparr>locked := 0\<rparr>)" by (simp add: mutex_at_def)
  then show "mutex_inv (pc(h := Popping)) (k\<lparr>locked := 0\<rparr>)" by (auto simp: mutex_inv_def)
qed

lemma hart_inv_pc:
  "hart_inv pc s h' \<Longrightarrow> pc h \<noteq> Idle \<Longrightarrow> p \<noteq> Idle \<Longrightarrow> harts t = harts s \<Longrightarrow> cpus t = cpus s \<Longrightarrow>
     hart_inv (pc(h := p)) t h'"
  by (auto simp: hart_inv_def)

lemma lk_step_inv:
  assumes "lk_step l x y" "lk_inv l x"
  shows "lk_inv l y"
  using assms
proof (cases rule: lk_step.cases)
  case (enter h pc s s1 s2)
  with assms(2) have inv: "\<And>h. h < NCPU \<Longrightarrow> hart_inv pc s h" "mutex_inv pc (locks s l)"
    by (simp_all add: lk_inv_def)
  note id = myid_cur [OF enter(3) inv(1) [OF enter(3)]]
  from enter(5,6) have s2: "locks s2 = locks s" "harts s2 = (harts s)(h := intr_off (harts s h))"
    "cpus s2 = (cpus s)(h := (saved_intena (s\<lparr>cur := h\<rparr>))\<lparr>c_noff := c_noff (cpus s h) + 1\<rparr>)"
    by (auto simp: push_off_exec holding_exec id)
  have "hart_inv (pc(h := Spinning)) s2 h'" if "h' < NCPU" for h'
    using inv(1) [OF that] enter(4) by (auto simp: hart_inv_def s2)
  with mutex_outside [OF inv(2), of h Spinning] enter(4) show ?thesis
    using enter(2) by (simp add: lk_inv_def s2)
next
  case (retry h pc s old s1)
  with assms(2) have "mutex_inv pc (locks s l)" by (simp add: lk_inv_def)
  with assms(2) retry show ?thesis
    by (auto simp: lk_inv_def test_and_set_exec hart_inv_def intro: mutex_retry)
next
  case (win h pc s old s1)
  with assms(2) have "mutex_inv pc (locks s l)" by (simp add: lk_inv_def)
  with assms(2) win show ?thesis
    by (auto simp: lk_inv_def test_and_set_exec intro: mutex_holder mutex_win hart_inv_pc)
next
  case (mark h pc s s1)
  with assms(2) have inv: "mutex_inv pc (locks s l)" "hart_inv pc s h" by (simp_all add: lk_inv_def)
  from mutex_holder(1) [OF inv(1), of h] mark(4)
  have "mutex_inv (pc(h := Critical)) (locks s l\<lparr>lk_cpu := Some h\<rparr>)" by simp
  with assms(2) mark inv(2) show ?thesis
    by (auto simp: lk_inv_def mycpu_exec upd_lock_exec myid_cur intro: hart_inv_pc)
next
  case (unmark h pc s s1 s2)
  with assms(2) have inv: "mutex_inv pc (locks s l)" by (simp add: lk_inv_def)
  from mutex_holder(2) [OF inv, of h] unmark(4)
  have "mutex_inv (pc(h := Unlocking)) (locks s l\<lparr>lk_cpu := None\<rparr>)" by simp
  with assms(2) unmark show ?thesis
    by (auto simp: lk_inv_def holding_exec upd_lock_exec intro: mutex_holder mutex_win hart_inv_pc)
next
  case (unlock h pc s s1)
  with assms(2) have inv: "mutex_inv pc (locks s l)" by (simp add: lk_inv_def)
  from mutex_holder(3) [OF inv, of h] unlock(4)
  have "mutex_inv (pc(h := Popping)) (locks s l\<lparr>locked := 0\<rparr>)" by simp
  with assms(2) unlock show ?thesis
    by (auto simp: lk_inv_def upd_lock_exec intro: mutex_holder mutex_win hart_inv_pc)
next
  case (pop h pc s s1)
  with assms(2) have inv: "\<And>h. h < NCPU \<Longrightarrow> hart_inv pc s h" "mutex_inv pc (locks s l)"
    by (simp_all add: lk_inv_def)
  note id = myid_cur [OF pop(3) inv(1) [OF pop(3)]]
  have c: "\<not> intr_get (harts s h)" "c_noff (cpus s h) = 1"
    using inv(1) [OF pop(3)] pop(4) by (simp_all add: hart_inv_def)
  from pop(5) have s1: "locks s1 = locks s" "cpus s1 = (cpus s)(h := (cpus s h)\<lparr>c_noff := 0\<rparr>)"
    "harts s1 = (harts s)(h := if c_intena (cpus s h) then intr_on (harts s h) else harts s h)"
    by (auto simp: pop_off_exec id c)
  have "hart_inv (pc(h := Idle)) s1 h'" if "h' < NCPU" for h'
    using inv(1) [OF that] by (auto simp: hart_inv_def s1)
  with mutex_outside [OF inv(2), of h Idle] pop(4) show ?thesis
    using pop(2) by (simp add: lk_inv_def s1)
qed

lemma lk_reach_inv: "lk_reach l x \<Longrightarrow> lk_inv l x"
proof (induction rule: lk_reach.induct)
  case (init x)
  then show ?case
    by (auto simp: lk_start_def lk_inv_def hart_inv_def mutex_inv_def mutex_at_def lock_free_def)
next
  case (step x y)
  then show ?case by (blast intro: lk_step_inv)
qed

text \<open>A hart that finds the lock free gets to its critical section: the system is not stuck.\<close>

lemma lk_reach_critical:
  assumes "lk_start l (pc, s)" "h < NCPU"
  shows "\<exists>s'. lk_reach l (pc(h := Critical), s')"
proof -
  have start: "lk_reach l (pc, s)" using assms(1) by (rule lk_reach.init)
  have "pc h = Idle" "lock_free l s" "hart_inv pc s h"
    using assms by (simp_all add: lk_start_def hart_inv_def)
  note id = myid_cur [OF assms(2) this(3)]
  obtain s1 where s1: "push_off [] (s\<lparr>cur := h\<rparr>) = Ret () [] s1" "locks s1 = locks s"
    "harts s1 h = intr_off (harts s h)"
    by (simp add: push_off_exec)
  have free: "locked (locks s l) = 0" "lk_cpu (locks s l) = None"
    using \<open>lock_free l s\<close> by (simp_all add: lock_free_def)
  have "lk_step l (pc, s) (pc(h := Spinning), s1)"
    using s1(2) free
    by (intro lk_step.enter [where h = h and pc = pc, OF assms(2) \<open>pc h = Idle\<close> s1(1)])
       (simp add: holding_exec)
  with start have r1: "lk_reach l (pc(h := Spinning), s1)" by (rule lk_reach.step)
  obtain s2 where s2: "test_and_set l [] (s1\<lparr>cur := h\<rparr>) = Ret 0 [] s2"
    using s1 free by (simp add: test_and_set_exec)
  have "lk_step l (pc(h := Spinning), s1) ((pc(h := Spinning))(h := Marking), s2)"
    by (rule lk_step.win [OF assms(2) _ s2]) simp_all
  with r1 have r2: "lk_reach l ((pc(h := Spinning))(h := Marking), s2)" by (rule lk_reach.step)
  obtain s3 where s3: "bind mycpu (\<lambda>c. upd_lock l (\<lambda>k. k\<lparr>lk_cpu := Some c\<rparr>)) [] (s2\<lparr>cur := h\<rparr>) = Ret () [] s3"
    by (simp add: mycpu_exec upd_lock_exec)
  have "lk_step l ((pc(h := Spinning))(h := Marking), s2)
      (((pc(h := Spinning))(h := Marking))(h := Critical), s3)"
    by (rule lk_step.mark [OF assms(2) _ s3]) simp
  with r2 have "lk_reach l (((pc(h := Spinning))(h := Marking))(h := Critical), s3)"
    by (rule lk_reach.step)
  then show ?thesis by auto
qed

definition hart0 :: "nat \<Rightarrow> hart" where
  "hart0 h = \<lparr>h_mhartid = of_nat h, h_mstatus = 0, h_mepc = 0, h_sstatus = 0, h_sip = 0, h_sie = 0,
     h_mie = 0, h_sepc = 0, h_medeleg = 0, h_mideleg = 0, h_stvec = 0, h_mtvec = 0, h_pmpcfg0 = 0,
     h_pmpaddr0 = 0, h_satp = 0, h_sscratch = 0, h_mscratch = 0, h_scause = 0, h_stval = 0,
     h_mcounteren = 0, h_time = 0, h_sp = 0, h_tp = of_nat h, h_ra = 0, h_tlb = (\<lambda>_. None)\<rparr>"

definition context0 :: kcontext where
  "context0 = \<lparr>ctx_ra = 0, ctx_sp = 0, ctx_s0 = 0, ctx_s1 = 0, ctx_s2 = 0, ctx_s3 = 0, ctx_s4 = 0,
     ctx_s5 = 0, ctx_s6 = 0, ctx_s7 = 0, ctx_s8 = 0, ctx_s9 = 0, ctx_s10 = 0, ctx_s11 = 0\<rparr>"

definition cpu0 :: cpu where
  "cpu0 = \<lparr>c_proc = None, c_context = context0, c_noff = 0, c_intena = False\<rparr>"

definition spinlock0 :: spinlock where
  "spinlock0 = \<lparr>locked = 0, lk_name = [], lk_cpu = None\<rparr>"

definition mach0 :: mach where
  "mach0 = \<lparr>cur = 0, harts = hart0, cpus = (\<lambda>_. cpu0), locks = (\<lambda>_. spinlock0)\<rparr>"

lemma mach0_start: "lk_start l (\<lambda>_. Idle, mach0)"
  by (simp add: lk_start_def mach0_def lock_free_def spinlock0_def hart0_def cpu0_def)




end
