(* ===== verification/Kalloc.thy ===== *)
theory Kalloc
  imports Kstring Spinlock
begin

section \<open>Physical page allocator: \<open>kernel/kalloc.c\<close>\<close>

text \<open>
  The second layer of the machine state: byte-addressed memory and the allocator.
  The free list lives in memory, as in the source: \<open>kmem.freelist\<close> is the address
  of the first free page and the first eight bytes of a free page hold the
  address of the next. \<open>kend\<close> is the linker symbol \<open>end\<close>.

  \<open>kmem_ok s ps\<close> relates the linked list in memory to the list \<open>ps\<close> of free pages.
  The loop of \<open>freerange\<close> is given as many rounds as there are pages below its
  bound; the loop of \<open>kfreemem\<close> over the linked list has no bound, and is shown to
  end on every well-formed list.
\<close>

record kstate = mach +
  mem :: memory
  kend :: uint64
  freelist :: uint64

definition kfree :: "uint64 \<Rightarrow> ('z kstate_scheme, unit) M" where
  "kfree pa =
     bind (gets kend) (\<lambda>e.
     if pa mod PGSIZE \<noteq> 0 \<or> pa < e \<or> pa \<ge> PHYSTOP then panic ''kfree'' else
     bind (modify (\<lambda>s. s\<lparr>mem := memset pa 1 (ucast PGSIZE) (mem s)\<rparr>)) (\<lambda>_.
     bind (acquire Kmem_lock) (\<lambda>_.
     bind (modify (\<lambda>s. s\<lparr>mem := store64 pa (freelist s) (mem s)\<rparr>)) (\<lambda>_.
     bind (modify (\<lambda>s. s\<lparr>freelist := pa\<rparr>)) (\<lambda>_.
     release Kmem_lock)))))"

definition kalloc :: "('z kstate_scheme, uint64) M" where
  "kalloc =
     bind (acquire Kmem_lock) (\<lambda>_.
     bind (gets freelist) (\<lambda>r.
     bind (whenM (r \<noteq> 0) (modify (\<lambda>s. s\<lparr>freelist := load64 (mem s) r\<rparr>))) (\<lambda>_.
     bind (release Kmem_lock) (\<lambda>_.
     bind (whenM (r \<noteq> 0) (modify (\<lambda>s. s\<lparr>mem := memset r 5 (ucast PGSIZE) (mem s)\<rparr>))) (\<lambda>_.
     return r)))))"

partial_function (option) count_runs :: "memory \<Rightarrow> uint64 \<Rightarrow> int \<Rightarrow> int option" where
  "count_runs m r count = (if r = 0 then Some count else count_runs m (load64 m r) (count + 1))"

declare count_runs.simps [code]

definition kfreemem :: "('z kstate_scheme, int) M" where
  "kfreemem =
     bind (acquire Kmem_lock) (\<lambda>_.
     bind (gets (\<lambda>s. count_runs (mem s) (freelist s) 0)) (\<lambda>c.
     bind (of_loop c) (\<lambda>count.
     bind (release Kmem_lock) (\<lambda>_.
     return (count * 4096)))))"

primrec freerange_loop :: "nat \<Rightarrow> uint64 \<Rightarrow> uint64 \<Rightarrow> ('z kstate_scheme, unit) M" where
  "freerange_loop 0 p pa_end = (if p + PGSIZE \<le> pa_end then diverge else return ())"
| "freerange_loop (Suc n) p pa_end =
     (if p + PGSIZE \<le> pa_end
      then bind (kfree p) (\<lambda>_. freerange_loop n (p + PGSIZE) pa_end) else return ())"

definition freerange :: "uint64 \<Rightarrow> uint64 \<Rightarrow> ('z kstate_scheme, unit) M" where
  "freerange pa_start pa_end = freerange_loop (unat pa_end div 4096) (PGROUNDUP pa_start) pa_end"

definition kinit :: "('z kstate_scheme, unit) M" where
  "kinit = bind (initlock Kmem_lock ''kmem'') (\<lambda>_. bind (gets kend) (\<lambda>e. freerange e PHYSTOP))"

subsection \<open>Pages\<close>

definition in_page :: "uint64 \<Rightarrow> uint64 \<Rightarrow> bool" where
  "in_page p a \<longleftrightarrow> unat (a - p) < 4096"

lemma in_page_iff: "pg_aligned p \<Longrightarrow> in_page p a \<longleftrightarrow> PGROUNDDOWN a = p"
proof
  assume "pg_aligned p" "in_page p a"
  define k where "k = unat (a - p)"
  have k: "k < 4096" using \<open>in_page p a\<close> by (simp add: in_page_def k_def)
  have a: "a = p + of_nat k" by (simp add: k_def)
  obtain q where q: "unat p = 4096 * q"
    using \<open>pg_aligned p\<close> unfolding pg_aligned_iff mod_eq_0_iff_dvd by blast
  have "unat p < 2 ^ 64" using unsigned_less [of p] by simp
  with q have "q < 2 ^ 52" by simp
  with k q have lt: "unat p + k < 2 ^ 64" by simp
  have "unat a = unat p + k"
    using k lt by (simp add: a unat_word_ariths unat_of_nat take_bit_nat_eq_self)
  with k q have "unat a div 4096 * 4096 = unat p" by simp
  then show "PGROUNDDOWN a = p" by (simp add: word_unat_eq_iff unat_PGROUNDDOWN)
next
  assume "PGROUNDDOWN a = p"
  then show "in_page p a" using unat_page_offset [of a] by (simp add: in_page_def)
qed

lemma in_page_disjoint:
  "pg_aligned p \<Longrightarrow> pg_aligned q \<Longrightarrow> p \<noteq> q \<Longrightarrow> in_page p a \<Longrightarrow> \<not> in_page q a"
  by (auto simp: in_page_iff)

lemma in_page_offset: "i < 4096 \<Longrightarrow> in_page p (p + of_nat i)"
  by (simp add: in_page_def unat_of_nat take_bit_nat_eq_self)

lemma unat_PGSIZE_int [simp]: "unat (ucast PGSIZE :: uint32) = 4096"
  by (simp add: PGSIZE_def)

lemma memset_page: "memset p c (ucast PGSIZE) m a = (if in_page p a then ucast c else m a)"
  by (simp add: memset_apply in_page_def)

lemma store64_outside_page:
  assumes "pg_aligned p" "\<not> in_page p a"
  shows "store64 p v m a = m a"
  using assms by (simp add: store64_def put_bytes_def in_page_def)

lemma load64_page_cong:
  assumes "\<And>a. in_page p a \<Longrightarrow> m a = m' a"
  shows "load64 m p = load64 m' p"
  by (rule load64_cong) (simp add: assms in_page_offset)

subsection \<open>The free list\<close>

fun chain :: "memory \<Rightarrow> uint64 \<Rightarrow> uint64 list \<Rightarrow> bool" where
  "chain m p [] \<longleftrightarrow> p = 0"
| "chain m p (q # qs) \<longleftrightarrow> p = q \<and> p \<noteq> 0 \<and> chain m (load64 m p) qs"

definition page_ok :: "'z kstate_scheme \<Rightarrow> uint64 \<Rightarrow> bool" where
  "page_ok s p \<longleftrightarrow> pg_aligned p \<and> kend s \<le> p \<and> p < PHYSTOP"

definition kmem_inv :: "'z kstate_scheme \<Rightarrow> uint64 list \<Rightarrow> bool" where
  "kmem_inv s ps \<longleftrightarrow> chain (mem s) (freelist s) ps \<and> distinct ps \<and> (\<forall>p \<in> set ps. page_ok s p) \<and>
     0 < kend s"

definition kmem_ok :: "'z kstate_scheme \<Rightarrow> uint64 list \<Rightarrow> bool" where
  "kmem_ok s ps \<longleftrightarrow> lock_free Kmem_lock s \<and> cpu_ok s \<and> kmem_inv s ps"

lemma chain_cong:
  "(\<And>q a. q \<in> set ps \<Longrightarrow> in_page q a \<Longrightarrow> m a = m' a) \<Longrightarrow> chain m p ps = chain m' p ps"
proof (induction ps arbitrary: p)
  case (Cons q qs)
  have "load64 m q = load64 m' q" by (rule load64_page_cong) (rule Cons.prems, simp_all)
  moreover have "chain m (load64 m' q) qs = chain m' (load64 m' q) qs"
    by (rule Cons.IH) (rule Cons.prems, simp_all)
  ultimately show ?case by auto
qed simp

lemma kstate_put_mach [simp, frame_simps]:
  "mem (put_mach n h c k s) = mem s" "kend (put_mach n h c k s) = kend s"
  "freelist (put_mach n h c k s) = freelist s"
  "(put_mach n h c k s)\<lparr>mem := x\<rparr> = put_mach n h c k (s\<lparr>mem := x\<rparr>)"
  "(put_mach n h c k s)\<lparr>freelist := y\<rparr> = put_mach n h c k (s\<lparr>freelist := y\<rparr>)"
  by (simp_all add: put_mach_def)

lemma kstate_intena [simp, frame_simps]:
  "mem (intena_saved s) = mem s" "kend (intena_saved s) = kend s"
  "freelist (intena_saved s) = freelist s"
  "intena_saved (s\<lparr>mem := x\<rparr>) = (intena_saved s)\<lparr>mem := x\<rparr>"
  "intena_saved (s\<lparr>freelist := y\<rparr>) = (intena_saved s)\<lparr>freelist := y\<rparr>"
  by (simp_all add: intena_saved_def saved_intena_def myid_def Let_def)

lemma kstate_lock [simp, frame_simps]:
  "lock_free l (s\<lparr>mem := x\<rparr>) = lock_free l s" "lock_free l (s\<lparr>freelist := y\<rparr>) = lock_free l s"
  "cpu_ok (s\<lparr>mem := x\<rparr>) = cpu_ok s" "cpu_ok (s\<lparr>freelist := y\<rparr>) = cpu_ok s"
  by (simp_all add: lock_free_def cpu_ok_def myid_def)

lemma page_ok_frame [simp, frame_simps]:
  "page_ok (s\<lparr>mem := x\<rparr>) p = page_ok s p" "page_ok (s\<lparr>freelist := y\<rparr>) p = page_ok s p"
  "page_ok (intena_saved s) p = page_ok s p"
  by (simp_all add: page_ok_def)

subsection \<open>Closed forms\<close>

lemma kalloc_exec:
  assumes "lock_free Kmem_lock s" "cpu_ok s"
  shows "kalloc e s = (let r = freelist s in
     if r = 0 then Ret 0 e (intena_saved s)
     else Ret r e ((intena_saved s)\<lparr>freelist := load64 (mem s) r,
            mem := memset r 5 (ucast PGSIZE) (mem s)\<rparr>))"
proof -
  define body where "body = bind (gets freelist) (\<lambda>r.
     bind (whenM (r \<noteq> 0) (modify (\<lambda>s :: 'a kstate_scheme. s\<lparr>freelist := load64 (mem s) r\<rparr>))) (\<lambda>_.
     return r))"
  have blind: "lock_blind body" unfolding body_def by (intro blind_rules; simp)
  have run: "body e s = Ret (freelist s) e
      (if freelist s = 0 then s else s\<lparr>freelist := load64 (mem s) (freelist s)\<rparr>)"
    by (simp add: body_def)
  have eq: "kalloc = bind (acquire Kmem_lock) (\<lambda>_. bind body (\<lambda>r. bind (release Kmem_lock) (\<lambda>_.
      bind (whenM (r \<noteq> 0) (modify (\<lambda>s :: 'a kstate_scheme. s\<lparr>mem := memset r 5 (ucast PGSIZE) (mem s)\<rparr>))) (\<lambda>_.
      return r))))"
    by (simp only: kalloc_def body_def bind_assoc bind_return_left)
  show ?thesis unfolding eq critical_exec [OF blind run assms] by (simp add: Let_def)
qed

lemma kfree_exec:
  assumes "lock_free Kmem_lock s" "cpu_ok s" "page_ok s pa"
  shows "kfree pa e s = Ret () e ((intena_saved s)\<lparr>
     mem := store64 pa (freelist s) (memset pa 1 (ucast PGSIZE) (mem s)), freelist := pa\<rparr>)"
proof -
  let ?s = "s\<lparr>mem := memset pa 1 (ucast PGSIZE) (mem s)\<rparr>"
  define body where "body = bind (modify (\<lambda>s :: 'a kstate_scheme. s\<lparr>mem := store64 pa (freelist s) (mem s)\<rparr>)) (\<lambda>_.
     modify (\<lambda>s. s\<lparr>freelist := pa\<rparr>))"
  have blind: "lock_blind body" unfolding body_def by (intro blind_rules; simp)
  have run: "body e ?s = Ret () e (?s\<lparr>mem := store64 pa (freelist ?s) (mem ?s), freelist := pa\<rparr>)"
    by (simp add: body_def)
  have sec: "bind (acquire Kmem_lock) (\<lambda>_. bind body (\<lambda>_. release Kmem_lock)) e ?s =
      Ret () e (intena_saved (?s\<lparr>mem := store64 pa (freelist ?s) (mem ?s), freelist := pa\<rparr>))"
    by (rule critical_exec_unit [OF blind run]) (simp_all add: assms)
  have "pg_aligned pa" "\<not> pa < kend s" "\<not> PHYSTOP \<le> pa"
    using assms(3) by (auto simp: page_ok_def)
  then have "kfree pa e s = bind (acquire Kmem_lock) (\<lambda>_. bind body (\<lambda>_. release Kmem_lock)) e ?s"
    unfolding kfree_def body_def bind_assoc pg_aligned_def [symmetric] by simp
  also note sec
  finally show ?thesis by simp
qed

subsection \<open>Specifications\<close>

lemma kmem_invD:
  "kmem_inv s ps \<Longrightarrow> p \<in> set ps \<Longrightarrow> pg_aligned p" "kmem_inv s ps \<Longrightarrow> p \<in> set ps \<Longrightarrow> page_ok s p"
  by (auto simp: kmem_inv_def page_ok_def)

lemma chain_other_page:
  assumes "kmem_inv s ps" "pg_aligned p" "p \<notin> set ps" "\<And>a. \<not> in_page p a \<Longrightarrow> m' a = mem s a"
  shows "chain m' x ps = chain (mem s) x ps"
proof (rule chain_cong)
  fix q a
  assume "q \<in> set ps" "in_page q a"
  then have "pg_aligned q" "p \<noteq> q" using assms by (auto dest: kmem_invD)
  with assms(2) \<open>in_page q a\<close> have "\<not> in_page p a" by (auto dest: in_page_disjoint)
  then show "m' a = mem s a" by (rule assms(4))
qed

lemma kalloc_empty: "kmem_ok s [] \<Longrightarrow> kalloc e s = Ret 0 e (intena_saved s)"
  by (simp add: kalloc_exec kmem_ok_def kmem_inv_def)

text \<open>The states after a successful \<open>kalloc\<close> and \<open>kfree\<close> of page \<open>p\<close>.\<close>

definition taken :: "uint64 \<Rightarrow> 'z kstate_scheme \<Rightarrow> 'z kstate_scheme" where
  "taken p s = (intena_saved s)\<lparr>freelist := load64 (mem s) p,
     mem := memset p 5 (ucast PGSIZE) (mem s)\<rparr>"

definition freed :: "uint64 \<Rightarrow> 'z kstate_scheme \<Rightarrow> 'z kstate_scheme" where
  "freed p s = (intena_saved s)\<lparr>
     mem := store64 p (freelist s) (memset p 1 (ucast PGSIZE) (mem s)), freelist := p\<rparr>"

lemma kalloc_page:
  assumes "kmem_ok s (p # ps)"
  shows "kalloc e s = Ret p e (taken p s)" and "kmem_ok (taken p s) ps"
proof -
  have k: "freelist s = p" "p \<noteq> 0" "lock_free Kmem_lock s" "cpu_ok s" "pg_aligned p" "p \<notin> set ps"
    "chain (mem s) (load64 (mem s) p) ps" "kmem_inv s (p # ps)"
    using assms by (auto simp: kmem_ok_def kmem_inv_def page_ok_def)
  then show "kalloc e s = Ret p e (taken p s)" by (simp add: kalloc_exec Let_def taken_def)
  have inv: "kmem_inv (s\<lparr>freelist := load64 (mem s) p\<rparr>) ps"
    using k(7) assms by (auto simp: kmem_inv_def kmem_ok_def)
  have "chain (memset p 5 (ucast PGSIZE) (mem s)) (load64 (mem s) p) ps"
    using chain_other_page [OF inv k(5,6), of "memset p 5 (ucast PGSIZE) (mem s)"] k(7)
    by (simp add: memset_page)
  with k inv show "kmem_ok (taken p s) ps" by (simp add: kmem_ok_def kmem_inv_def taken_def)
qed

lemma kfree_page:
  assumes "kmem_ok s ps" "page_ok s p" "p \<notin> set ps"
  shows "kfree p e s = Ret () e (freed p s)" and "kmem_ok (freed p s) (p # ps)"
proof -
  have k: "lock_free Kmem_lock s" "cpu_ok s" "kmem_inv s ps" "pg_aligned p"
    using assms by (auto simp: kmem_ok_def page_ok_def)
  then show "kfree p e s = Ret () e (freed p s)" using assms(2) by (simp add: kfree_exec freed_def)
  have "chain (store64 p (freelist s) (memset p 1 (ucast PGSIZE) (mem s))) (freelist s) ps"
    using chain_other_page [OF k(3,4) assms(3),
        of "store64 p (freelist s) (memset p 1 (ucast PGSIZE) (mem s))" "freelist s"] k(3,4)
    by (simp add: store64_outside_page memset_page kmem_inv_def)
  moreover have "p \<noteq> 0" using assms(1,2) by (auto simp: kmem_ok_def kmem_inv_def page_ok_def)
  ultimately show "kmem_ok (freed p s) (p # ps)"
    using k assms by (auto simp: kmem_ok_def kmem_inv_def freed_def)
qed

lemma count_runs_chain: "chain m p ps \<Longrightarrow> count_runs m p n = Some (n + int (length ps))"
  by (induction ps arbitrary: p n) (simp_all add: count_runs.simps)

lemma kfree_bad: "\<not> page_ok s pa \<Longrightarrow> kfree pa e s = Panic ''kfree'' s"
  unfolding kfree_def pg_aligned_def [symmetric] by (auto simp: page_ok_def)


definition kmem0 :: kstate where
  "kmem0 = \<lparr>cur = 0, harts = hart0, cpus = (\<lambda>_. cpu0), locks = (\<lambda>_. spinlock0),
     mem = (\<lambda>_. 0), kend = 0x80021000, freelist = 0\<rparr>"

lemma kmem0_simps:
  "lock_free l kmem0" "cpu_ok kmem0" "freelist kmem0 = 0" "kend kmem0 = 0x80021000" "kmem_ok kmem0 []"
  by (simp_all add: kmem0_def lock_free_def cpu_ok_def spinlock0_def cpu0_def kmem_ok_def kmem_inv_def)

lemma page_ok_kmem0: "page_ok kmem0 0x87fff000"
  by (simp add: page_ok_def kmem0_simps layout_defs pg_aligned_iff)

lemma kmem1_ok: "kmem_ok (freed 0x87fff000 kmem0) [0x87fff000]"
  using kfree_page(2) [OF kmem0_simps(5) page_ok_kmem0] by simp


text \<open>The pages that \<open>freerange\<close> hands to \<open>kfree\<close>, in order.\<close>

definition pages_from :: "uint64 \<Rightarrow> nat \<Rightarrow> uint64 list" where
  "pages_from p n = map (\<lambda>i. p + of_nat i * PGSIZE) [0..<n]"

lemma pages_from_Suc: "pages_from p (Suc n) = p # pages_from (p + PGSIZE) n"
  by (simp add: pages_from_def upt_conv_Cons algebra_simps del: upt_Suc flip: map_Suc_upt)

lemma unat_page_next: "unat p < 2 ^ 63 \<Longrightarrow> unat (p + PGSIZE) = unat p + 4096"
  by (simp add: PGSIZE_def unat_word_ariths)

lemma pg_aligned_next: "unat p < 2 ^ 63 \<Longrightarrow> pg_aligned p \<Longrightarrow> pg_aligned (p + PGSIZE)"
  by (simp add: pg_aligned_iff unat_page_next)

lemma freerange_loop_frees:
  assumes "kmem_ok s ps" "pg_aligned p" "kend s \<le> p" "pa_end \<le> PHYSTOP"
    "unat p + n * 4096 \<le> unat pa_end" "unat pa_end < unat p + n * 4096 + 4096" "n \<le> fuel"
    "\<And>q. q \<in> set ps \<Longrightarrow> q < p"
  shows "\<exists>s'. freerange_loop fuel p pa_end e s = Ret () e s' \<and> kmem_ok s' (rev (pages_from p n) @ ps)"
  using assms
proof (induction n arbitrary: fuel p ps s)
  case 0
  have "unat pa_end < 2 ^ 32" using 0(4) by (simp add: layout_defs word_le_nat_alt)
  with 0 have "unat (p + PGSIZE) = unat p + 4096" by (intro unat_page_next) simp
  with 0 have "\<not> p + PGSIZE \<le> pa_end" by (simp add: word_le_nat_alt)
  then have "freerange_loop fuel p pa_end e s = Ret () e s" by (cases fuel) simp_all
  with 0 show ?case by (simp add: pages_from_def)
next
  case (Suc n)
  then obtain f where fuel: "fuel = Suc f" by (cases fuel) auto
  have "unat pa_end < 2 ^ 32" using Suc(5) by (simp add: layout_defs word_le_nat_alt)
  with Suc have up: "unat (p + PGSIZE) = unat p + 4096" by (intro unat_page_next) simp
  have al: "pg_aligned (p + PGSIZE)" using Suc.prems(2) up by (simp add: pg_aligned_iff)
  from Suc up have le: "p + PGSIZE \<le> pa_end" "p < p + PGSIZE"
    by (simp_all add: word_le_nat_alt word_less_nat_alt)
  with Suc have ok: "page_ok s p" by (auto simp: page_ok_def intro: less_le_trans)
  moreover have "p \<notin> set ps" using Suc.prems(8) [of p] by auto
  ultimately have kfree: "kfree p e s = Ret () e (freed p s)" "kmem_ok (freed p s) (p # ps)"
    by (rule kfree_page [OF Suc.prems(1)])+
  have "\<exists>s'. freerange_loop f (p + PGSIZE) pa_end e (freed p s) = Ret () e s' \<and>
      kmem_ok s' (rev (pages_from (p + PGSIZE) n) @ p # ps)"
    using Suc.prems fuel up le kfree(2) al
    by (intro Suc.IH) (auto simp: freed_def intro: order_trans less_trans)
  then show ?case
    using le(1) kfree(1) by (simp add: fuel pages_from_Suc)
qed

lemma set_pages_from:
  assumes "pg_aligned p" "unat p + n * 4096 = unat q" "unat q < 2 ^ 63"
  shows "set (pages_from p n) = {a. pg_aligned a \<and> p \<le> a \<and> a < q}"
proof (intro set_eqI iffI)
  fix a
  assume "a \<in> set (pages_from p n)"
  then obtain i where i: "i < n" "a = p + of_nat i * PGSIZE" by (auto simp: pages_from_def)
  have "unat p + i * 4096 < 2 ^ 63" using i assms by linarith
  then have "unat a = unat p + i * 4096"
    using i by (simp add: PGSIZE_def unat_word_ariths unat_of_nat take_bit_nat_eq_self)
  then show "a \<in> {a. pg_aligned a \<and> p \<le> a \<and> a < q}"
    using assms i by (simp add: pg_aligned_iff word_le_nat_alt word_less_nat_alt)
next
  fix a
  assume a: "a \<in> {a. pg_aligned a \<and> p \<le> a \<and> a < q}"
  obtain j k where jk: "unat p = 4096 * j" "unat a = 4096 * k"
    using assms(1) a unfolding pg_aligned_iff mem_Collect_eq mod_eq_0_iff_dvd by blast
  define i where "i = k - j"
  from jk a assms have i: "i < n" "unat p + i * 4096 = unat a" "unat p + i * 4096 < 2 ^ 63"
    by (auto simp: word_le_nat_alt word_less_nat_alt i_def)
  then have "unat (p + of_nat i * PGSIZE) = unat p + i * 4096"
    by (simp add: PGSIZE_def unat_word_ariths unat_of_nat take_bit_nat_eq_self)
  then have "a = p + of_nat i * PGSIZE" using i by (simp only: word_unat_eq_iff)
  with i show "a \<in> set (pages_from p n)" by (auto simp: pages_from_def)
qed

text \<open>
  C29. \<open>kinit()\<close> ends with a free list that holds every page-aligned address
  from \<open>end\<close> up to \<open>PHYSTOP\<close> exactly once.
\<close>

theorem kinit_frees:
  assumes "cpu_ok s" "freelist s = 0" "0 < kend s" "kend s \<le> PHYSTOP"
  shows "\<exists>s' ps. kinit e s = Ret () e s' \<and> kmem_ok s' ps \<and> set ps = {p. page_ok s p}"
proof -
  let ?s = "s\<lparr>locks := (locks s)(Kmem_lock := \<lparr>locked = 0, lk_name = ''kmem'', lk_cpu = None\<rparr>)\<rparr>"
  let ?p = "PGROUNDUP (kend s)"
  define n where "n = (unat PHYSTOP - unat ?p) div 4096"
  have P: "unat PHYSTOP = 4096 * 557056" by (simp add: layout_defs)
  have e: "unat (kend s) \<le> unat PHYSTOP" using assms(4) by (simp add: word_le_nat_alt)
  then have up: "unat ?p = (unat (kend s) + 4095) div 4096 * 4096"
    using P by (intro unat_PGROUNDUP) simp
  define q where "q = (unat (kend s) + 4095) div 4096"
  have "q < 557057" unfolding q_def using e P by (subst div_less_iff_less_mult) simp_all
  then have n: "unat ?p + n * 4096 = unat PHYSTOP"
    unfolding n_def up P q_def [symmetric] by simp
  have "kmem_ok ?s []"
    using assms by (simp add: kmem_ok_def kmem_inv_def lock_free_def cpu_ok_def myid_def)
  moreover have "kend s \<le> ?p"
    using PGROUNDUP_least [OF pg_aligned_PGROUNDUP, of "kend s" "kend s"] e P by simp
  ultimately have "\<exists>s'. freerange_loop (unat PHYSTOP div 4096) ?p PHYSTOP e ?s = Ret () e s' \<and>
      kmem_ok s' (rev (pages_from ?p n) @ [])"
    using n P by (intro freerange_loop_frees) simp_all
  then obtain s' where "kinit e s = Ret () e s'" "kmem_ok s' (rev (pages_from ?p n))"
    by (auto simp: kinit_def initlock_exec freerange_def)
  moreover have "set (rev (pages_from ?p n)) = {p. page_ok s p}"
    using set_pages_from [OF pg_aligned_PGROUNDUP n] P PGROUNDUP_least [of _ "kend s"] e
    by (auto simp: page_ok_def)
  ultimately show ?thesis by blast
qed

theorem kinit_frees_witness:
  "\<exists>s' ps. kinit [] kmem0 = Ret () [] s' \<and> kmem_ok s' ps \<and> set ps = {p. page_ok kmem0 p}"
  by (rule kinit_frees) (simp_all add: kmem0_simps layout_defs)

subsection \<open>The allocator as an interface\<close>

text \<open>
  What the rest of the kernel relies on: \<open>ok s ps\<close> says that \<open>ps\<close> are the free
  pages of a consistent allocator, \<open>bytes\<close> is memory, \<open>valid\<close> the pages that may
  be freed.
\<close>

locale page_allocator =
  fixes ok :: "'s \<Rightarrow> uint64 list \<Rightarrow> bool"
    and bytes :: "'s \<Rightarrow> memory"
    and valid :: "'s \<Rightarrow> uint64 \<Rightarrow> bool"
    and alloc :: "('s, uint64) M"
    and free :: "uint64 \<Rightarrow> ('s, unit) M"
  assumes alloc_none: "ok s [] \<Longrightarrow> \<exists>s'. alloc e s = Ret 0 e s' \<and> ok s' [] \<and> bytes s' = bytes s"
    and alloc_some: "ok s (p # ps) \<Longrightarrow> \<exists>s'. alloc e s = Ret p e s' \<and> ok s' ps \<and>
          (\<forall>a. \<not> in_page p a \<longrightarrow> bytes s' a = bytes s a) \<and> (\<forall>q. valid s' q = valid s q)"
    and free_page: "ok s ps \<Longrightarrow> valid s p \<Longrightarrow> p \<notin> set ps \<Longrightarrow> \<exists>s'. free p e s = Ret () e s' \<and>
          ok s' (p # ps) \<and> (\<forall>a. \<not> in_page p a \<longrightarrow> bytes s' a = bytes s a) \<and> (\<forall>q. valid s' q = valid s q)"
    and ok_pages: "ok s ps \<Longrightarrow> distinct ps \<and> (\<forall>p \<in> set ps. p \<noteq> 0 \<and> valid s p)"
begin

text \<open>Allocate and free at once: the free list is as before, and so is memory outside the page.\<close>

lemma alloc_free:
  assumes "ok s (p # ps)"
  shows "\<exists>s'. bind alloc free e s = Ret () e s' \<and> ok s' (p # ps) \<and>
     (\<forall>a. \<not> in_page p a \<longrightarrow> bytes s' a = bytes s a)"
proof -
  obtain s1 where 1: "alloc e s = Ret p e s1" "ok s1 ps"
    "\<forall>a. \<not> in_page p a \<longrightarrow> bytes s1 a = bytes s a" "\<forall>q. valid s1 q = valid s q"
    using alloc_some [OF assms] by blast
  have "valid s1 p" "p \<notin> set ps" using ok_pages [OF assms] 1(4) by auto
  with free_page [OF 1(2)] obtain s2 where "free p e s1 = Ret () e s2" "ok s2 (p # ps)"
    "\<forall>a. \<not> in_page p a \<longrightarrow> bytes s2 a = bytes s1 a" by blast
  with 1 show ?thesis by auto
qed

text \<open>An allocation succeeds exactly when a page is free, and never hands out page 0.\<close>

lemma alloc_result:
  assumes "ok s ps"
  shows "\<exists>r s'. alloc e s = Ret r e s' \<and> (r = 0 \<longleftrightarrow> ps = []) \<and> ok s' (tl ps)"
proof (cases ps)
  case Nil
  with assms alloc_none show ?thesis by fastforce
next
  case (Cons p qs)
  with ok_pages [OF assms] have "p \<noteq> 0" by simp
  with Cons assms alloc_some show ?thesis by fastforce
qed

end

lemma taken_frame [simp]:
  "page_ok (taken p s) q = page_ok s q" "page_ok (freed p s) q = page_ok s q"
  by (simp_all add: taken_def freed_def)

lemma taken_kend [simp]: "kend (taken p s) = kend s" "kend (freed p s) = kend s"
  by (simp_all add: taken_def freed_def)

lemma taken_bytes:
  "\<not> in_page p a \<Longrightarrow> mem (taken p s) a = mem s a"
  "pg_aligned p \<Longrightarrow> \<not> in_page p a \<Longrightarrow> mem (freed p s) a = mem s a"
  by (simp_all add: taken_def freed_def memset_page store64_outside_page)

interpretation kmem: page_allocator kmem_ok mem page_ok kalloc kfree
proof
  fix s :: "'a kstate_scheme" and e
  assume "kmem_ok s []"
  then show "\<exists>s'. kalloc e s = Ret 0 e s' \<and> kmem_ok s' [] \<and> mem s' = mem s"
    by (auto simp: kalloc_empty kmem_ok_def kmem_inv_def)
next
  fix s :: "'a kstate_scheme" and e p ps
  assume "kmem_ok s (p # ps)"
  from kalloc_page [OF this]
  show "\<exists>s'. kalloc e s = Ret p e s' \<and> kmem_ok s' ps \<and>
      (\<forall>a. \<not> in_page p a \<longrightarrow> mem s' a = mem s a) \<and> (\<forall>q. page_ok s' q = page_ok s q)"
    by (auto simp: taken_bytes)
next
  fix s :: "'a kstate_scheme" and e p ps
  assume "kmem_ok s ps" "page_ok s p" "p \<notin> set ps"
  from kfree_page [OF this] \<open>page_ok s p\<close>
  show "\<exists>s'. kfree p e s = Ret () e s' \<and> kmem_ok s' (p # ps) \<and>
      (\<forall>a. \<not> in_page p a \<longrightarrow> mem s' a = mem s a) \<and> (\<forall>q. page_ok s' q = page_ok s q)"
    by (auto simp: taken_bytes page_ok_def)
next
  fix s :: "'a kstate_scheme" and ps
  assume "kmem_ok s ps"
  then show "distinct ps \<and> (\<forall>p \<in> set ps. p \<noteq> 0 \<and> page_ok s p)"
    by (auto simp: kmem_ok_def kmem_inv_def page_ok_def)
qed

subsection \<open>Properties\<close>

text \<open>
  C15. \<open>kalloc()\<close> takes the first page of the free list, fills it with the byte 5,
  keeps the rest of the list and every byte outside the page; with nothing free it
  returns 0 and changes nothing.
\<close>

theorem kalloc_spec:
  assumes "kmem_ok s ps"
  shows "(ps = [] \<longrightarrow> kalloc e s = Ret 0 e (intena_saved s)) \<and>
     (\<forall>p qs. ps = p # qs \<longrightarrow> (\<exists>s'. kalloc e s = Ret p e s' \<and> p \<noteq> 0 \<and> page_ok s p \<and> kmem_ok s' qs \<and>
        (\<forall>a. mem s' a = (if in_page p a then 5 else mem s a))))"
proof (intro conjI allI impI)
  assume "ps = []"
  with assms show "kalloc e s = Ret 0 e (intena_saved s)" by (simp add: kalloc_empty)
next
  fix p qs
  assume ps: "ps = p # qs"
  with assms have ok: "kmem_ok s (p # qs)" by simp
  have "\<forall>a. mem (taken p s) a = (if in_page p a then 5 else mem s a)"
    by (simp add: taken_def memset_page)
  with kalloc_page [OF ok] kmem.ok_pages [OF ok]
  show "\<exists>s'. kalloc e s = Ret p e s' \<and> p \<noteq> 0 \<and> page_ok s p \<and> kmem_ok s' qs \<and>
        (\<forall>a. mem s' a = (if in_page p a then 5 else mem s a))" by auto
qed

theorem kalloc_spec_witness:
  "\<exists>s'. kalloc [] (freed 0x87fff000 kmem0) = Ret 0x87fff000 [] s' \<and> kmem_ok s' [] \<and> mem s' 0x87fff123 = 5"
proof -
  have "in_page 0x87fff000 0x87fff123" by (simp add: in_page_def)
  with kalloc_spec [OF kmem1_ok, of "[]"] show ?thesis by auto
qed

text \<open>
  C16. \<open>kfree(pa)\<close> panics on an address that is not a page of \<open>end..PHYSTOP\<close>;
  otherwise it puts the page in front of the free list and changes no byte outside it.
\<close>

theorem kfree_spec:
  assumes "kmem_ok s ps" "p \<notin> set ps"
  shows "if page_ok s p
     then \<exists>s'. kfree p e s = Ret () e s' \<and> kmem_ok s' (p # ps) \<and> (\<forall>a. \<not> in_page p a \<longrightarrow> mem s' a = mem s a)
     else kfree p e s = Panic ''kfree'' s"
proof (cases "page_ok s p")
  case True
  with kmem.free_page [OF assms(1) True assms(2), of e] show ?thesis by auto
qed (simp add: kfree_bad)

theorem kfree_spec_witness:
  "(\<exists>s'. kfree 0x87ffe000 [] (freed 0x87fff000 kmem0) = Ret () [] s' \<and>
      kmem_ok s' [0x87ffe000, 0x87fff000]) \<and>
   kfree 0x87ffe008 [] (freed 0x87fff000 kmem0) = Panic ''kfree'' (freed 0x87fff000 kmem0)"
proof -
  have "page_ok (freed 0x87fff000 kmem0) 0x87ffe000" "\<not> page_ok (freed 0x87fff000 kmem0) 0x87ffe008"
    by (simp_all add: page_ok_def kmem0_simps layout_defs pg_aligned_iff)
  with kfree_spec [OF kmem1_ok, of "0x87ffe000" "[]"] kfree_spec [OF kmem1_ok, of "0x87ffe008" "[]"]
  show ?thesis by auto
qed

text \<open>
  C27. A page taken from the allocator and given back at once leaves the free list
  as it was, and memory outside the page too.
\<close>

theorem kalloc_kfree_roundtrip:
  assumes "kmem_ok s (p # ps)"
  shows "\<exists>s'. bind kalloc kfree e s = Ret () e s' \<and> kmem_ok s' (p # ps) \<and>
     (\<forall>a. \<not> in_page p a \<longrightarrow> mem s' a = mem s a)"
  by (rule kmem.alloc_free [OF assms])

theorem kalloc_kfree_roundtrip_witness:
  "\<exists>s'. bind kalloc kfree [] (freed 0x87fff000 kmem0) = Ret () [] s' \<and> kmem_ok s' [0x87fff000]"
  using kalloc_kfree_roundtrip [OF kmem1_ok, of "[]"] by blast

end
