(* ===== verification/Vm.thy ===== *)
theory Vm
  imports Kalloc
begin

unbundle bit_operations_syntax

section \<open>Virtual memory: \<open>kernel/vm.c\<close>\<close>

text \<open>
  All functions of \<open>vm.c\<close>, and \<open>proc_mapstacks\<close> of \<open>proc.c\<close> which \<open>kvmmake\<close> calls.
  Page tables are what they are in the source: pages of 512 eight-byte entries in
  memory, addressed by their physical address; a null \<open>pte_t *\<close> is address 0. The
  state gains the kernel page table and the linker symbols \<open>etext\<close> and
  \<open>trampoline\<close>.

  Loops over a range of pages get as many rounds as the range has pages, and
  \<open>Diverge\<close> stands for a loop that would go on after that; \<open>copyin\<close>, \<open>copyout\<close> and
  \<open>copyinstr\<close> are total, their remaining length decreases. The recursion of
  \<open>freewalk\<close> is cut at depth 64; page tables have depth 3.
\<close>

subsection \<open>State\<close>

record vmstate = kstate +
  kernel_pagetable :: uint64
  etext :: uint64
  trampoline :: uint64

definition load :: "uint64 \<Rightarrow> ('z kstate_scheme, uint64) M" where
  "load a = gets (\<lambda>s. load64 (mem s) a)"

definition store :: "uint64 \<Rightarrow> uint64 \<Rightarrow> ('z kstate_scheme, unit) M" where
  "store a v = modify (\<lambda>s. s\<lparr>mem := store64 a v (mem s)\<rparr>)"

definition upd_mem :: "(memory \<Rightarrow> memory) \<Rightarrow> ('z kstate_scheme, unit) M" where
  "upd_mem f = modify (\<lambda>s. s\<lparr>mem := f (mem s)\<rparr>)"

subsection \<open>Page tables\<close>

text \<open>\<open>&pagetable[i]\<close>.\<close>

definition pte_addr :: "uint64 \<Rightarrow> uint64 \<Rightarrow> uint64" where
  "pte_addr pagetable i = pagetable + 8 * i"

definition valid_pte :: "uint64 \<Rightarrow> bool" where
  "valid_pte pte \<longleftrightarrow> pte AND PTE_V \<noteq> 0"

text \<open>The loop of \<open>walk\<close> from \<open>level\<close> down to level 1.\<close>

primrec walk_loop :: "nat \<Rightarrow> uint64 \<Rightarrow> uint64 \<Rightarrow> bool \<Rightarrow> ('z kstate_scheme, uint64) M" where
  "walk_loop 0 pagetable va alloc = return (pte_addr pagetable (PX 0 va))"
| "walk_loop (Suc l) pagetable va alloc =
     (let pte = pte_addr pagetable (PX (Suc l) va) in
     bind (load pte) (\<lambda>v.
     if valid_pte v then walk_loop l (PTE2PA v) va alloc
     else if \<not> alloc then return 0
     else bind kalloc (\<lambda>pagetable'.
     if pagetable' = 0 then return 0 else
     bind (upd_mem (memset pagetable' 0 (ucast PGSIZE))) (\<lambda>_.
     bind (store pte (PA2PTE pagetable' OR PTE_V)) (\<lambda>_.
     walk_loop l pagetable' va alloc)))))"

definition walk :: "uint64 \<Rightarrow> uint64 \<Rightarrow> bool \<Rightarrow> ('z kstate_scheme, uint64) M" where
  "walk pagetable va alloc =
     (if va \<ge> MAXVA then panic ''walk'' else walk_loop 2 pagetable va alloc)"

definition walkaddr :: "uint64 \<Rightarrow> uint64 \<Rightarrow> ('z kstate_scheme, uint64) M" where
  "walkaddr pagetable va =
     (if va \<ge> MAXVA then return 0 else
     bind (walk pagetable va False) (\<lambda>pte.
     if pte = 0 then return 0 else
     bind (load pte) (\<lambda>v.
     if v AND PTE_V = 0 then return 0 else
     if v AND PTE_U = 0 then return 0 else
     return (PTE2PA v))))"

primrec mappages_loop ::
  "nat \<Rightarrow> uint64 \<Rightarrow> uint64 \<Rightarrow> uint64 \<Rightarrow> uint64 \<Rightarrow> uint64 \<Rightarrow> ('z kstate_scheme, int) M" where
  "mappages_loop 0 pagetable a last' pa perm = diverge"
| "mappages_loop (Suc n) pagetable a last' pa perm =
     bind (walk pagetable a True) (\<lambda>pte.
     if pte = 0 then return (- 1) else
     bind (load pte) (\<lambda>v.
     if valid_pte v then panic ''mappages: remap'' else
     bind (store pte (PA2PTE pa OR perm OR PTE_V)) (\<lambda>_.
     if a = last' then return 0
     else mappages_loop n pagetable (a + PGSIZE) last' (pa + PGSIZE) perm)))"

definition mappages :: "uint64 \<Rightarrow> uint64 \<Rightarrow> uint64 \<Rightarrow> uint64 \<Rightarrow> uint64 \<Rightarrow> ('z kstate_scheme, int) M" where
  "mappages pagetable va sz pa perm =
     (if sz = 0 then panic ''mappages: size'' else
     let a = PGROUNDDOWN va; last' = PGROUNDDOWN (va + sz - 1)
     in mappages_loop (unat (last' - a) div 4096 + 1) pagetable a last' pa perm)"

definition kvmmap :: "uint64 \<Rightarrow> uint64 \<Rightarrow> uint64 \<Rightarrow> uint64 \<Rightarrow> uint64 \<Rightarrow> ('z kstate_scheme, unit) M" where
  "kvmmap kpgtbl va pa sz perm =
     bind (mappages kpgtbl va sz pa perm) (\<lambda>r. if r \<noteq> 0 then panic ''kvmmap'' else return ())"

definition proc_mapstacks :: "uint64 \<Rightarrow> ('z kstate_scheme, unit) M" where
  "proc_mapstacks kpgtbl = for_each [0..<NPROC] (\<lambda>i.
     bind kalloc (\<lambda>pa.
     if pa = 0 then panic ''kalloc'' else
     let va = KSTACK (of_nat i) in
     kvmmap kpgtbl va pa PGSIZE (PTE_R OR PTE_W)))"

definition kvmmake :: "('z vmstate_scheme, uint64) M" where
  "kvmmake =
     bind kalloc (\<lambda>kpgtbl.
     bind (upd_mem (memset kpgtbl 0 (ucast PGSIZE))) (\<lambda>_.
     bind (kvmmap kpgtbl UART0 UART0 PGSIZE (PTE_R OR PTE_W)) (\<lambda>_.
     bind (kvmmap kpgtbl VIRTIO0 VIRTIO0 PGSIZE (PTE_R OR PTE_W)) (\<lambda>_.
     bind (kvmmap kpgtbl PLIC PLIC 0x400000 (PTE_R OR PTE_W)) (\<lambda>_.
     bind (gets etext) (\<lambda>et.
     bind (kvmmap kpgtbl KERNBASE KERNBASE (et - KERNBASE) (PTE_R OR PTE_X)) (\<lambda>_.
     bind (kvmmap kpgtbl et et (PHYSTOP - et) (PTE_R OR PTE_W)) (\<lambda>_.
     bind (gets trampoline) (\<lambda>tr.
     bind (kvmmap kpgtbl TRAMPOLINE tr PGSIZE (PTE_R OR PTE_X)) (\<lambda>_.
     bind (proc_mapstacks kpgtbl) (\<lambda>_.
     return kpgtbl)))))))))))"

definition kvminit :: "('z vmstate_scheme, unit) M" where
  "kvminit = bind kvmmake (\<lambda>k. modify (\<lambda>s. s\<lparr>kernel_pagetable := k\<rparr>))"

definition kvminithart :: "('z vmstate_scheme, unit) M" where
  "kvminithart =
     bind (gets kernel_pagetable) (\<lambda>k.
     bind (upd_hart (w_satp (MAKE_SATP k))) (\<lambda>_.
     upd_hart sfence_vma))"

subsection \<open>User page tables\<close>

primrec uvmunmap_loop :: "nat \<Rightarrow> uint64 \<Rightarrow> uint64 \<Rightarrow> uint64 \<Rightarrow> bool \<Rightarrow> ('z kstate_scheme, unit) M" where
  "uvmunmap_loop 0 pagetable a lim do_free = (if a < lim then diverge else return ())"
| "uvmunmap_loop (Suc n) pagetable a lim do_free =
     (if a < lim then
        bind (walk pagetable a False) (\<lambda>pte.
        if pte = 0 then panic ''uvmunmap: walk'' else
        bind (load pte) (\<lambda>v.
        if v AND PTE_V = 0 then panic ''uvmunmap: not mapped'' else
        if PTE_FLAGS v = PTE_V then panic ''uvmunmap: not a leaf'' else
        bind (whenM do_free (kfree (PTE2PA v))) (\<lambda>_.
        bind (store pte 0) (\<lambda>_.
        uvmunmap_loop n pagetable (a + PGSIZE) lim do_free))))
      else return ())"

definition uvmunmap :: "uint64 \<Rightarrow> uint64 \<Rightarrow> uint64 \<Rightarrow> bool \<Rightarrow> ('z kstate_scheme, unit) M" where
  "uvmunmap pagetable va npages do_free =
     (if va mod PGSIZE \<noteq> 0 then panic ''uvmunmap: not aligned''
      else uvmunmap_loop (unat (npages * PGSIZE) div 4096) pagetable va (va + npages * PGSIZE) do_free)"

definition uvmcreate :: "('z kstate_scheme, uint64) M" where
  "uvmcreate =
     bind kalloc (\<lambda>pagetable.
     if pagetable = 0 then return 0 else
     bind (upd_mem (memset pagetable 0 (ucast PGSIZE))) (\<lambda>_.
     return pagetable))"

text \<open>\<open>src\<close> is the byte array in the kernel's data segment, given by its contents.\<close>

definition uvminit :: "uint64 \<Rightarrow> uint8 list \<Rightarrow> uint32 \<Rightarrow> ('z kstate_scheme, unit) M" where
  "uvminit pagetable src sz =
     (if sz \<ge> ucast PGSIZE then panic ''inituvm: more than a page'' else
     bind kalloc (\<lambda>m.
     bind (upd_mem (memset m 0 (ucast PGSIZE))) (\<lambda>_.
     bind (mappages pagetable 0 PGSIZE m (PTE_W OR PTE_R OR PTE_X OR PTE_U)) (\<lambda>_.
     upd_mem (put_bytes m (take (unat sz) src))))))"

definition uvmdealloc :: "uint64 \<Rightarrow> uint64 \<Rightarrow> uint64 \<Rightarrow> ('z kstate_scheme, uint64) M" where
  "uvmdealloc pagetable oldsz newsz =
     (if newsz \<ge> oldsz then return oldsz else
     bind (whenM (PGROUNDUP newsz < PGROUNDUP oldsz)
            (let npages = ucast ((PGROUNDUP oldsz - PGROUNDUP newsz) div PGSIZE) :: uint32
             in uvmunmap pagetable (PGROUNDUP newsz) (scast npages) True)) (\<lambda>_.
     return newsz))"

primrec uvmalloc_loop :: "nat \<Rightarrow> uint64 \<Rightarrow> uint64 \<Rightarrow> uint64 \<Rightarrow> uint64 \<Rightarrow> ('z kstate_scheme, uint64) M" where
  "uvmalloc_loop 0 pagetable oldsz a newsz = (if a < newsz then diverge else return newsz)"
| "uvmalloc_loop (Suc n) pagetable oldsz a newsz =
     (if a < newsz then
        bind kalloc (\<lambda>m.
        if m = 0 then bind (uvmdealloc pagetable a oldsz) (\<lambda>_. return 0) else
        bind (upd_mem (memset m 0 (ucast PGSIZE))) (\<lambda>_.
        bind (mappages pagetable a PGSIZE m (PTE_W OR PTE_X OR PTE_R OR PTE_U)) (\<lambda>r.
        if r \<noteq> 0 then
          bind (kfree m) (\<lambda>_.
          bind (uvmdealloc pagetable a oldsz) (\<lambda>_.
          return 0))
        else uvmalloc_loop n pagetable oldsz (a + PGSIZE) newsz)))
      else return newsz)"

definition uvmalloc :: "uint64 \<Rightarrow> uint64 \<Rightarrow> uint64 \<Rightarrow> ('z kstate_scheme, uint64) M" where
  "uvmalloc pagetable oldsz newsz =
     (if newsz < oldsz then return oldsz else
     let oldsz = PGROUNDUP oldsz
     in uvmalloc_loop (unat newsz div 4096 + 1) pagetable oldsz oldsz newsz)"

primrec freewalk_depth :: "nat \<Rightarrow> uint64 \<Rightarrow> ('z kstate_scheme, unit) M" where
  "freewalk_depth 0 pagetable = diverge"
| "freewalk_depth (Suc d) pagetable =
     bind (for_each [0..<512] (\<lambda>i.
       bind (load (pte_addr pagetable (of_nat i))) (\<lambda>pte.
       if pte AND PTE_V \<noteq> 0 \<and> pte AND (PTE_R OR PTE_W OR PTE_X) = 0 then
         bind (freewalk_depth d (PTE2PA pte)) (\<lambda>_.
         store (pte_addr pagetable (of_nat i)) 0)
       else if pte AND PTE_V \<noteq> 0 then panic ''freewalk: leaf''
       else return ()))) (\<lambda>_.
     kfree pagetable)"

definition freewalk :: "uint64 \<Rightarrow> ('z kstate_scheme, unit) M" where
  "freewalk pagetable = freewalk_depth 64 pagetable"

definition uvmfree :: "uint64 \<Rightarrow> uint64 \<Rightarrow> ('z kstate_scheme, unit) M" where
  "uvmfree pagetable sz =
     bind (whenM (sz > 0) (uvmunmap pagetable 0 (PGROUNDUP sz div PGSIZE) True)) (\<lambda>_.
     freewalk pagetable)"

primrec uvmcopy_loop :: "nat \<Rightarrow> uint64 \<Rightarrow> uint64 \<Rightarrow> uint64 \<Rightarrow> uint64 \<Rightarrow> ('z kstate_scheme, int) M" where
  "uvmcopy_loop 0 old new i sz = (if i < sz then diverge else return 0)"
| "uvmcopy_loop (Suc n) old new i sz =
     (if i < sz then
        bind (walk old i False) (\<lambda>pte.
        if pte = 0 then panic ''uvmcopy: pte should exist'' else
        bind (load pte) (\<lambda>v.
        if v AND PTE_V = 0 then panic ''uvmcopy: page not present'' else
        let pa = PTE2PA v; flags = PTE_FLAGS v;
            err = bind (uvmunmap new 0 (i div PGSIZE) True) (\<lambda>_. return (- 1))
        in bind kalloc (\<lambda>m.
        if m = 0 then err else
        bind (upd_mem (memmove m pa (ucast PGSIZE))) (\<lambda>_.
        bind (mappages new i PGSIZE m flags) (\<lambda>r.
        if r \<noteq> 0 then bind (kfree m) (\<lambda>_. err)
        else uvmcopy_loop n old new (i + PGSIZE) sz)))))
      else return 0)"

definition uvmcopy :: "uint64 \<Rightarrow> uint64 \<Rightarrow> uint64 \<Rightarrow> ('z kstate_scheme, int) M" where
  "uvmcopy old new sz = uvmcopy_loop (unat sz div 4096 + 1) old new 0 sz"

definition uvmclear :: "uint64 \<Rightarrow> uint64 \<Rightarrow> ('z kstate_scheme, unit) M" where
  "uvmclear pagetable va =
     bind (walk pagetable va False) (\<lambda>pte.
     if pte = 0 then panic ''uvmclear'' else
     bind (load pte) (\<lambda>v.
     store pte (v AND NOT PTE_U)))"

subsection \<open>Copying between kernel and user space\<close>

text \<open>\<open>n = PGSIZE - (dstva - va0); if(n > len) n = len;\<close>\<close>

definition chunk :: "uint64 \<Rightarrow> uint64 \<Rightarrow> uint64" where
  "chunk va len = (let n = PGSIZE - (va - PGROUNDDOWN va) in if n > len then len else n)"

lemma unat_chunk: "unat (chunk va len) = min (4096 - unat va mod 4096) (unat len)"
proof -
  have "unat (PGSIZE - (va - PGROUNDDOWN va)) = 4096 - unat va mod 4096"
    by (subst unat_sub) (simp_all add: word_le_nat_alt unat_page_offset less_imp_le)
  then show ?thesis by (simp add: chunk_def Let_def word_less_nat_alt min_def)
qed

lemma chunk_le: "chunk va len \<le> len"
  by (simp add: word_le_nat_alt unat_chunk)

lemma chunk_pos: "len > 0 \<Longrightarrow> 0 < unat (chunk va len)"
proof -
  assume "len > 0"
  moreover have "unat va mod 4096 < 4096" by simp
  ultimately show ?thesis by (simp add: unat_chunk word_less_nat_alt)
qed

lemma chunk_decreases: "len > 0 \<Longrightarrow> unat (len - chunk va len) < unat len"
  using chunk_le [of va len] chunk_pos [of len va] by (simp add: unat_sub word_le_nat_alt)

function copyout :: "uint64 \<Rightarrow> uint64 \<Rightarrow> uint64 \<Rightarrow> uint64 \<Rightarrow> ('z kstate_scheme, int) M" where
  "copyout pagetable dstva src len =
     (if len > 0 then
        let va0 = PGROUNDDOWN dstva in
        bind (walkaddr pagetable va0) (\<lambda>pa0.
        if pa0 = 0 then return (- 1) else
        let n = chunk dstva len in
        bind (upd_mem (memmove (pa0 + (dstva - va0)) src (ucast n))) (\<lambda>_.
        copyout pagetable (va0 + PGSIZE) (src + n) (len - n)))
      else return 0)"
  by pat_completeness auto
termination
  by (relation "measure (\<lambda>(_, _, _, len). unat len)") (auto simp: chunk_decreases)

declare copyout.simps [simp del]

function copyin :: "uint64 \<Rightarrow> uint64 \<Rightarrow> uint64 \<Rightarrow> uint64 \<Rightarrow> ('z kstate_scheme, int) M" where
  "copyin pagetable dst srcva len =
     (if len > 0 then
        let va0 = PGROUNDDOWN srcva in
        bind (walkaddr pagetable va0) (\<lambda>pa0.
        if pa0 = 0 then return (- 1) else
        let n = chunk srcva len in
        bind (upd_mem (memmove dst (pa0 + (srcva - va0)) (ucast n))) (\<lambda>_.
        copyin pagetable (dst + n) (va0 + PGSIZE) (len - n)))
      else return 0)"
  by pat_completeness auto
termination
  by (relation "measure (\<lambda>(_, _, _, len). unat len)") (auto simp: chunk_decreases)

declare copyin.simps [simp del]

text \<open>
  The inner loop of \<open>copyinstr\<close>: memory after the copy, and \<open>Some\<close> when a nul was
  found.
\<close>

primrec copystr_page :: "nat \<Rightarrow> uint64 \<Rightarrow> uint64 \<Rightarrow> memory \<Rightarrow> bool \<times> memory" where
  "copystr_page 0 p dst m = (False, m)"
| "copystr_page (Suc n) p dst m =
     (if m p = 0 then (True, m(dst := 0))
      else copystr_page n (p + 1) (dst + 1) (m(dst := m p)))"

function copyinstr :: "uint64 \<Rightarrow> uint64 \<Rightarrow> uint64 \<Rightarrow> uint64 \<Rightarrow> ('z kstate_scheme, int) M" where
  "copyinstr pagetable dst srcva mx =
     (if mx > 0 then
        let va0 = PGROUNDDOWN srcva in
        bind (walkaddr pagetable va0) (\<lambda>pa0.
        if pa0 = 0 then return (- 1) else
        let n = chunk srcva mx in
        bind (gets (\<lambda>s. copystr_page (unat n) (pa0 + (srcva - va0)) dst (mem s))) (\<lambda>(got_null, m).
        bind (upd_mem (\<lambda>_. m)) (\<lambda>_.
        if got_null then return 0
        else copyinstr pagetable (dst + n) (va0 + PGSIZE) (mx - n))))
      else return (- 1))"
  by pat_completeness auto
termination
  by (relation "measure (\<lambda>(_, _, _, len). unat len)") (auto simp: chunk_decreases)

declare copyinstr.simps [simp del]

text \<open>
  The same transfers when the kernel side is an object that the model keeps outside
  byte memory (a field of a struct, a local variable, the data of a disk block): its
  bytes are a list, and a transfer into it returns the bytes that were written.
\<close>

definition nchunk :: "uint64 \<Rightarrow> nat \<Rightarrow> nat" where
  "nchunk va len = min (4096 - unat (va - PGROUNDDOWN va)) len"

lemma nchunk_pos: "0 < len \<Longrightarrow> 0 < nchunk va len"
  by (simp add: nchunk_def unat_page_offset)

lemma nchunk_le: "nchunk va len \<le> len"
  by (simp add: nchunk_def)

function copyout_obj :: "uint64 \<Rightarrow> uint64 \<Rightarrow> uint8 list \<Rightarrow> ('z kstate_scheme, int) M" where
  "copyout_obj pagetable dstva src =
     (if src \<noteq> [] then
        let va0 = PGROUNDDOWN dstva in
        bind (walkaddr pagetable va0) (\<lambda>pa0.
        if pa0 = 0 then return (- 1) else
        let n = nchunk dstva (length src) in
        bind (upd_mem (put_bytes (pa0 + (dstva - va0)) (take n src))) (\<lambda>_.
        copyout_obj pagetable (va0 + PGSIZE) (drop n src)))
      else return 0)"
  by pat_completeness auto
termination
  by (relation "measure (\<lambda>(_, _, src). length src)") (auto simp: nchunk_pos)

declare copyout_obj.simps [simp del]

function copyin_obj :: "uint64 \<Rightarrow> uint8 list \<Rightarrow> uint64 \<Rightarrow> nat \<Rightarrow> ('z kstate_scheme, int \<times> uint8 list) M" where
  "copyin_obj pagetable dst srcva len =
     (if len > 0 then
        let va0 = PGROUNDDOWN srcva in
        bind (walkaddr pagetable va0) (\<lambda>pa0.
        if pa0 = 0 then return (- 1, dst) else
        let n = nchunk srcva len in
        bind (gets (\<lambda>s. bytes_at (mem s) (pa0 + (srcva - va0)) n)) (\<lambda>bs.
        copyin_obj pagetable (dst @ bs) (va0 + PGSIZE) (len - n)))
      else return (0, dst))"
  by pat_completeness auto
termination
  by (relation "measure (\<lambda>(_, _, _, len). len)") (auto simp: nchunk_pos)

declare copyin_obj.simps [simp del]

function copyinstr_obj :: "uint64 \<Rightarrow> uint8 list \<Rightarrow> uint64 \<Rightarrow> nat \<Rightarrow> ('z kstate_scheme, int \<times> uint8 list) M" where
  "copyinstr_obj pagetable dst srcva mx =
     (if mx > 0 then
        let va0 = PGROUNDDOWN srcva in
        bind (walkaddr pagetable va0) (\<lambda>pa0.
        if pa0 = 0 then return (- 1, dst) else
        let n = nchunk srcva mx in
        bind (gets (\<lambda>s. bytes_at (mem s) (pa0 + (srcva - va0)) n)) (\<lambda>bs.
        let str = takeWhile (\<lambda>c. c \<noteq> 0) bs in
        if length str < n then return (0, dst @ str @ [0])
        else copyinstr_obj pagetable (dst @ bs) (va0 + PGSIZE) (mx - n)))
      else return (- 1, dst))"
  by pat_completeness auto
termination
  by (relation "measure (\<lambda>(_, _, _, len). len)") (auto simp: nchunk_pos)

declare copyinstr_obj.simps [simp del]

end
