(* ===== verification/Pagetable.thy ===== *)
theory Pagetable
  imports Vm "HOL-Library.Sublist"
begin

unbundle bit_operations_syntax

section \<open>Page tables as trees, and what the operations of \<open>vm.c\<close> do to them\<close>

text \<open>
  The abstract view of a page table: the tables reachable from its root along
  index paths (\<open>node\<close>), and the leaf entry of a virtual address (\<open>leaf\<close>). A table
  is well-formed (\<open>pt_wf\<close>) when no page is reached along two paths. \<open>vm_step\<close> is what
  an operation may do: move pages between the free list and the tree without
  losing any, and touch no byte outside them.
\<close>

subsection \<open>Page tables as trees\<close>

lemma slot_in_page:
  assumes "unat i < 512" "k < 8"
  shows "unat (pte_addr t i + of_nat k - t) = 8 * unat i + k"
proof -
  have "unat (8 * i + of_nat k) = 8 * unat i + k"
    using assms by (simp add: unat_word_ariths unat_of_nat take_bit_nat_eq_self)
  then show ?thesis by (simp add: pte_addr_def)
qed

lemma slot_page: "pg_aligned t \<Longrightarrow> unat i < 512 \<Longrightarrow> k < 8 \<Longrightarrow> in_page t (pte_addr t i + of_nat k)"
  by (simp add: in_page_def slot_in_page)

lemma slot_disjoint:
  assumes "pg_aligned t" "pg_aligned u" "unat i < 512" "unat j < 512" "(t, i) \<noteq> (u, j)" "k < 8"
  shows "\<not> unat (pte_addr u j + of_nat k - pte_addr t i) < 8"
proof
  define y where "y = unat (pte_addr u j + of_nat k - pte_addr t i)"
  assume "unat (pte_addr u j + of_nat k - pte_addr t i) < 8"
  then have y: "y < 8" "pte_addr u j + of_nat k = pte_addr t i + of_nat y" by (simp_all add: y_def)
  have "in_page t (pte_addr t i + of_nat y)" "in_page u (pte_addr t i + of_nat y)"
    using slot_page [OF assms(1,3) y(1)] slot_page [OF assms(2,4,6)] y(2) by simp_all
  then have tu: "t = u" using assms(1,2) by (simp add: in_page_iff)
  then have "8 * unat i + y = 8 * unat j + k"
    using slot_in_page [OF assms(3) y(1), of t] slot_in_page [OF assms(4,6), of u] y(2) by simp
  with y assms(6) have "unat i = unat j" by linarith
  then have "i = j" by (simp add: word_unat_eq_iff)
  with tu assms(5) show False by simp
qed

lemma load_store_slot:
  assumes "pg_aligned t" "pg_aligned u" "unat i < 512" "unat j < 512"
  shows "load64 (store64 (pte_addr t i) v m) (pte_addr u j) =
     (if t = u \<and> i = j then v else load64 m (pte_addr u j))"
proof (cases "t = u \<and> i = j")
  case False
  then have "(t, i) \<noteq> (u, j)" by simp
  note d = slot_disjoint [OF assms this]
  have "load64 (store64 (pte_addr t i) v m) (pte_addr u j) = load64 m (pte_addr u j)"
    by (rule load64_cong) (simp add: store64_def put_bytes_def d)
  with False show ?thesis by auto
qed simp

lemma store_slot_outside:
  assumes "pg_aligned t" "unat i < 512" "\<not> in_page t a"
  shows "store64 (pte_addr t i) v m a = m a"
proof -
  have "\<not> unat (a - pte_addr t i) < 8"
  proof
    assume "unat (a - pte_addr t i) < 8"
    with slot_page [OF assms(1,2) this] have "in_page t a" by simp
    with assms(3) show False ..
  qed
  then show ?thesis by (simp add: store64_def put_bytes_def)
qed

lemma load_slot_cong:
  assumes "pg_aligned t" "unat i < 512" "\<And>a. in_page t a \<Longrightarrow> m a = m' a"
  shows "load64 m (pte_addr t i) = load64 m' (pte_addr t i)"
  by (rule load64_cong) (simp add: assms slot_page)

text \<open>
  The table reached from the root along a list of indices. A path of length two
  leads to a table of leaf entries.
\<close>

fun node :: "memory \<Rightarrow> uint64 \<Rightarrow> uint64 list \<Rightarrow> uint64 option" where
  "node m t [] = Some t"
| "node m t (i # is) = (let v = load64 m (pte_addr t i) in
     if valid_pte v then node m (PTE2PA v) is else None)"

definition entry :: "memory \<Rightarrow> uint64 \<Rightarrow> uint64 \<Rightarrow> uint64 option" where
  "entry m t i = (let v = load64 m (pte_addr t i) in if valid_pte v then Some (PTE2PA v) else None)"

lemma node_snoc:
  "node m t (p @ [i]) = (case node m t p of None \<Rightarrow> None | Some u \<Rightarrow> entry m u i)"
  by (induction p arbitrary: t) (simp_all add: Let_def entry_def)

definition pt_path :: "uint64 list \<Rightarrow> bool" where
  "pt_path p \<longleftrightarrow> length p \<le> 2 \<and> (\<forall>i \<in> set p. unat i < 512)"

lemma pt_path_snoc: "pt_path (p @ [i]) \<longleftrightarrow> length p \<le> 1 \<and> pt_path p \<and> unat i < 512"
  by (auto simp: pt_path_def)

lemma pt_path_Nil [simp]: "pt_path []"
  by (simp add: pt_path_def)

definition pt_pages :: "memory \<Rightarrow> uint64 \<Rightarrow> uint64 set" where
  "pt_pages m pt = {t. \<exists>p. pt_path p \<and> node m pt p = Some t}"

definition pt_wf :: "memory \<Rightarrow> uint64 \<Rightarrow> bool" where
  "pt_wf m pt \<longleftrightarrow> (\<forall>p q t. pt_path p \<longrightarrow> pt_path q \<longrightarrow> node m pt p = Some t \<longrightarrow>
     node m pt q = Some t \<longrightarrow> p = q) \<and> (\<forall>t \<in> pt_pages m pt. pg_aligned t)"

lemma pt_pagesI: "pt_path p \<Longrightarrow> node m pt p = Some t \<Longrightarrow> t \<in> pt_pages m pt"
  by (auto simp: pt_pages_def)

lemma pt_wf_inj:
  "pt_wf m pt \<Longrightarrow> pt_path p \<Longrightarrow> pt_path q \<Longrightarrow> node m pt p = Some t \<Longrightarrow> node m pt q = Some t \<Longrightarrow> p = q"
  by (auto simp: pt_wf_def)

lemma pt_wf_aligned: "pt_wf m pt \<Longrightarrow> pt_path p \<Longrightarrow> node m pt p = Some t \<Longrightarrow> pg_aligned t"
  by (auto simp: pt_wf_def intro: pt_pagesI)

text \<open>Memory outside the tables does not matter.\<close>

lemma node_cong:
  assumes "pt_wf m pt" "\<And>t a. t \<in> pt_pages m pt \<Longrightarrow> in_page t a \<Longrightarrow> m a = m' a"
  shows "pt_path p \<Longrightarrow> node m' pt p = node m pt p"
proof (induction p rule: rev_induct)
  case (snoc i p)
  then have p: "pt_path p" "unat i < 512" and IH: "node m' pt p = node m pt p"
    by (simp_all add: pt_path_snoc)
  show ?case
  proof (cases "node m pt p")
    case (Some t)
    then have "pg_aligned t" "t \<in> pt_pages m pt"
      using assms(1) p by (auto intro: pt_wf_aligned pt_pagesI)
    then have "load64 m (pte_addr t i) = load64 m' (pte_addr t i)"
      using p(2) assms(2) by (intro load_slot_cong)
    with Some IH show ?thesis by (simp add: node_snoc entry_def)
  qed (simp add: node_snoc IH)
qed simp

lemma pt_same:
  assumes "pt_wf m pt" "\<And>p. pt_path p \<Longrightarrow> node m' pt p = node m pt p"
  shows "pt_wf m' pt" "pt_pages m' pt = pt_pages m pt"
proof -
  show "pt_pages m' pt = pt_pages m pt" using assms(2) by (auto simp: pt_pages_def)
  with assms show "pt_wf m' pt" unfolding pt_wf_def by simp
qed

text \<open>A store to one entry changes only the paths through that entry.\<close>

lemma node_store:
  assumes wf: "pt_wf m pt" and p: "pt_path p" "node m pt p = Some t" and i: "unat i < 512"
  shows "pt_path q \<Longrightarrow> \<not> prefix (p @ [i]) q \<Longrightarrow> node (store64 (pte_addr t i) v m) pt q = node m pt q"
proof (induction q rule: rev_induct)
  case (snoc j q)
  then have q: "pt_path q" "unat j < 512" "(p, i) \<noteq> (q, j)"
    and IH: "node (store64 (pte_addr t i) v m) pt q = node m pt q"
    by (auto simp: pt_path_snoc)
  show ?case
  proof (cases "node m pt q")
    case (Some u)
    have al: "pg_aligned t" "pg_aligned u" using wf p q(1) Some by (auto intro: pt_wf_aligned)
    have "(t, i) \<noteq> (u, j)" using pt_wf_inj [OF wf p(1) q(1) p(2)] Some q(3) by auto
    with Some IH load_store_slot [OF al i q(2), of v m] show ?thesis
      by (auto simp: node_snoc entry_def)
  qed (simp add: node_snoc IH)
qed simp


lemma entry_store:
  assumes "pg_aligned t" "unat i < 512"
  shows "entry (store64 (pte_addr t i) v m) t i = (if valid_pte v then Some (PTE2PA v) else None)"
  using load_store_slot [OF assms(1,1,2,2)] by (simp add: entry_def)

lemma valid_pte_V [simp]: "valid_pte (x OR PTE_V)" "\<not> valid_pte 0"
proof -
  have "bit ((x OR PTE_V) AND PTE_V) 0" by (simp add: PTE_V_def bit_simps)
  then show "valid_pte (x OR PTE_V)" unfolding valid_pte_def by (metis bit_0_eq bot_apply bot_bool_def)
  show "\<not> valid_pte 0" by (simp add: valid_pte_def)
qed

lemma unat_PTE_V [simp]: "unat PTE_V = 1"
  by (simp add: PTE_V_def)

definition zero_page :: "memory \<Rightarrow> uint64 \<Rightarrow> bool" where
  "zero_page m c \<longleftrightarrow> (\<forall>a. in_page c a \<longrightarrow> m a = 0)"

lemma entry_zero_page: "zero_page m c \<Longrightarrow> pg_aligned c \<Longrightarrow> unat i < 512 \<Longrightarrow> entry m c i = None"
proof -
  assume *: "zero_page m c" "pg_aligned c" "unat i < 512"
  then have "load64 m (pte_addr c i) = 0"
    by (intro load64_zero) (simp add: zero_page_def slot_page)
  then show ?thesis by (simp add: entry_def)
qed

lemma prefix_short:
  assumes "prefix (p @ [i]) q" "length q \<le> 2" "length p = 1 \<or> length p = 2 \<or> p = []"
  shows "q = p @ [i] \<or> (p = [] \<and> (\<exists>j. q = p @ [i] @ [j]))"
proof -
  from assms(1) obtain r where r: "q = (p @ [i]) @ r" by (rule prefixE)
  with assms(2,3) show ?thesis by (cases r; cases "tl r") auto
qed

lemma pt_path_cases: "pt_path p \<Longrightarrow> length p = 1 \<or> length p = 2 \<or> p = []"
  by (cases "length p") (auto simp: pt_path_def)

text \<open>Hanging an empty table \<open>c\<close> below an invalid entry.\<close>

lemma node_install:
  assumes wf: "pt_wf m pt" and p: "pt_path (p @ [i])" "node m pt p = Some t" "entry m t i = None"
    and c: "zero_page m c" "pg_aligned c" "unat c < 2 ^ 56" "c \<notin> pt_pages m pt"
  defines "m' \<equiv> store64 (pte_addr t i) (PA2PTE c OR PTE_V) m"
  shows "pt_path q \<Longrightarrow> node m' pt q = (if q = p @ [i] then Some c else node m pt q)"
proof -
  have pp: "pt_path p" "unat i < 512" "length p \<le> 1" using p(1) by (simp_all add: pt_path_snoc)
  have al: "pg_aligned t" using wf pp(1) p(2) by (rule pt_wf_aligned)
  have other: "node m' pt q = node m pt q" if "pt_path q" "\<not> prefix (p @ [i]) q" for q
    unfolding m'_def by (rule node_store [OF wf pp(1) p(2) pp(2) that])
  have old: "node m pt (p @ [i]) = None" by (simp add: node_snoc p)
  have "node m' pt p = Some t" using other [OF pp(1)] p(2) by simp
  then have new: "node m' pt (p @ [i]) = Some c"
    using entry_store [OF al pp(2)] PTE2PA_PA2PTE [OF c(2,3), of PTE_V]
    by (simp add: node_snoc m'_def unat_PTE_V)
  have "\<not> in_page t a" if "in_page c a" for a
    using that al c(2,4) pp(1) p(2) by (auto simp: in_page_iff dest: pt_pagesI)
  then have "zero_page m' c"
    using c(1) store_slot_outside [OF al pp(2)] by (simp add: zero_page_def m'_def)
  then have "node m' pt ((p @ [i]) @ [j]) = None" if "unat j < 512" for j
    using new that c(2) by (simp only: node_snoc option.case entry_zero_page)
  moreover have "node m pt ((p @ [i]) @ [j]) = None" for j
    using old by (simp only: node_snoc option.case)
  moreover assume q: "pt_path q"
  ultimately show ?thesis
    using prefix_short [of p i q] pt_path_cases [OF pp(1)] other new q
    by (cases "prefix (p @ [i]) q") (auto simp: pt_path_def)
qed

lemma pt_install:
  assumes wf: "pt_wf m pt" and p: "pt_path (p @ [i])" "node m pt p = Some t" "entry m t i = None"
    and c: "zero_page m c" "pg_aligned c" "unat c < 2 ^ 56" "c \<notin> pt_pages m pt"
  defines "m' \<equiv> store64 (pte_addr t i) (PA2PTE c OR PTE_V) m"
  shows "pt_wf m' pt" "pt_pages m' pt = insert c (pt_pages m pt)" "node m' pt (p @ [i]) = Some c"
proof -
  have n: "node m' pt q = (if q = p @ [i] then Some c else node m pt q)" if "pt_path q" for q
    unfolding m'_def by (rule node_install [OF wf p c that])
  have old: "node m pt (p @ [i]) = None" by (simp add: node_snoc p)
  have fresh: "node m pt q \<noteq> Some c" if "pt_path q" for q
    using c(4) that by (auto dest: pt_pagesI)
  show pages: "pt_pages m' pt = insert c (pt_pages m pt)"
  proof (intro set_eqI iffI)
    fix x
    assume "x \<in> insert c (pt_pages m pt)"
    then consider "x = c" | q where "pt_path q" "node m pt q = Some x" by (auto simp: pt_pages_def)
    then show "x \<in> pt_pages m' pt"
    proof cases
      case 1
      then show ?thesis using n [OF p(1)] p(1) by (auto intro: pt_pagesI)
    next
      case 2
      then have "node m' pt q = Some x" using n [OF 2(1)] old by auto
      with 2(1) show ?thesis by (rule pt_pagesI)
    qed
  qed (auto simp: pt_pages_def n split: if_splits)
  show "node m' pt (p @ [i]) = Some c" using n [OF p(1)] by simp
  have "q = r" if "pt_path q" "pt_path r" "node m' pt q = Some x" "node m' pt r = Some x" for q r x
    using that n [OF that(1)] n [OF that(2)] fresh pt_wf_inj [OF wf that(1,2)]
    by (auto split: if_splits)
  moreover have "\<forall>x \<in> pt_pages m' pt. pg_aligned x"
    using wf c(2) by (auto simp: pages pt_wf_def)
  ultimately show "pt_wf m' pt" unfolding pt_wf_def by blast
qed

subsection \<open>Translation\<close>

definition va_path :: "uint64 \<Rightarrow> uint64 list" where
  "va_path va = [PX 2 va, PX 1 va]"

text \<open>The leaf entry for \<open>va\<close>; 0, an invalid entry, when there is no leaf table.\<close>

definition leaf :: "memory \<Rightarrow> uint64 \<Rightarrow> uint64 \<Rightarrow> uint64" where
  "leaf m pt va = (case node m pt (va_path va) of None \<Rightarrow> 0 | Some t \<Rightarrow> load64 m (pte_addr t (PX 0 va)))"

lemma va_path_ok [simp]: "pt_path (va_path va)"
  by (simp add: va_path_def pt_path_def unat_PX_less)

lemma va_path_eq:
  assumes "va < MAXVA" "vb < MAXVA"
  shows "va_path va = va_path vb \<and> PX 0 va = PX 0 vb \<longleftrightarrow> PGROUNDDOWN va = PGROUNDDOWN vb"
  using same_page_iff [OF assms] by (auto simp: va_path_def)

lemma leaf_install:
  assumes wf: "pt_wf m pt" and p: "pt_path (p @ [i])" "node m pt p = Some t" "entry m t i = None"
    and c: "zero_page m c" "pg_aligned c" "unat c < 2 ^ 56" "c \<notin> pt_pages m pt"
  defines "m' \<equiv> store64 (pte_addr t i) (PA2PTE c OR PTE_V) m"
  shows "leaf m' pt va = leaf m pt va"
proof -
  note n = node_install [OF wf p c va_path_ok, of va, folded m'_def]
  have pp: "pt_path p" "unat i < 512" "length p \<le> 1" using p(1) by (simp_all add: pt_path_snoc)
  have al: "pg_aligned t" using wf pp(1) p(2) by (rule pt_wf_aligned)
  have away: "load64 m' (pte_addr u j) = load64 m (pte_addr u j)"
    if "pg_aligned u" "unat j < 512" "u \<noteq> t" for u j
    unfolding m'_def using load_store_slot [OF al that(1) pp(2) that(2)] that(3) by auto
  show ?thesis
  proof (cases "va_path va = p @ [i]")
    case True
    have "c \<noteq> t" using c(4) pp(1) p(2) by (auto dest: pt_pagesI)
    then have "load64 m' (pte_addr c (PX 0 va)) = load64 m (pte_addr c (PX 0 va))"
      by (intro away) (simp_all add: c unat_PX_less)
    also have "\<dots> = 0"
      using c(1,2) by (intro load64_zero) (simp add: zero_page_def slot_page unat_PX_less)
    finally have "leaf m' pt va = 0" using n True by (simp add: leaf_def)
    moreover have "leaf m pt va = 0" using True p by (simp add: leaf_def node_snoc)
    ultimately show ?thesis by simp
  next
    case False
    show ?thesis
    proof (cases "node m pt (va_path va)")
      case (Some u)
      have "u \<noteq> t"
        using pt_wf_inj [OF wf va_path_ok pp(1) Some] p(2) pp(3) by (auto simp: va_path_def)
      with Some have "load64 m' (pte_addr u (PX 0 va)) = load64 m (pte_addr u (PX 0 va))"
        by (intro away) (auto simp: unat_PX_less intro: pt_wf_aligned [OF wf va_path_ok])
      with Some n False show ?thesis by (simp add: leaf_def)
    qed (use n False in \<open>simp add: leaf_def\<close>)
  qed
qed

text \<open>Writing a leaf entry changes the translation of one page.\<close>

lemma leaf_store:
  fixes v :: uint64
  assumes wf: "pt_wf m pt" and t: "node m pt (va_path va) = Some t" and va: "va < MAXVA"
  defines "m' \<equiv> store64 (pte_addr t (PX 0 va)) v m"
  shows "pt_wf m' pt" "pt_pages m' pt = pt_pages m pt" "pt_path q \<Longrightarrow> node m' pt q = node m pt q"
    "vb < MAXVA \<Longrightarrow> leaf m' pt vb = (if PGROUNDDOWN vb = PGROUNDDOWN va then v else leaf m pt vb)"
proof -
  have n: "node m' pt q = node m pt q" if "pt_path q" for q
    unfolding m'_def
  proof (rule node_store [OF wf va_path_ok t unat_PX_less that])
    show "\<not> prefix (va_path va @ [PX 0 va]) q"
      using that by (auto simp: pt_path_def va_path_def dest!: prefix_length_le)
  qed
  show "pt_wf m' pt" "pt_pages m' pt = pt_pages m pt" using pt_same [OF wf n] by simp_all
  show "node m' pt q = node m pt q" if "pt_path q" using n [OF that] .
  assume vb: "vb < MAXVA"
  have al: "pg_aligned t" using wf va_path_ok t by (rule pt_wf_aligned)
  show "leaf m' pt vb = (if PGROUNDDOWN vb = PGROUNDDOWN va then v else leaf m pt vb)"
  proof (cases "node m pt (va_path vb)")
    case None
    then have "va_path va \<noteq> va_path vb" using t by auto
    with None n [OF va_path_ok] va_path_eq [OF va vb] show ?thesis by (auto simp: leaf_def)
  next
    case (Some u)
    have "t = u \<longleftrightarrow> va_path va = va_path vb"
    proof
      assume "t = u"
      with Some show "va_path va = va_path vb" by (intro pt_wf_inj [OF wf va_path_ok va_path_ok t]) simp
    next
      assume "va_path va = va_path vb"
      with t Some show "t = u" by simp
    qed
    moreover have "load64 m' (pte_addr u (PX 0 vb)) =
        (if t = u \<and> PX 0 va = PX 0 vb then v else load64 m (pte_addr u (PX 0 vb)))"
      unfolding m'_def using Some
      by (intro load_store_slot al unat_PX_less pt_wf_aligned [OF wf va_path_ok])
    ultimately show ?thesis
      using Some n [OF va_path_ok] va_path_eq [OF va vb] by (auto simp: leaf_def)
  qed
qed

subsection \<open>Invariant and effect of page-table operations\<close>

definition vm_ok :: "'z kstate_scheme \<Rightarrow> uint64 \<Rightarrow> uint64 list \<Rightarrow> bool" where
  "vm_ok s pt ps \<longleftrightarrow> kmem_ok s ps \<and> pt_wf (mem s) pt \<and>
     (\<forall>t \<in> pt_pages (mem s) pt. page_ok s t \<and> t \<notin> set ps)"

text \<open>Nothing but memory, the free list and the saved interrupt flag changed.\<close>

definition kframe :: "'z kstate_scheme \<Rightarrow> 'z kstate_scheme \<Rightarrow> bool" where
  "kframe s s' \<longleftrightarrow> s'\<lparr>cpus := cpus s, mem := mem s, freelist := freelist s\<rparr> = s \<and>
     (\<forall>c. (cpus s' c)\<lparr>c_intena := c_intena (cpus s c)\<rparr> = cpus s c)"

lemma kframe_refl [simp]: "kframe s s"
  by (simp add: kframe_def)

lemma kframe_trans [trans]:
  assumes "kframe s s'" "kframe s' s''"
  shows "kframe s s''"
proof -
  have "s''\<lparr>cpus := cpus s', mem := mem s', freelist := freelist s'\<rparr> = s'"
    and 2: "s'\<lparr>cpus := cpus s, mem := mem s, freelist := freelist s\<rparr> = s"
    using assms by (simp_all add: kframe_def)
  then have "s''\<lparr>cpus := cpus s', mem := mem s', freelist := freelist s'\<rparr>
      \<lparr>cpus := cpus s, mem := mem s, freelist := freelist s\<rparr> = s" by simp
  then have "s''\<lparr>cpus := cpus s, mem := mem s, freelist := freelist s\<rparr> = s" by simp
  moreover have "(cpus s'' c)\<lparr>c_intena := c_intena (cpus s c)\<rparr> = cpus s c" for c
  proof -
    have "(cpus s'' c)\<lparr>c_intena := c_intena (cpus s' c)\<rparr>\<lparr>c_intena := c_intena (cpus s c)\<rparr> = cpus s c"
      using assms by (simp add: kframe_def)
    then show ?thesis by simp
  qed
  ultimately show ?thesis by (simp add: kframe_def)
qed

lemma kframe_kend: "kframe s s' \<Longrightarrow> kend s' = kend s"
proof -
  assume "kframe s s'"
  then have "kend (s'\<lparr>cpus := cpus s, mem := mem s, freelist := freelist s\<rparr>) = kend s"
    by (simp add: kframe_def)
  then show ?thesis by simp
qed

lemma kframe_steps [simp]:
  "kframe s (intena_saved s)" "kframe s (s\<lparr>mem := m\<rparr>)" "kframe s (taken p s)" "kframe s (freed p s)"
  by (simp_all add: kframe_def intena_saved_def saved_intena_def Let_def taken_def freed_def)

definition vm_step ::
  "uint64 \<Rightarrow> 'z kstate_scheme \<Rightarrow> uint64 list \<Rightarrow> 'z kstate_scheme \<Rightarrow> uint64 list \<Rightarrow> bool" where
  "vm_step pt s ps s' ps' \<longleftrightarrow> vm_ok s' pt ps' \<and> kframe s s' \<and>
     pt_pages (mem s') pt \<union> set ps' = pt_pages (mem s) pt \<union> set ps \<and>
     (\<forall>a. PGROUNDDOWN a \<notin> pt_pages (mem s) pt \<union> set ps \<longrightarrow> mem s' a = mem s a)"

lemma vm_step_refl: "vm_ok s pt ps \<Longrightarrow> vm_step pt s ps s ps"
  by (simp add: vm_step_def)

lemma vm_step_trans [trans]:
  "vm_step pt s ps s' ps' \<Longrightarrow> vm_step pt s' ps' s'' ps'' \<Longrightarrow> vm_step pt s ps s'' ps''"
  unfolding vm_step_def using kframe_trans [of s s' s''] by auto

lemma kmem_ok_mem:
  assumes "kmem_ok s ps" "\<And>p a. p \<in> set ps \<Longrightarrow> in_page p a \<Longrightarrow> m' a = mem s a"
  shows "kmem_ok (s\<lparr>mem := m'\<rparr>) ps"
proof -
  have "chain m' (freelist s) ps = chain (mem s) (freelist s) ps"
    by (rule chain_cong) (rule assms(2))
  with assms(1) show ?thesis by (simp add: kmem_ok_def kmem_inv_def)
qed

lemma vm_ok_pages:
  assumes "vm_ok s pt ps"
  shows "p \<in> set ps \<Longrightarrow> pg_aligned p \<and> page_ok s p \<and> p \<notin> pt_pages (mem s) pt"
    and "t \<in> pt_pages (mem s) pt \<Longrightarrow> pg_aligned t \<and> page_ok s t \<and> t \<notin> set ps"
  using assms kmem.ok_pages [of s ps] by (auto simp: vm_ok_def page_ok_def)

lemma page_ok_bound: "page_ok s p \<Longrightarrow> unat p < 2 ^ 56"
  by (simp add: page_ok_def layout_defs word_less_nat_alt)

lemma page_ok_nonzero: "kmem_ok s ps \<Longrightarrow> page_ok s p \<Longrightarrow> p \<noteq> 0"
  by (auto simp: page_ok_def kmem_ok_def kmem_inv_def)

lemma pte_addr_nonzero:
  assumes "page_ok s t" "kmem_ok s ps" "unat i < 512"
  shows "pte_addr t i \<noteq> 0"
proof
  assume 0: "pte_addr t i = 0"
  have "pg_aligned t" using assms(1) by (simp add: page_ok_def)
  then have "in_page t 0" using slot_page [OF _ assms(3), of t 0] 0 by simp
  then have "t = 0" using \<open>pg_aligned t\<close> by (simp add: in_page_iff PGROUNDDOWN_def)
  with page_ok_nonzero [OF assms(2,1)] show False ..
qed

text \<open>Changes confined to one page outside the tables.\<close>

lemma pt_other_page:
  assumes "pt_wf m pt" "pg_aligned c" "c \<notin> pt_pages m pt" "\<forall>a. \<not> in_page c a \<longrightarrow> m' a = m a"
  shows "pt_path q \<Longrightarrow> node m' pt q = node m pt q" "pt_wf m' pt" "pt_pages m' pt = pt_pages m pt"
    "leaf m' pt va = leaf m pt va"
proof -
  have same: "m a = m' a" if "t \<in> pt_pages m pt" "in_page t a" for t a
  proof -
    have "pg_aligned t" "t \<noteq> c" using that assms by (auto simp: pt_wf_def)
    then have "\<not> in_page c a" using that(2) assms(2) by (auto simp: in_page_iff)
    then show ?thesis by (simp add: assms(4))
  qed
  have n: "node m' pt q = node m pt q" if "pt_path q" for q
    using assms(1) same that by (rule node_cong)
  then show "pt_path q \<Longrightarrow> node m' pt q = node m pt q" .
  show "pt_wf m' pt" "pt_pages m' pt = pt_pages m pt" using pt_same [OF assms(1) n] by simp_all
  show "leaf m' pt va = leaf m pt va"
  proof (cases "node m pt (va_path va)")
    case (Some t)
    have "t \<in> pt_pages m pt" "pg_aligned t"
      by (rule pt_pagesI [OF va_path_ok Some], rule pt_wf_aligned [OF assms(1) va_path_ok Some])
    then have "load64 m (pte_addr t (PX 0 va)) = load64 m' (pte_addr t (PX 0 va))"
      by (intro load_slot_cong unat_PX_less same)
    with Some n [OF va_path_ok] show ?thesis by (simp add: leaf_def)
  qed (simp add: leaf_def n)
qed

text \<open>The state after \<open>walk\<close> has hung a fresh table under entry \<open>i\<close> of table \<open>t\<close>.\<close>

definition installed :: "uint64 \<Rightarrow> uint64 \<Rightarrow> uint64 \<Rightarrow> 'z kstate_scheme \<Rightarrow> 'z kstate_scheme" where
  "installed t i c s = (taken c s)\<lparr>mem := store64 (pte_addr t i) (PA2PTE c OR PTE_V)
     (memset c 0 (ucast PGSIZE) (mem (taken c s)))\<rparr>"

lemma installed_step:
  assumes ok: "vm_ok s pt (c # ps)" and p: "pt_path (p @ [i])" "node (mem s) pt p = Some t"
    "entry (mem s) t i = None"
  shows "vm_step pt s (c # ps) (installed t i c s) ps"
    "node (mem (installed t i c s)) pt (p @ [i]) = Some c"
    "leaf (mem (installed t i c s)) pt va = leaf (mem s) pt va"
proof -
  let ?m = "memset c 0 (ucast PGSIZE) (mem (taken c s))"
  have c: "pg_aligned c" "page_ok s c" "c \<notin> pt_pages (mem s) pt" "c \<notin> set ps"
    using vm_ok_pages(1) [OF ok, of c] ok by (auto simp: vm_ok_def kmem_ok_def kmem_inv_def)
  have pp: "pt_path p" "unat i < 512" using p(1) by (simp_all add: pt_path_snoc)
  have wf: "pt_wf (mem s) pt" using ok by (simp add: vm_ok_def)
  have t: "t \<in> pt_pages (mem s) pt" using pp(1) p(2) by (rule pt_pagesI)
  have out: "\<forall>a. \<not> in_page c a \<longrightarrow> ?m a = mem s a" by (simp add: memset_page taken_def)
  note m = pt_other_page [OF wf c(1,3) out]
  have z: "zero_page ?m c" by (simp add: zero_page_def memset_page)
  have al: "pg_aligned t" using vm_ok_pages(2) [OF ok t] by simp
  have "load64 ?m (pte_addr t i) = load64 (mem s) (pte_addr t i)"
  proof (rule load_slot_cong [OF al pp(2)])
    fix a
    assume "in_page t a"
    then have "\<not> in_page c a" using al c(1,3) t by (auto simp: in_page_iff)
    then show "?m a = mem s a" using out by blast
  qed
  then have e: "entry ?m t i = None" using p(3) by (simp add: entry_def)
  have n: "node ?m pt p = Some t" using m(1) [OF pp(1)] p(2) by simp
  have fresh: "c \<notin> pt_pages ?m pt" using m(3) c(3) by simp
  note inst = pt_install [OF m(2) p(1) n e z c(1) page_ok_bound [OF c(2)] fresh]
  show "node (mem (installed t i c s)) pt (p @ [i]) = Some c" using inst(3) by (simp add: installed_def)
  show "leaf (mem (installed t i c s)) pt va = leaf (mem s) pt va"
    using leaf_install [OF m(2) p(1) n e z c(1) page_ok_bound [OF c(2)] fresh] m(4)
    by (simp add: installed_def)
  have pages: "pt_pages (mem (installed t i c s)) pt = insert c (pt_pages (mem s) pt)"
    using inst(2) m(3) by (simp add: installed_def)
  have mem_eq: "mem (installed t i c s) a = mem s a" if "PGROUNDDOWN a \<noteq> c" "PGROUNDDOWN a \<noteq> t" for a
    using that al c(1) pp(2) by (simp add: installed_def store_slot_outside in_page_iff out)
  have "kmem_ok (installed t i c s) ps"
    unfolding installed_def
  proof (rule kmem_ok_mem)
    show "kmem_ok (taken c s) ps" using ok by (auto simp: vm_ok_def intro: kalloc_page)
    fix q a
    assume "q \<in> set ps" "in_page q a"
    moreover from this have "pg_aligned q" "q \<noteq> c" "q \<noteq> t"
      using vm_ok_pages(1) [OF ok, of q] c(4) t by auto
    ultimately have "\<not> in_page c a" "\<not> in_page t a" using c(1) al by (auto simp: in_page_iff)
    then show "store64 (pte_addr t i) (PA2PTE c OR PTE_V) ?m a = mem (taken c s) a"
      using al pp(2) by (simp add: store_slot_outside memset_page)
  qed
  moreover have "pt_wf (mem (installed t i c s)) pt" using inst(1) by (simp add: installed_def)
  moreover have "page_ok (installed t i c s) u \<and> u \<notin> set ps"
    if "u \<in> insert c (pt_pages (mem s) pt)" for u
    using that c(2,4) vm_ok_pages(2) [OF ok, of u] by (auto simp: installed_def)
  ultimately have "vm_ok (installed t i c s) pt ps" by (simp add: vm_ok_def pages)
  moreover have "kframe s (installed t i c s)"
    unfolding installed_def by (rule kframe_trans [OF kframe_steps(3) kframe_steps(2)])
  ultimately show "vm_step pt s (c # ps) (installed t i c s) ps"
    using pages mem_eq t by (auto simp: vm_step_def)
qed
subsection \<open>\<open>walk\<close>\<close>

lemma walk_loop_pure:
  "walk_loop l t va False e s = Ret (case node (mem s) t (map (\<lambda>k. PX k va) (rev [1..<Suc l])) of
      None \<Rightarrow> 0 | Some u \<Rightarrow> pte_addr u (PX 0 va)) e s"
proof (induction l arbitrary: t)
  case (Suc l)
  have "rev [1..<Suc (Suc l)] = Suc l # rev [1..<Suc l]" by simp
  then show ?case
    by (simp add: Let_def load_def Suc.IH del: upt_Suc)
qed simp

lemma walk_pure:
  assumes "va < MAXVA"
  shows "walk pt va False e s = Ret (case node (mem s) pt (va_path va) of
      None \<Rightarrow> 0 | Some u \<Rightarrow> pte_addr u (PX 0 va)) e s"
proof -
  have "map (\<lambda>k. PX k va) (rev [1..<Suc 2]) = va_path va" by (simp add: va_path_def upt_rec numeral_2_eq_2)
  then show ?thesis using assms walk_loop_pure [of 2 pt va e s] by (simp add: walk_def)
qed

lemma kalloc_result:
  assumes "vm_ok s pt ps"
  shows "ps = [] \<Longrightarrow> kalloc e s = Ret 0 e (intena_saved s)"
    and "ps = c # qs \<Longrightarrow> kalloc e s = Ret c e (taken c s) \<and> c \<noteq> 0"
  using assms kalloc_page(1) [of s c qs] kalloc_empty [of s]
  by (auto simp: vm_ok_def kmem_ok_def kmem_inv_def)

lemma vm_step_intena: "vm_ok s pt ps \<Longrightarrow> vm_step pt s ps (intena_saved s) ps"
  by (auto simp: vm_step_def vm_ok_def kmem_ok_def kmem_inv_def)

text \<open>One round of the loop: out of memory, or one level down.\<close>

lemma walk_level:
  assumes ok: "vm_ok s pt ps" and p: "pt_path (p @ [PX (Suc l) va])" "node (mem s) pt p = Some t"
  shows "(\<exists>s'. walk_loop (Suc l) t va True e s = Ret 0 e s' \<and> ps = [] \<and> vm_step pt s ps s' ps \<and>
            (\<forall>vb. leaf (mem s') pt vb = leaf (mem s) pt vb)) \<or>
     (\<exists>u s' ps'. walk_loop (Suc l) t va True e s = walk_loop l u va True e s' \<and>
            vm_step pt s ps s' ps' \<and> node (mem s') pt (p @ [PX (Suc l) va]) = Some u \<and>
            (\<forall>vb. leaf (mem s') pt vb = leaf (mem s) pt vb))"
proof (cases "entry (mem s) t (PX (Suc l) va)")
  case (Some u)
  then have "walk_loop (Suc l) t va True e s = walk_loop l u va True e s"
    by (auto simp: entry_def Let_def load_def split: if_splits)
  moreover have "node (mem s) pt (p @ [PX (Suc l) va]) = Some u" using p Some by (simp add: node_snoc)
  ultimately show ?thesis using vm_step_refl [OF ok] by blast
next
  case None
  then have inv: "\<not> valid_pte (load64 (mem s) (pte_addr t (PX (Suc l) va)))"
    by (simp add: entry_def Let_def split: if_splits)
  show ?thesis
  proof (cases ps)
    case Nil
    with inv kalloc_result(1) [OF ok] have "walk_loop (Suc l) t va True e s = Ret 0 e (intena_saved s)"
      by (simp add: Let_def load_def)
    with Nil vm_step_intena [OF ok] show ?thesis by auto
  next
    case (Cons c qs)
    have "walk_loop (Suc l) t va True e s = walk_loop l c va True e (installed t (PX (Suc l) va) c s)"
      using inv kalloc_result(2) [OF ok Cons]
      by (simp add: Let_def load_def upd_mem_def store_def installed_def)
    with installed_step [OF ok [unfolded Cons] p None] show ?thesis unfolding Cons by blast
  qed
qed

lemma walk_alloc:
  assumes ok: "vm_ok s pt ps" and va: "va < MAXVA"
  shows "\<exists>r s' ps'. walk pt va True e s = Ret r e s' \<and> vm_step pt s ps s' ps' \<and>
     (\<forall>vb. leaf (mem s') pt vb = leaf (mem s) pt vb) \<and>
     (if r = 0 then ps' = [] else \<exists>t. node (mem s') pt (va_path va) = Some t \<and> r = pte_addr t (PX 0 va))"
proof -
  have p1: "pt_path ([] @ [PX (Suc 1) va])" by (simp add: pt_path_def unat_PX_less)
  have eq: "walk pt va True e s = walk_loop (Suc 1) pt va True e s"
    using va by (simp add: walk_def numeral_2_eq_2 not_le [symmetric] del: walk_loop.simps)
  from walk_level [OF ok p1 node.simps(1), of e] show ?thesis
  proof (elim disjE exE conjE)
    fix s'
    assume "walk_loop (Suc 1) pt va True e s = Ret 0 e s'" "ps = []" "vm_step pt s ps s' ps"
      "\<forall>vb. leaf (mem s') pt vb = leaf (mem s) pt vb"
    with eq show ?thesis by auto
  next
    fix u s1 ps1
    assume 1: "walk_loop (Suc 1) pt va True e s = walk_loop 1 u va True e s1" "vm_step pt s ps s1 ps1"
      "node (mem s1) pt ([] @ [PX (Suc 1) va]) = Some u" "\<forall>vb. leaf (mem s1) pt vb = leaf (mem s) pt vb"
    have ok1: "vm_ok s1 pt ps1" using 1(2) by (simp add: vm_step_def)
    have p2: "pt_path (([] @ [PX (Suc 1) va]) @ [PX (Suc 0) va])" by (simp add: pt_path_def unat_PX_less)
    have path: "([] @ [PX (Suc 1) va]) @ [PX (Suc 0) va] = va_path va"
      by (simp add: va_path_def numeral_2_eq_2)
    from walk_level [OF ok1 p2 1(3), of e] show ?thesis
    proof (elim disjE exE conjE)
      fix s'
      assume "walk_loop (Suc 0) u va True e s1 = Ret 0 e s'" "ps1 = []" "vm_step pt s1 ps1 s' ps1"
        "\<forall>vb. leaf (mem s') pt vb = leaf (mem s1) pt vb"
      with eq 1 show ?thesis using vm_step_trans [OF 1(2)] by auto
    next
      fix t s' ps'
      assume 2: "walk_loop (Suc 0) u va True e s1 = walk_loop 0 t va True e s'"
        "vm_step pt s1 ps1 s' ps'" "node (mem s') pt (([] @ [PX (Suc 1) va]) @ [PX (Suc 0) va]) = Some t"
        "\<forall>vb. leaf (mem s') pt vb = leaf (mem s1) pt vb"
      have n: "node (mem s') pt (va_path va) = Some t" using 2(3) by (simp only: path)
      have ok': "vm_ok s' pt ps'" using 2(2) by (simp add: vm_step_def)
      have "pte_addr t (PX 0 va) \<noteq> 0"
        using pt_pagesI [OF va_path_ok n] ok'
        by (intro pte_addr_nonzero [of s' _ ps']) (auto simp: vm_ok_def unat_PX_less)
      moreover have "walk pt va True e s = Ret (pte_addr t (PX 0 va)) e s'"
        using eq 1(1) 2(1) by simp
      ultimately show ?thesis
        using vm_step_trans [OF 1(2) 2(2)] n 1(4) 2(4) by auto
    qed
  qed
qed

subsection \<open>\<open>mappages\<close>\<close>

lemma leaf_store_step:
  assumes ok: "vm_ok s pt ps" and n: "node (mem s) pt (va_path va) = Some t" and va: "va < MAXVA"
  shows "vm_step pt s ps (s\<lparr>mem := store64 (pte_addr t (PX 0 va)) v (mem s)\<rparr>) ps"
proof -
  let ?s = "s\<lparr>mem := store64 (pte_addr t (PX 0 va)) v (mem s)\<rparr>"
  have wf: "pt_wf (mem s) pt" using ok by (simp add: vm_ok_def)
  note ls = leaf_store [OF wf n va, where v = v]
  have t: "t \<in> pt_pages (mem s) pt" using n by (rule pt_pagesI [OF va_path_ok])
  then have al: "pg_aligned t" using vm_ok_pages(2) [OF ok] by blast
  have out: "mem ?s a = mem s a" if "PGROUNDDOWN a \<noteq> t" for a
    using that al by (simp add: store_slot_outside in_page_iff unat_PX_less)
  have "kmem_ok ?s ps"
  proof (rule kmem_ok_mem)
    show "kmem_ok s ps" using ok by (simp add: vm_ok_def)
    fix q a
    assume "q \<in> set ps" "in_page q a"
    then have "PGROUNDDOWN a \<noteq> t" using vm_ok_pages(1) [OF ok, of q] t by (auto simp: in_page_iff)
    then show "store64 (pte_addr t (PX 0 va)) v (mem s) a = mem s a" using out by simp
  qed
  then have "vm_ok ?s pt ps" using ok ls(1,2) by (simp add: vm_ok_def)
  moreover have "mem ?s a = mem s a" if "PGROUNDDOWN a \<notin> pt_pages (mem s) pt \<union> set ps" for a
    using that t by (intro out) auto
  ultimately show ?thesis using ls(2) by (simp add: vm_step_def)
qed

text \<open>\<open>vb\<close> lies in one of the \<open>k\<close> pages from \<open>a\<close> on.\<close>

definition in_pages :: "uint64 \<Rightarrow> nat \<Rightarrow> uint64 \<Rightarrow> bool" where
  "in_pages a k vb \<longleftrightarrow> unat a \<le> unat vb \<and> unat vb < unat a + k * 4096"

definition map_entry :: "uint64 \<Rightarrow> uint64 \<Rightarrow> uint64 \<Rightarrow> uint64 \<Rightarrow> uint64" where
  "map_entry a pa perm vb = PA2PTE (pa + (PGROUNDDOWN vb - a)) OR perm OR PTE_V"

lemma in_pages_0 [simp]: "\<not> in_pages a 0 vb"
  by (simp add: in_pages_def)

lemma in_pages_Suc:
  assumes "pg_aligned a" "unat a + 4096 < 2 ^ 64"
  shows "in_pages a (Suc k) vb \<longleftrightarrow> PGROUNDDOWN vb = a \<or> in_pages (a + PGSIZE) k vb"
proof -
  have up: "unat (a + PGSIZE) = unat a + 4096" using assms(2) by (simp add: PGSIZE_def unat_word_ariths)
  obtain q where q: "unat a = 4096 * q"
    using assms(1) unfolding pg_aligned_iff mod_eq_0_iff_dvd by blast
  have "PGROUNDDOWN vb = a \<longleftrightarrow> unat vb div 4096 = q"
    by (simp add: word_unat_eq_iff unat_PGROUNDDOWN q)
  also have "\<dots> \<longleftrightarrow> 4096 * q \<le> unat vb \<and> unat vb < 4096 * q + 4096"
    by (auto simp: div_nat_eqI dividend_less_times_div)
  finally show ?thesis unfolding in_pages_def up q by auto
qed

lemma mappages_round:
  assumes ok: "vm_ok s pt ps" and a: "a < MAXVA" and inv: "\<not> valid_pte (leaf (mem s) pt a)"
  shows "(\<exists>s'. mappages_loop (Suc n) pt a last' pa perm e s = Ret (- 1) e s' \<and> vm_step pt s ps s' [] \<and>
       (\<forall>vb. leaf (mem s') pt vb = leaf (mem s) pt vb)) \<or>
     (\<exists>s' ps'. mappages_loop (Suc n) pt a last' pa perm e s =
         (if a = last' then return 0
          else mappages_loop n pt (a + PGSIZE) last' (pa + PGSIZE) perm) e s' \<and> vm_step pt s ps s' ps' \<and>
       (\<forall>vb. vb < MAXVA \<longrightarrow> leaf (mem s') pt vb = (if PGROUNDDOWN vb = PGROUNDDOWN a
          then PA2PTE pa OR perm OR PTE_V else leaf (mem s) pt vb)))"
proof -
  obtain r s1 ps1 where w: "walk pt a True e s = Ret r e s1" "vm_step pt s ps s1 ps1"
    "\<forall>vb. leaf (mem s1) pt vb = leaf (mem s) pt vb"
    "if r = 0 then ps1 = [] else \<exists>t. node (mem s1) pt (va_path a) = Some t \<and> r = pte_addr t (PX 0 a)"
    using walk_alloc [OF ok a] by blast
  show ?thesis
  proof (cases "r = 0")
    case True
    then have "mappages_loop (Suc n) pt a last' pa perm e s = Ret (- 1) e s1" using w(1) by simp
    with True w show ?thesis by auto
  next
    case False
    with w(4) obtain t where t: "node (mem s1) pt (va_path a) = Some t" "r = pte_addr t (PX 0 a)" by auto
    let ?s = "s1\<lparr>mem := store64 r (PA2PTE pa OR perm OR PTE_V) (mem s1)\<rparr>"
    have ok1: "vm_ok s1 pt ps1" using w(2) by (simp add: vm_step_def)
    then have wf1: "pt_wf (mem s1) pt" by (simp add: vm_ok_def)
    have "leaf (mem s1) pt a = load64 (mem s1) r" by (simp add: leaf_def t)
    then have "\<not> valid_pte (load64 (mem s1) r)" using inv w(3) by simp
    then have run: "mappages_loop (Suc n) pt a last' pa perm e s =
        (if a = last' then return 0
          else mappages_loop n pt (a + PGSIZE) last' (pa + PGSIZE) perm) e ?s"
      using w(1) False by (simp add: load_def store_def)
    have step: "vm_step pt s ps ?s ps1"
      using vm_step_trans [OF w(2) leaf_store_step [OF ok1 t(1) a]] t(2) by simp
    have "leaf (mem ?s) pt vb = (if PGROUNDDOWN vb = PGROUNDDOWN a
          then PA2PTE pa OR perm OR PTE_V else leaf (mem s) pt vb)" if "vb < MAXVA" for vb
      using leaf_store(4) [OF wf1 t(1) a that] w(3) t(2) by simp
    with run step show ?thesis by blast
  qed
qed

lemma page_next:
  assumes "pg_aligned a" "unat a + 4096 \<le> 2 ^ 38"
  shows "unat (a + PGSIZE) = unat a + 4096" "pg_aligned (a + PGSIZE)"
  using assms unat_page_next [of a] pg_aligned_next [of a] by simp_all

lemma in_pages_bounds:
  "in_pages a k vb \<Longrightarrow> unat a + k * 4096 \<le> 2 ^ 38 \<Longrightarrow> vb < MAXVA"
  by (simp add: in_pages_def MAXVA_def word_less_nat_alt)

lemma in_pages_next_other:
  assumes "unat (a + PGSIZE) = unat a + 4096" "in_pages (a + PGSIZE) k vb"
  shows "PGROUNDDOWN vb \<noteq> a"
proof
  assume "PGROUNDDOWN vb = a"
  then have "unat vb div 4096 * 4096 = unat a" by (simp add: unat_PGROUNDDOWN [symmetric])
  then have "unat vb < unat a + 4096" using dividend_less_div_times [of 4096 "unat vb"] by simp
  with assms show False by (simp add: in_pages_def)
qed

lemma map_entry_next: "map_entry (a + PGSIZE) (pa + PGSIZE) perm vb = map_entry a pa perm vb"
  by (simp add: map_entry_def algebra_simps)

lemma mappages_loop_spec:
  assumes "vm_ok s pt ps" "pg_aligned a" "unat a + Suc n * 4096 \<le> 2 ^ 38"
    "last' = a + of_nat n * PGSIZE" "\<And>vb. in_pages a (Suc n) vb \<Longrightarrow> \<not> valid_pte (leaf (mem s) pt vb)"
  shows "\<exists>r s' ps' k. mappages_loop (Suc n) pt a last' pa perm e s = Ret r e s' \<and> vm_step pt s ps s' ps' \<and>
     k \<le> Suc n \<and> r = (if k = Suc n then 0 else - 1) \<and> (k \<noteq> Suc n \<longrightarrow> ps' = []) \<and>
     (\<forall>vb. vb < MAXVA \<longrightarrow> leaf (mem s') pt vb =
        (if in_pages a k vb then map_entry a pa perm vb else leaf (mem s) pt vb))"
  using assms
proof (induction n arbitrary: s ps a pa)
  case (0 s ps a pa)
  have a: "a < MAXVA" "PGROUNDDOWN a = a" "unat a + 4096 < 2 ^ 64"
    using 0(2,3) by (simp_all add: MAXVA_def word_less_nat_alt)
  have "in_pages a (Suc 0) a" by (simp add: in_pages_def)
  with 0(5) have inv: "\<not> valid_pte (leaf (mem s) pt a)" by blast
  have one: "in_pages a (Suc 0) vb \<longleftrightarrow> PGROUNDDOWN vb = a" for vb
    using in_pages_Suc [OF 0(2) a(3), of 0 vb] by simp
  from mappages_round [OF 0(1) a(1) inv, of 0 last' pa perm e] show ?case
  proof (elim disjE exE conjE)
    fix s'
    assume "mappages_loop (Suc 0) pt a last' pa perm e s = Ret (- 1) e s'" "vm_step pt s ps s' []"
      "\<forall>vb. leaf (mem s') pt vb = leaf (mem s) pt vb"
    then show ?case
      by (intro exI [of _ "- 1"] exI [of _ s'] exI [of _ "[]"] exI [of _ 0])
         (simp del: mappages_loop.simps)
  next
    fix s' ps'
    assume "mappages_loop (Suc 0) pt a last' pa perm e s =
         (if a = last' then return 0
          else mappages_loop 0 pt (a + PGSIZE) last' (pa + PGSIZE) perm) e s'" "vm_step pt s ps s' ps'"
       "\<forall>vb. vb < MAXVA \<longrightarrow> leaf (mem s') pt vb = (if PGROUNDDOWN vb = PGROUNDDOWN a
          then PA2PTE pa OR perm OR PTE_V else leaf (mem s) pt vb)"
    then show ?case
      using 0(4) a(2)
      by (intro exI [of _ 0] exI [of _ s'] exI [of _ ps'] exI [of _ 1])
         (auto simp: one map_entry_def)
  qed
next
  case (Suc n s ps a pa)
  have a: "a < MAXVA" "PGROUNDDOWN a = a" "unat a + 4096 < 2 ^ 64" "unat a + 4096 \<le> 2 ^ 38"
    using Suc(3,4) by (simp_all add: MAXVA_def word_less_nat_alt)
  note nx = page_next [OF Suc(3) a(4)]
  note inp = in_pages_Suc [OF Suc(3) a(3)]
  have "in_pages a (Suc (Suc n)) a" by (simp add: in_pages_def)
  with Suc(6) have inv: "\<not> valid_pte (leaf (mem s) pt a)" by blast
  from mappages_round [OF Suc(2) a(1) inv, of "Suc n" last' pa perm e] show ?case
  proof (elim disjE exE conjE)
    fix s'
    assume "mappages_loop (Suc (Suc n)) pt a last' pa perm e s = Ret (- 1) e s'" "vm_step pt s ps s' []"
      "\<forall>vb. leaf (mem s') pt vb = leaf (mem s) pt vb"
    then show ?case
      by (intro exI [of _ "- 1"] exI [of _ s'] exI [of _ "[]"] exI [of _ 0])
         (simp del: mappages_loop.simps)
  next
    fix s1 ps1
    assume 1: "mappages_loop (Suc (Suc n)) pt a last' pa perm e s =
         (if a = last' then return 0
          else mappages_loop (Suc n) pt (a + PGSIZE) last' (pa + PGSIZE) perm) e s1"
       "vm_step pt s ps s1 ps1"
       "\<forall>vb. vb < MAXVA \<longrightarrow> leaf (mem s1) pt vb = (if PGROUNDDOWN vb = PGROUNDDOWN a
          then PA2PTE pa OR perm OR PTE_V else leaf (mem s) pt vb)"
    have ok1: "vm_ok s1 pt ps1" using 1(2) by (simp add: vm_step_def)
    have "unat (of_nat (Suc n) * PGSIZE :: uint64) = Suc n * 4096"
      using Suc(4) by (simp add: PGSIZE_def unat_word_ariths unat_of_nat take_bit_nat_eq_self)
    then have "of_nat (Suc n) * PGSIZE \<noteq> (0 :: uint64)" by (metis nat.distinct(1) mult_is_0 unat_0 zero_neq_numeral)
    then have ne: "a \<noteq> last'" using Suc(5) by (metis add.right_neutral add_left_cancel)
    have l': "last' = (a + PGSIZE) + of_nat n * PGSIZE" using Suc(5) by (simp add: algebra_simps)
    have b: "unat (a + PGSIZE) + Suc n * 4096 \<le> 2 ^ 38" using Suc(4) nx(1) by simp
    have inv1: "\<not> valid_pte (leaf (mem s1) pt vb)" if "in_pages (a + PGSIZE) (Suc n) vb" for vb
    proof -
      have "in_pages a (Suc (Suc n)) vb" using inp that by blast
      moreover have "PGROUNDDOWN vb \<noteq> a" using in_pages_next_other [OF nx(1) that] .
      ultimately show ?thesis using 1(3) Suc(6) in_pages_bounds [OF that b] a(2) by simp
    qed
    from Suc.IH [OF ok1 nx(2) b l' inv1, of "pa + PGSIZE"] obtain r s' ps' k where
      2: "mappages_loop (Suc n) pt (a + PGSIZE) last' (pa + PGSIZE) perm e s1 = Ret r e s'"
      "vm_step pt s1 ps1 s' ps'" "k \<le> Suc n" "r = (if k = Suc n then 0 else - 1)" "k \<noteq> Suc n \<longrightarrow> ps' = []"
      "\<forall>vb. vb < MAXVA \<longrightarrow> leaf (mem s') pt vb =
        (if in_pages (a + PGSIZE) k vb then map_entry (a + PGSIZE) (pa + PGSIZE) perm vb
         else leaf (mem s1) pt vb)" by blast
    have "leaf (mem s') pt vb = (if in_pages a (Suc k) vb then map_entry a pa perm vb else leaf (mem s) pt vb)"
      if "vb < MAXVA" for vb
    proof (cases "in_pages (a + PGSIZE) k vb")
      case True
      then show ?thesis using 2(6) that inp map_entry_next by simp
    next
      case False
      then show ?thesis using 2(6) 1(3) that inp a(2) by (simp add: map_entry_def)
    qed
    with 1(1) ne 2 vm_step_trans [OF 1(2) 2(2)] show ?case
      by (intro exI [of _ r] exI [of _ s'] exI [of _ ps'] exI [of _ "Suc k"]) simp
  qed
qed

text \<open>The number of pages that \<open>mappages(_, va, sz, _, _)\<close> maps.\<close>

definition span :: "uint64 \<Rightarrow> uint64 \<Rightarrow> nat" where
  "span va sz = (unat va + unat sz - 1) div 4096 - unat va div 4096 + 1"

lemma span_bounds:
  assumes "sz \<noteq> 0" "unat va + unat sz \<le> 2 ^ 38"
  defines "a \<equiv> PGROUNDDOWN va" and "l \<equiv> PGROUNDDOWN (va + sz - 1)"
  shows "unat a + span va sz * 4096 \<le> 2 ^ 38" "l = a + of_nat (span va sz - 1) * PGSIZE"
    "unat (l - a) div 4096 + 1 = span va sz"
proof -
  have "0 < unat sz" using assms(1) by (simp add: unat_gt_0)
  define x where "x = unat va"
  define y where "y = unat va + unat sz - 1"
  have xy: "x \<le> y" "y < 2 ^ 38" using assms(2) \<open>0 < unat sz\<close> by (auto simp: x_def y_def)
  have "unat (va + sz) = unat va + unat sz" using assms(2) by (simp add: unat_word_ariths)
  moreover have "va + sz \<noteq> 0" using calculation \<open>0 < unat sz\<close> by (metis add_is_0 less_not_refl unat_0)
  ultimately have e: "unat (va + sz - 1) = y" by (simp add: unat_minus_one y_def)
  have a: "unat a = x div 4096 * 4096" by (simp add: a_def unat_PGROUNDDOWN x_def)
  have l: "unat l = y div 4096 * 4096" by (simp add: l_def unat_PGROUNDDOWN e)
  have d: "x div 4096 \<le> y div 4096" using xy(1) by (rule div_le_mono)
  have sp: "span va sz = y div 4096 - x div 4096 + 1" by (simp add: span_def x_def y_def)
  have "y div 4096 < 2 ^ 26" using xy(2) by simp
  with d show "unat a + span va sz * 4096 \<le> 2 ^ 38" by (simp add: a sp algebra_simps diff_mult_distrib)
  have k: "unat (of_nat (span va sz - 1) * PGSIZE :: uint64) = (y div 4096 - x div 4096) * 4096"
    using \<open>y div 4096 < 2 ^ 26\<close>
    by (simp add: sp PGSIZE_def unat_word_ariths unat_of_nat take_bit_nat_eq_self)
  have le: "a \<le> l" using d by (simp add: word_le_nat_alt a l)
  have la: "unat (l - a) = (y div 4096 - x div 4096) * 4096"
    using unat_sub [OF le] by (simp add: a l diff_mult_distrib)
  then show "unat (l - a) div 4096 + 1 = span va sz" by (simp add: sp)
  have "l - a = of_nat (span va sz - 1) * PGSIZE" using la k by (simp only: word_unat_eq_iff)
  then show "l = a + of_nat (span va sz - 1) * PGSIZE" by (metis add_diff_cancel_left' diff_add_cancel add.commute)
qed

theorem mappages_spec:
  assumes "vm_ok s pt ps" "sz \<noteq> 0" "unat va + unat sz \<le> 2 ^ 38"
    "\<And>vb. in_pages (PGROUNDDOWN va) (span va sz) vb \<Longrightarrow> \<not> valid_pte (leaf (mem s) pt vb)"
  shows "\<exists>r s' ps' k. mappages pt va sz pa perm e s = Ret r e s' \<and> vm_step pt s ps s' ps' \<and>
     k \<le> span va sz \<and> r = (if k = span va sz then 0 else - 1) \<and> (k \<noteq> span va sz \<longrightarrow> ps' = []) \<and>
     (\<forall>vb. vb < MAXVA \<longrightarrow> leaf (mem s') pt vb =
        (if in_pages (PGROUNDDOWN va) k vb then map_entry (PGROUNDDOWN va) pa perm vb
         else leaf (mem s) pt vb))"
proof -
  obtain n where n: "span va sz = Suc n" by (simp add: span_def)
  note b = span_bounds [OF assms(2,3)]
  have "mappages pt va sz pa perm e s =
      mappages_loop (Suc n) pt (PGROUNDDOWN va) (PGROUNDDOWN (va + sz - 1)) pa perm e s"
    using assms(2) b(3) by (simp add: mappages_def Let_def n del: mappages_loop.simps)
  then show ?thesis
    using mappages_loop_spec [OF assms(1) pg_aligned_PGROUNDDOWN, of va n] b(1,2) assms(4)
    unfolding n by (simp del: mappages_loop.simps)
qed

text \<open>A page that is mapped already: \<open>mappages\<close> panics and has changed no translation.\<close>

lemma walk_existing:
  assumes "node (mem s) pt (va_path va) = Some t" "va < MAXVA"
  shows "walk pt va alloc e s = Ret (pte_addr t (PX 0 va)) e s"
  using assms
  by (auto simp: walk_def numeral_2_eq_2 va_path_def Let_def load_def not_le [symmetric] split: if_splits)

lemma mappages_remap:
  assumes "vm_ok s pt ps" "sz \<noteq> 0" "PGROUNDDOWN va < MAXVA" "valid_pte (leaf (mem s) pt (PGROUNDDOWN va))"
  shows "mappages pt va sz pa perm e s = Panic ''mappages: remap'' s"
proof -
  let ?a = "PGROUNDDOWN va"
  obtain t where t: "node (mem s) pt (va_path ?a) = Some t"
    using assms(4) by (auto simp: leaf_def split: option.splits)
  have "t \<in> pt_pages (mem s) pt" by (rule pt_pagesI [OF va_path_ok t])
  then have "pte_addr t (PX 0 ?a) \<noteq> 0"
    using assms(1) by (intro pte_addr_nonzero [of s _ ps]) (auto simp: vm_ok_def unat_PX_less)
  then show ?thesis
    using walk_existing [OF t assms(3), of True e] assms(2,4) t
    by (simp add: mappages_def Let_def load_def leaf_def)
qed

subsection \<open>\<open>uvmunmap\<close>\<close>

text \<open>The physical pages behind consecutive virtual pages from \<open>a\<close> on.\<close>

primrec frames_at :: "memory \<Rightarrow> uint64 \<Rightarrow> uint64 \<Rightarrow> uint64 list \<Rightarrow> bool" where
  "frames_at m pt a [] \<longleftrightarrow> True"
| "frames_at m pt a (f # fs) \<longleftrightarrow> valid_pte (leaf m pt a) \<and> PTE_FLAGS (leaf m pt a) \<noteq> PTE_V \<and>
     PTE2PA (leaf m pt a) = f \<and> frames_at m pt (a + PGSIZE) fs"

text \<open>Pages that may be freed: neither in the tree nor free already.\<close>

definition freeable :: "'z kstate_scheme \<Rightarrow> uint64 \<Rightarrow> uint64 list \<Rightarrow> uint64 list \<Rightarrow> bool" where
  "freeable s pt ps fs \<longleftrightarrow> distinct fs \<and>
     (\<forall>f \<in> set fs. page_ok s f \<and> f \<notin> set ps \<and> f \<notin> pt_pages (mem s) pt)"

lemma freed_vm_ok:
  assumes ok: "vm_ok s pt ps" and f: "page_ok s f" "f \<notin> set ps" "f \<notin> pt_pages (mem s) pt"
  shows "kfree f e s = Ret () e (freed f s)" "vm_ok (freed f s) pt (f # ps)"
    "pt_path q \<Longrightarrow> node (mem (freed f s)) pt q = node (mem s) pt q"
    "pt_pages (mem (freed f s)) pt = pt_pages (mem s) pt"
    "leaf (mem (freed f s)) pt va = leaf (mem s) pt va"
    "\<And>a. PGROUNDDOWN a \<noteq> f \<Longrightarrow> mem (freed f s) a = mem s a"
proof -
  have k: "kmem_ok s ps" "pt_wf (mem s) pt" using ok by (simp_all add: vm_ok_def)
  have al: "pg_aligned f" using f(1) by (simp add: page_ok_def)
  show "kfree f e s = Ret () e (freed f s)" by (rule kfree_page [OF k(1) f(1,2)])
  have out: "\<forall>a. \<not> in_page f a \<longrightarrow> mem (freed f s) a = mem s a" using al by (simp add: taken_bytes)
  note o = pt_other_page [OF k(2) al f(3) out]
  show "pt_path q \<Longrightarrow> node (mem (freed f s)) pt q = node (mem s) pt q"
    "pt_pages (mem (freed f s)) pt = pt_pages (mem s) pt"
    "leaf (mem (freed f s)) pt va = leaf (mem s) pt va" by (rule o; assumption)+
  show "mem (freed f s) a = mem s a" if "PGROUNDDOWN a \<noteq> f" for a
    using that out al by (simp add: in_page_iff)
  show "vm_ok (freed f s) pt (f # ps)"
    using ok o(2,3) f(3) kfree_page(2) [OF k(1) f(1,2)] by (auto simp: vm_ok_def)
qed

lemma frames_at_cong:
  assumes "\<And>vb. in_pages a (length fs) vb \<Longrightarrow> leaf m' pt vb = leaf m pt vb" "pg_aligned a"
    "unat a + length fs * 4096 \<le> 2 ^ 38"
  shows "frames_at m' pt a fs = frames_at m pt a fs"
  using assms
proof (induction fs arbitrary: a)
  case (Cons f fs)
  have b: "unat a + 4096 < 2 ^ 64" "unat a + 4096 \<le> 2 ^ 38" using Cons.prems(3) by simp_all
  note nx = page_next [OF Cons.prems(2) b(2)] and inp = in_pages_Suc [OF Cons.prems(2) b(1)]
  have "frames_at m' pt (a + PGSIZE) fs = frames_at m pt (a + PGSIZE) fs"
    using Cons.prems inp nx by (intro Cons.IH) simp_all
  moreover have "leaf m' pt a = leaf m pt a"
    using Cons.prems(2) by (intro Cons.prems(1)) (simp add: inp)
  ultimately show ?case by simp
qed simp

lemma valid_pte_iff: "v AND PTE_V = 0 \<longleftrightarrow> \<not> valid_pte v"
  by (simp add: valid_pte_def)

lemma unmap_round:
  assumes ok: "vm_ok s pt ps" and a: "a < MAXVA" "a < lim"
    and v: "valid_pte (leaf (mem s) pt a)" "PTE_FLAGS (leaf (mem s) pt a) \<noteq> PTE_V"
    and f: "do_free \<Longrightarrow> freeable s pt ps [PTE2PA (leaf (mem s) pt a)]"
  shows "\<exists>s'. uvmunmap_loop (Suc n) pt a lim do_free e s = uvmunmap_loop n pt (a + PGSIZE) lim do_free e s' \<and>
     vm_ok s' pt (if do_free then PTE2PA (leaf (mem s) pt a) # ps else ps) \<and> kframe s s' \<and>
     pt_pages (mem s') pt = pt_pages (mem s) pt \<and>
     (\<forall>x. PGROUNDDOWN x \<notin> pt_pages (mem s) pt \<longrightarrow> \<not> (do_free \<and> PGROUNDDOWN x = PTE2PA (leaf (mem s) pt a)) \<longrightarrow>
        mem s' x = mem s x) \<and>
     (\<forall>vb. vb < MAXVA \<longrightarrow> leaf (mem s') pt vb = (if PGROUNDDOWN vb = PGROUNDDOWN a then 0 else leaf (mem s) pt vb))"
proof -
  let ?f = "PTE2PA (leaf (mem s) pt a)"
  obtain t where t: "node (mem s) pt (va_path a) = Some t"
    using v(1) by (auto simp: leaf_def split: option.splits)
  then have pt: "t \<in> pt_pages (mem s) pt" by (rule pt_pagesI [OF va_path_ok])
  have nz: "pte_addr t (PX 0 a) \<noteq> 0"
    using pt ok by (intro pte_addr_nonzero [of s _ ps]) (auto simp: vm_ok_def unat_PX_less)
  define s1 where "s1 = (if do_free then freed ?f s else s)"
  define ps1 where "ps1 = (if do_free then ?f # ps else ps)"
  have s1: "whenM do_free (kfree ?f) e s = Ret () e s1" "vm_ok s1 pt ps1" "kframe s s1"
    "node (mem s1) pt (va_path a) = Some t" "pt_pages (mem s1) pt = pt_pages (mem s) pt"
    "\<forall>vb. leaf (mem s1) pt vb = leaf (mem s) pt vb"
    "\<forall>x. \<not> (do_free \<and> PGROUNDDOWN x = ?f) \<longrightarrow> mem s1 x = mem s x"
  proof -
    have "whenM do_free (kfree ?f) e s = Ret () e s1 \<and> vm_ok s1 pt ps1 \<and> kframe s s1 \<and>
      node (mem s1) pt (va_path a) = Some t \<and> pt_pages (mem s1) pt = pt_pages (mem s) pt \<and>
      (\<forall>vb. leaf (mem s1) pt vb = leaf (mem s) pt vb) \<and>
      (\<forall>x. \<not> (do_free \<and> PGROUNDDOWN x = ?f) \<longrightarrow> mem s1 x = mem s x)"
    proof (cases do_free)
      case True
      with f have "page_ok s ?f" "?f \<notin> set ps" "?f \<notin> pt_pages (mem s) pt" by (simp_all add: freeable_def)
      note fr = freed_vm_ok [OF ok this]
      show ?thesis using True fr(1,2,4,5,6) fr(3) [OF va_path_ok] t by (simp add: s1_def ps1_def)
    qed (simp add: s1_def ps1_def ok t)
    then show "whenM do_free (kfree ?f) e s = Ret () e s1" "vm_ok s1 pt ps1" "kframe s s1"
      "node (mem s1) pt (va_path a) = Some t" "pt_pages (mem s1) pt = pt_pages (mem s) pt"
      "\<forall>vb. leaf (mem s1) pt vb = leaf (mem s) pt vb"
      "\<forall>x. \<not> (do_free \<and> PGROUNDDOWN x = ?f) \<longrightarrow> mem s1 x = mem s x" by blast+
  qed
  let ?s = "s1\<lparr>mem := store64 (pte_addr t (PX 0 a)) 0 (mem s1)\<rparr>"
  have run: "uvmunmap_loop (Suc n) pt a lim do_free e s = uvmunmap_loop n pt (a + PGSIZE) lim do_free e ?s"
    using walk_existing [OF t a(1)] nz v t s1(1) a(2)
    by (simp add: load_def store_def leaf_def valid_pte_iff)
  have "vm_step pt s1 ps1 ?s ps1" by (rule leaf_store_step [OF s1(2,4) a(1)])
  then have 2: "vm_ok ?s pt ps1" "kframe s1 ?s" by (simp_all add: vm_step_def)
  have wf1: "pt_wf (mem s1) pt" using s1(2) by (simp add: vm_ok_def)
  have al: "pg_aligned t" using vm_ok_pages(2) [OF ok pt] by blast
  have "mem ?s x = mem s x"
    if "PGROUNDDOWN x \<notin> pt_pages (mem s) pt" "\<not> (do_free \<and> PGROUNDDOWN x = ?f)" for x
  proof -
    have "PGROUNDDOWN x \<noteq> t" using that(1) pt by auto
    then have "mem ?s x = mem s1 x" using al by (simp add: store_slot_outside in_page_iff unat_PX_less)
    with s1(7) that(2) show ?thesis by simp
  qed
  moreover have "pt_pages (mem ?s) pt = pt_pages (mem s) pt"
    using leaf_store(2) [OF wf1 s1(4) a(1)] s1(5) by simp
  moreover have "leaf (mem ?s) pt vb = (if PGROUNDDOWN vb = PGROUNDDOWN a then 0 else leaf (mem s) pt vb)"
    if "vb < MAXVA" for vb
    using leaf_store(4) [OF wf1 s1(4) a(1) that] s1(6) by simp
  ultimately show ?thesis
    using run 2(1) kframe_trans [OF s1(3) 2(2)] unfolding ps1_def by blast
qed

lemma uvmunmap_loop_spec:
  assumes "vm_ok s pt ps" "pg_aligned a" "unat a + length fs * 4096 \<le> 2 ^ 38"
    "unat lim = unat a + length fs * 4096" "frames_at (mem s) pt a fs" "do_free \<Longrightarrow> freeable s pt ps fs"
  shows "\<exists>s'. uvmunmap_loop (length fs) pt a lim do_free e s = Ret () e s' \<and>
     vm_ok s' pt (if do_free then rev fs @ ps else ps) \<and> kframe s s' \<and>
     pt_pages (mem s') pt = pt_pages (mem s) pt \<and>
     (\<forall>x. PGROUNDDOWN x \<notin> pt_pages (mem s) pt \<longrightarrow> \<not> (do_free \<and> PGROUNDDOWN x \<in> set fs) \<longrightarrow> mem s' x = mem s x) \<and>
     (\<forall>vb. vb < MAXVA \<longrightarrow> leaf (mem s') pt vb = (if in_pages a (length fs) vb then 0 else leaf (mem s) pt vb))"
  using assms
proof (induction fs arbitrary: s ps a)
  case Nil
  then have "\<not> a < lim" by (simp add: word_less_nat_alt)
  with Nil show ?case by auto
next
  case (Cons f fs)
  have b: "a < MAXVA" "unat a + 4096 < 2 ^ 64" "unat a + 4096 \<le> 2 ^ 38" "a < lim" "PGROUNDDOWN a = a"
    using Cons.prems(2-4) by (simp_all add: MAXVA_def word_less_nat_alt)
  note nx = page_next [OF Cons.prems(2) b(3)] and inp = in_pages_Suc [OF Cons.prems(2) b(2)]
  have v: "valid_pte (leaf (mem s) pt a)" "PTE_FLAGS (leaf (mem s) pt a) \<noteq> PTE_V"
    "PTE2PA (leaf (mem s) pt a) = f" "frames_at (mem s) pt (a + PGSIZE) fs"
    using Cons.prems(5) by simp_all
  have "do_free \<Longrightarrow> freeable s pt ps [PTE2PA (leaf (mem s) pt a)]"
    using Cons.prems(6) v(3) by (simp add: freeable_def)
  from unmap_round [OF Cons.prems(1) b(1,4) v(1,2) this, where n = "length fs" and e = e, unfolded v(3) b(5)]
  obtain s1 where s1: "uvmunmap_loop (Suc (length fs)) pt a lim do_free e s =
      uvmunmap_loop (length fs) pt (a + PGSIZE) lim do_free e s1"
    "vm_ok s1 pt (if do_free then f # ps else ps)" "kframe s s1" "pt_pages (mem s1) pt = pt_pages (mem s) pt"
    "\<forall>x. PGROUNDDOWN x \<notin> pt_pages (mem s) pt \<longrightarrow> \<not> (do_free \<and> PGROUNDDOWN x = f) \<longrightarrow> mem s1 x = mem s x"
    "\<forall>vb. vb < MAXVA \<longrightarrow> leaf (mem s1) pt vb = (if PGROUNDDOWN vb = a then 0 else leaf (mem s) pt vb)"
    by blast
  have lb: "unat (a + PGSIZE) + length fs * 4096 \<le> 2 ^ 38" using Cons.prems(3) nx(1) by simp
  have fr: "frames_at (mem s1) pt (a + PGSIZE) fs"
  proof -
    have "leaf (mem s1) pt vb = leaf (mem s) pt vb" if "in_pages (a + PGSIZE) (length fs) vb" for vb
      using s1(6) in_pages_bounds [OF that lb] in_pages_next_other [OF nx(1) that] by simp
    then show ?thesis using frames_at_cong [of "a + PGSIZE" fs "mem s1" pt "mem s"] nx(2) lb v(4) by blast
  qed
  have fb: "do_free \<Longrightarrow> freeable s1 pt (if do_free then f # ps else ps) fs"
    using Cons.prems(6) s1(4) kframe_kend [OF s1(3)] by (auto simp: freeable_def page_ok_def)
  have lim': "unat lim = unat (a + PGSIZE) + length fs * 4096" using Cons.prems(4) nx(1) by simp
  from Cons.IH [OF s1(2) nx(2) lb lim' fr fb] obtain s' where
    s': "uvmunmap_loop (length fs) pt (a + PGSIZE) lim do_free e s1 = Ret () e s'"
    "vm_ok s' pt (if do_free then rev fs @ (if do_free then f # ps else ps) else if do_free then f # ps else ps)"
    "kframe s1 s'" "pt_pages (mem s') pt = pt_pages (mem s1) pt"
    "\<forall>x. PGROUNDDOWN x \<notin> pt_pages (mem s1) pt \<longrightarrow> \<not> (do_free \<and> PGROUNDDOWN x \<in> set fs) \<longrightarrow> mem s' x = mem s1 x"
    "\<forall>vb. vb < MAXVA \<longrightarrow> leaf (mem s') pt vb = (if in_pages (a + PGSIZE) (length fs) vb then 0 else leaf (mem s1) pt vb)"
    by blast
  have "leaf (mem s') pt vb = (if in_pages a (length (f # fs)) vb then 0 else leaf (mem s) pt vb)"
    if "vb < MAXVA" for vb using that s'(6) s1(6) inp by simp
  moreover have "uvmunmap_loop (length (f # fs)) pt a lim do_free e s = Ret () e s'"
    using s1(1) s'(1) by (simp del: uvmunmap_loop.simps)
  moreover have "vm_ok s' pt (if do_free then rev (f # fs) @ ps else ps)" using s'(2) by (cases do_free) simp_all
  moreover have "mem s' x = mem s x" if "PGROUNDDOWN x \<notin> pt_pages (mem s) pt"
      "\<not> (do_free \<and> PGROUNDDOWN x \<in> set (f # fs))" for x
    using that s1(4,5) s'(5) by auto
  moreover have "pt_pages (mem s') pt = pt_pages (mem s) pt" using s'(4) s1(4) by simp
  ultimately show ?case using kframe_trans [OF s1(3) s'(3)] by blast
qed

theorem uvmunmap_spec:
  assumes "vm_ok s pt ps" "pg_aligned va" "unat va + length fs * 4096 \<le> 2 ^ 38"
    "unat npages = length fs" "frames_at (mem s) pt va fs" "do_free \<longrightarrow> freeable s pt ps fs"
  shows "\<exists>s'. uvmunmap pt va npages do_free e s = Ret () e s' \<and>
     vm_ok s' pt (if do_free then rev fs @ ps else ps) \<and> kframe s s' \<and>
     (\<forall>x. PGROUNDDOWN x \<notin> pt_pages (mem s) pt \<longrightarrow> \<not> (do_free \<and> PGROUNDDOWN x \<in> set fs) \<longrightarrow> mem s' x = mem s x) \<and>
     (\<forall>vb. vb < MAXVA \<longrightarrow> leaf (mem s') pt vb = (if in_pages va (length fs) vb then 0 else leaf (mem s) pt vb))"
proof -
  have n: "unat (npages * PGSIZE) = length fs * 4096"
    using assms(3,4) by (simp add: PGSIZE_def unat_word_ariths)
  then have lim: "unat (va + npages * PGSIZE) = unat va + length fs * 4096"
    using assms(3) by (simp add: unat_word_ariths)
  have eq: "uvmunmap pt va npages do_free e s =
      uvmunmap_loop (length fs) pt va (va + npages * PGSIZE) do_free e s"
    using assms(2) n unfolding uvmunmap_def pg_aligned_def [symmetric] by simp
  have "do_free \<Longrightarrow> freeable s pt ps fs" using assms(6) by blast
  from uvmunmap_loop_spec [OF assms(1-3) lim assms(5) this, where e = e]
  show ?thesis unfolding eq by blast
qed

end
