(* ===== verification/Usercopy.thy ===== *)
theory Usercopy
  imports Pagetable
begin

unbundle bit_operations_syntax

section \<open>Copying between kernel and user space, and the properties of \<open>vm.c\<close>\<close>

text \<open>
  What a user program sees of memory (\<open>user_byte\<close>), the specifications of \<open>copyin\<close>
  and \<open>copyout\<close> against it, a small concrete address space, and the properties of
  the virtual memory system.
\<close>

subsection \<open>User addresses\<close>

text \<open>The physical page that \<open>walkaddr\<close> finds for \<open>va\<close>, 0 if there is none.\<close>

definition uaddr :: "memory \<Rightarrow> uint64 \<Rightarrow> uint64 \<Rightarrow> uint64" where
  "uaddr m pt va = (if va < MAXVA \<and> valid_pte (leaf m pt va) \<and> leaf m pt va AND PTE_U \<noteq> 0
     then PTE2PA (leaf m pt va) else 0)"

definition pt_ok :: "memory \<Rightarrow> uint64 \<Rightarrow> bool" where
  "pt_ok m pt \<longleftrightarrow> pt_wf m pt \<and> 0 \<notin> pt_pages m pt"

lemma pt_ok_slot:
  assumes "pt_ok m pt" "node m pt (va_path va) = Some t"
  shows "pte_addr t (PX 0 va) \<noteq> 0"
proof
  assume 0: "pte_addr t (PX 0 va) = 0"
  have t: "t \<in> pt_pages m pt" "pg_aligned t"
    using assms by (auto simp: pt_ok_def intro: pt_pagesI [OF va_path_ok] pt_wf_aligned [OF _ va_path_ok])
  then have "in_page t 0" using slot_page [OF t(2) unat_PX_less, of 0 0 va] 0 by simp
  then have "t = 0" using t(2) by (simp add: in_page_iff PGROUNDDOWN_def)
  with t(1) assms(1) show False by (simp add: pt_ok_def)
qed

lemma walkaddr_pure:
  assumes "pt_ok (mem s) pt"
  shows "walkaddr pt va e s = Ret (uaddr (mem s) pt va) e s"
proof (cases "va < MAXVA")
  case True
  show ?thesis
  proof (cases "node (mem s) pt (va_path va)")
    case None
    then show ?thesis
      using True by (simp add: walkaddr_def walk_pure uaddr_def leaf_def valid_pte_iff not_le [symmetric])
  next
    case (Some t)
    then show ?thesis
      using True pt_ok_slot [OF assms Some]
      by (simp add: walkaddr_def walk_pure uaddr_def leaf_def valid_pte_iff load_def not_le [symmetric])
  qed
qed (simp add: walkaddr_def uaddr_def not_le [symmetric])

lemma pg_aligned_PTE2PA [simp]: "pg_aligned (PTE2PA v)"
proof -
  have "drop_bit 12 (push_bit 12 (drop_bit 10 v)) = (drop_bit 10 v AND mask 52 :: uint64)"
    by (rule bit_word_eqI) (auto simp: bit_simps)
  moreover have "push_bit 12 (drop_bit 10 v AND mask 52) = (push_bit 12 (drop_bit 10 v) :: uint64)"
    by (rule bit_word_eqI) (auto simp: bit_simps)
  ultimately show ?thesis by (simp add: pg_aligned_push PTE2PA_def)
qed

lemma pg_aligned_uaddr [simp]: "pg_aligned (uaddr m pt va)"
  by (simp add: uaddr_def)

definition user_pages :: "memory \<Rightarrow> uint64 \<Rightarrow> uint64 set" where
  "user_pages m pt = {f. f \<noteq> 0 \<and> (\<exists>va. uaddr m pt (PGROUNDDOWN va) = f)}"

text \<open>The byte a user program sees at \<open>va\<close>.\<close>

definition user_byte :: "memory \<Rightarrow> uint64 \<Rightarrow> uint64 \<Rightarrow> uint8 option" where
  "user_byte m pt va = (let f = uaddr m pt (PGROUNDDOWN va)
     in if f = 0 then None else Some (m (f + (va - PGROUNDDOWN va))))"

text \<open>Translation does not depend on memory outside the tables.\<close>

lemma uaddr_cong:
  assumes "pt_wf m pt" "\<And>a. PGROUNDDOWN a \<in> pt_pages m pt \<Longrightarrow> m' a = m a"
  shows "uaddr m' pt va = uaddr m pt va" "pt_wf m' pt" "pt_pages m' pt = pt_pages m pt"
proof -
  have same: "m a = m' a" if "t \<in> pt_pages m pt" "in_page t a" for t a
    using that assms by (auto simp: in_page_iff pt_wf_def)
  have n: "node m' pt q = node m pt q" if "pt_path q" for q
    using assms(1) same that by (rule node_cong)
  show "pt_wf m' pt" "pt_pages m' pt = pt_pages m pt" using pt_same [OF assms(1) n] by simp_all
  have "leaf m' pt va = leaf m pt va"
  proof (cases "node m pt (va_path va)")
    case (Some t)
    have "t \<in> pt_pages m pt" "pg_aligned t"
      by (rule pt_pagesI [OF va_path_ok Some], rule pt_wf_aligned [OF assms(1) va_path_ok Some])
    then have "load64 m (pte_addr t (PX 0 va)) = load64 m' (pte_addr t (PX 0 va))"
      by (intro load_slot_cong unat_PX_less same)
    with Some n [OF va_path_ok] show ?thesis by (simp add: leaf_def)
  qed (simp add: leaf_def n)
  then show "uaddr m' pt va = uaddr m pt va" by (simp add: uaddr_def)
qed

subsection \<open>\<open>copyin\<close> and \<open>copyout\<close>\<close>

lemma chunk_page:
  assumes "i < unat (chunk va len)"
  shows "PGROUNDDOWN (va + of_nat i) = PGROUNDDOWN va"
proof -
  have off: "unat (va - PGROUNDDOWN va) = unat va mod 4096" by (rule unat_page_offset)
  have i: "unat va mod 4096 + i < 4096" using assms unfolding unat_chunk by linarith
  have "va + of_nat i - PGROUNDDOWN va = (va - PGROUNDDOWN va) + of_nat i" by (simp add: algebra_simps)
  moreover have "unat ((va - PGROUNDDOWN va) + of_nat i) = unat va mod 4096 + i"
    using off i by (simp add: unat_word_ariths unat_of_nat take_bit_nat_eq_self)
  ultimately have "in_page (PGROUNDDOWN va) (va + of_nat i)"
    using i unfolding in_page_def by (simp only:)
  then show ?thesis by (simp add: in_page_iff)
qed

lemma chunk_next: "chunk va len \<noteq> len \<Longrightarrow> PGROUNDDOWN va + PGSIZE = va + chunk va len"
  by (simp add: chunk_def Let_def split: if_splits)

lemma unat_chunk_int: "unat (ucast (chunk va len) :: uint32) = unat (chunk va len)"
proof -
  have "unat (chunk va len) < 2 ^ 32" using unat_chunk [of va len] by simp
  then show ?thesis by (simp add: unsigned_ucast_eq take_bit_nat_eq_self)
qed

lemma user_byte_chunk:
  assumes "i < unat (chunk va len)"
  shows "user_byte m pt (va + of_nat i) = (let f = uaddr m pt (PGROUNDDOWN va)
     in if f = 0 then None else Some (m (f + (va - PGROUNDDOWN va) + of_nat i)))"
  using chunk_page [OF assms] by (simp add: user_byte_def Let_def algebra_simps)

lemma all_less_split:
  fixes n a :: nat
  assumes "n \<le> a"
  shows "(\<forall>i < a. Q i) \<longleftrightarrow> (\<forall>i < n. Q i) \<and> (\<forall>i < a - n. Q (n + i))"
proof (intro iffI conjI allI impI)
  fix i
  assume *: "(\<forall>i < n. Q i) \<and> (\<forall>i < a - n. Q (n + i))" and "i < a"
  show "Q i"
  proof (cases "i < n")
    case False
    then have "i - n < a - n" "n + (i - n) = i" using \<open>i < a\<close> by auto
    with * show ?thesis by metis
  qed (use * in simp)
qed (use assms in auto)

text \<open>Splitting the bytes of a request at the first page boundary.\<close>

lemma chunk_split:
  assumes "0 < len"
  shows "(\<forall>i < unat len. P (va + of_nat i)) \<longleftrightarrow> (\<forall>i < unat (chunk va len). P (va + of_nat i)) \<and>
     (\<forall>i < unat (len - chunk va len). P (PGROUNDDOWN va + PGSIZE + of_nat i))"
proof -
  let ?n = "chunk va len"
  have n: "unat ?n \<le> unat len" "unat (len - ?n) = unat len - unat ?n"
    using chunk_le [of va len] by (simp_all add: word_le_nat_alt unat_sub)
  have shift: "P (PGROUNDDOWN va + PGSIZE + of_nat i) = P (va + of_nat (unat ?n + i))"
    if "i < unat (len - ?n)" for i
  proof -
    have "?n \<noteq> len" using that by auto
    from chunk_next [OF this] show ?thesis by (simp add: algebra_simps)
  qed
  note all_less_split [OF n(1), of "\<lambda>i. P (va + of_nat i)"]
  with n(2) shift show ?thesis by simp
qed

text \<open>A kernel buffer that overlaps neither page tables nor user pages.\<close>

definition kbuf :: "memory \<Rightarrow> uint64 \<Rightarrow> uint64 \<Rightarrow> uint64 \<Rightarrow> bool" where
  "kbuf m pt b len \<longleftrightarrow> unat b + unat len < 2 ^ 64 \<and>
     (\<forall>x. unat (x - b) < unat len \<longrightarrow> PGROUNDDOWN x \<notin> pt_pages m pt \<union> user_pages m pt)"

definition umem_ok :: "memory \<Rightarrow> uint64 \<Rightarrow> bool" where
  "umem_ok m pt \<longleftrightarrow> pt_ok m pt \<and> (\<forall>f \<in> user_pages m pt. unat f < 2 ^ 63 \<and> f \<notin> pt_pages m pt)"

lemma uaddr_offset:
  assumes "unat f < 2 ^ 63" "pg_aligned f"
  shows "unat (f + (va - PGROUNDDOWN va)) = unat f + unat va mod 4096"
proof -
  have "unat va mod 4096 < 4096" by simp
  then show ?thesis using assms(1) unat_page_offset [of va] by (simp add: unat_word_ariths)
qed

lemma user_addr_page:
  assumes "pg_aligned f"
  shows "PGROUNDDOWN (f + (va - PGROUNDDOWN va)) = f"
proof -
  have "f + (va - PGROUNDDOWN va) - f = va - PGROUNDDOWN va" by simp
  then have "in_page f (f + (va - PGROUNDDOWN va))"
    unfolding in_page_def by (simp only: unat_page_offset)
  with assms show ?thesis by (simp only: in_page_iff)
qed

lemma uaddr_user: "uaddr m pt (PGROUNDDOWN va) \<noteq> 0 \<Longrightarrow> uaddr m pt (PGROUNDDOWN va) \<in> user_pages m pt"
  by (auto simp: user_pages_def)

text \<open>A write outside tables and user pages changes nothing a user can see.\<close>

lemma kernel_write:
  assumes "umem_ok m pt" "\<And>x. PGROUNDDOWN x \<in> pt_pages m pt \<union> user_pages m pt \<Longrightarrow> m' x = m x"
  shows "umem_ok m' pt" "user_byte m' pt va = user_byte m pt va" "uaddr m' pt va = uaddr m pt va"
    "kbuf m' pt b len = kbuf m pt b len"
proof -
  have wf: "pt_wf m pt" using assms(1) by (simp add: umem_ok_def pt_ok_def)
  have u: "uaddr m' pt va = uaddr m pt va" "pt_wf m' pt" "pt_pages m' pt = pt_pages m pt" for va
    by (rule uaddr_cong [OF wf]; simp add: assms(2))+
  have up: "user_pages m' pt = user_pages m pt" by (simp add: user_pages_def u(1))
  show "umem_ok m' pt" using assms(1) u up by (simp add: umem_ok_def pt_ok_def)
  show "uaddr m' pt va = uaddr m pt va" by (rule u)
  show "kbuf m' pt b len = kbuf m pt b len" by (simp add: kbuf_def u up)
  let ?f = "uaddr m pt (PGROUNDDOWN va)"
  have "m' (?f + (va - PGROUNDDOWN va)) = m (?f + (va - PGROUNDDOWN va))" if "?f \<noteq> 0"
    by (rule assms(2)) (simp add: user_addr_page uaddr_user [OF that])
  then show "user_byte m' pt va = user_byte m pt va" by (simp add: user_byte_def Let_def u(1))
qed

lemma kbuf_next:
  assumes "kbuf m pt b len" "n \<le> len"
  shows "kbuf m pt (b + n) (len - n)" "unat (b + n) = unat b + unat n"
proof -
  have n: "unat n \<le> unat len" using assms(2) by (simp add: word_le_nat_alt)
  then show bn: "unat (b + n) = unat b + unat n"
    using assms(1) by (simp add: kbuf_def unat_word_ariths)
  have ln: "unat (len - n) = unat len - unat n" using assms(2) by (simp add: unat_sub)
  have "unat (x - b) < unat len" if "unat (x - (b + n)) < unat (len - n)" for x
  proof -
    have "x - b = (x - (b + n)) + n" by simp
    then have "unat (x - b) = (unat (x - (b + n)) + unat n) mod 2 ^ 64"
      using unat_word_ariths(1) [of "x - (b + n)" n] by simp
    then have "unat (x - b) \<le> unat (x - (b + n)) + unat n" by simp
    with that ln n show ?thesis by linarith
  qed
  with assms(1) bn ln n show "kbuf m pt (b + n) (len - n)" by (auto simp: kbuf_def)
qed

lemma range_split:
  fixes b n len x :: uint64
  assumes "n \<le> len"
  shows "unat (x - b) < unat len \<longleftrightarrow> unat (x - b) < unat n \<or> unat (x - (b + n)) < unat (len - n)"
    "unat (x - b) < unat n \<Longrightarrow> \<not> unat (x - (b + n)) < unat (len - n)"
proof -
  have n: "unat n \<le> unat len" "unat (len - n) = unat len - unat n"
    using assms by (simp_all add: word_le_nat_alt unat_sub)
  have l: "unat len < 2 ^ 64" using unsigned_less [of len] by simp
  define d where "d = unat (x - b)"
  have "x - (b + n) = (x - b) - n" by simp
  then have e: "unat (x - (b + n)) = (if unat n \<le> d then d - unat n else d + 2 ^ 64 - unat n)"
    unfolding d_def by (simp only: unat_diff_mod)
  have "d < 2 ^ 64" unfolding d_def using unsigned_less [of "x - b"] by simp
  with e n l show "d < unat len \<longleftrightarrow> d < unat n \<or> unat (x - (b + n)) < unat (len - n)"
    "d < unat n \<Longrightarrow> \<not> unat (x - (b + n)) < unat (len - n)"
    by (auto split: if_splits)
qed

lemma copyin_result:
  assumes "umem_ok (mem s) pt" "kbuf (mem s) pt dst len"
  shows "\<exists>m'. copyin pt dst srcva len e s =
       Ret (if \<forall>i < unat len. user_byte (mem s) pt (srcva + of_nat i) \<noteq> None then 0 else - 1) e (s\<lparr>mem := m'\<rparr>) \<and>
     (\<forall>x. \<not> unat (x - dst) < unat len \<longrightarrow> m' x = mem s x) \<and>
     ((\<forall>i < unat len. user_byte (mem s) pt (srcva + of_nat i) \<noteq> None) \<longrightarrow>
      (\<forall>i < unat len. Some (m' (dst + of_nat i)) = user_byte (mem s) pt (srcva + of_nat i)))"
  using assms
proof (induction pt dst srcva len arbitrary: s rule: copyin.induct)
  case (1 pt dst srcva len)
  show ?case
  proof (cases "0 < len")
    case False
    then have "len = 0" using word_neq_0_conv by blast
    then show ?thesis by (intro exI [of _ "mem s"]) (simp add: copyin.simps)
  next
    case len: True
    let ?m = "mem s" and ?va0 = "PGROUNDDOWN srcva" and ?n = "chunk srcva len"
    let ?f = "uaddr (mem s) pt ?va0"
    have ok: "pt_ok ?m pt" using 1(2) by (simp add: umem_ok_def)
    have n: "?n \<le> len" "0 < unat ?n" "unat ?n \<le> unat len"
      using chunk_le [of srcva len] chunk_pos [OF len] by (simp_all add: word_le_nat_alt)
    show ?thesis
    proof (cases "?f = 0")
      case True
      then have "user_byte ?m pt (srcva + of_nat 0) = None" by (simp add: user_byte_def)
      moreover have "0 < unat len" using n by linarith
      ultimately have "\<not> (\<forall>i < unat len. user_byte ?m pt (srcva + of_nat i) \<noteq> None)" by blast
      then show ?thesis
        using True len walkaddr_pure [OF ok]
        by (intro exI [of _ ?m]) (simp add: copyin.simps [of pt dst srcva len] Let_def del: not_None_eq, blast)
    next
      case f: False
      let ?m1 = "memmove dst (?f + (srcva - ?va0)) (ucast ?n) ?m"
      let ?s = "s\<lparr>mem := ?m1\<rparr>"
      have fu: "?f \<in> user_pages ?m pt" using f by (rule uaddr_user)
      then have fb: "unat ?f < 2 ^ 63" using 1(2) by (simp add: umem_ok_def)
      have nb: "unat ?n \<le> 4096" by (simp add: unat_chunk)
      have b: "unat dst + unat len < 2 ^ 64" using 1(3) by (simp add: kbuf_def)
      have m1: "?m1 x = (if unat (x - dst) < unat ?n then ?m (?f + (srcva - ?va0) + (x - dst)) else ?m x)" for x
      proof -
        have "unat srcva mod 4096 < 4096" by simp
        then have "unat (?f + (srcva - ?va0)) + unat (ucast ?n :: uint32) < 2 ^ 64"
          unfolding uaddr_offset [OF fb pg_aligned_uaddr] unat_chunk_int using fb nb by simp
        moreover have "unat dst + unat (ucast ?n :: uint32) < 2 ^ 64"
          unfolding unat_chunk_int using b n(3) by linarith
        ultimately show ?thesis unfolding unat_chunk_int [symmetric] by (rule memmove_apply)
      qed
      have keep: "?m1 x = ?m x" if "PGROUNDDOWN x \<in> pt_pages ?m pt \<union> user_pages ?m pt" for x
      proof -
        have "\<not> unat (x - dst) < unat len" using 1(3) that by (auto simp: kbuf_def)
        with n(3) have "\<not> unat (x - dst) < unat ?n" by linarith
        with m1 show ?thesis by simp
      qed
      note kw = kernel_write [OF 1(2) keep]
      have kb: "kbuf (mem ?s) pt (dst + ?n) (len - ?n)" using kbuf_next(1) [OF 1(3) n(1)] kw(4) by simp
      have run: "copyin pt dst srcva len e s = copyin pt (dst + ?n) (?va0 + PGSIZE) (len - ?n) e ?s"
        using len f walkaddr_pure [OF ok]
        by (simp add: copyin.simps [of pt dst srcva len] Let_def upd_mem_def)
      have um: "umem_ok (mem ?s) pt" using kw(1) by simp
      let ?P = "\<lambda>v. user_byte ?m pt v \<noteq> None"
      have ub: "user_byte (mem ?s) pt v = user_byte ?m pt v" for v using kw(2) [of v] by simp
      have "\<exists>m'. copyin pt (dst + ?n) (?va0 + PGSIZE) (len - ?n) e ?s =
          Ret (if \<forall>i < unat (len - ?n). ?P (?va0 + PGSIZE + of_nat i) then 0 else - 1) e (?s\<lparr>mem := m'\<rparr>) \<and>
        (\<forall>x. \<not> unat (x - (dst + ?n)) < unat (len - ?n) \<longrightarrow> m' x = mem ?s x) \<and>
        ((\<forall>i < unat (len - ?n). ?P (?va0 + PGSIZE + of_nat i)) \<longrightarrow>
         (\<forall>i < unat (len - ?n). Some (m' (dst + ?n + of_nat i)) = user_byte ?m pt (?va0 + PGSIZE + of_nat i)))"
        using 1(1) [OF len refl f refl um kb] unfolding ub .
      then obtain m' where
        m': "copyin pt (dst + ?n) (?va0 + PGSIZE) (len - ?n) e ?s =
          Ret (if \<forall>i < unat (len - ?n). ?P (?va0 + PGSIZE + of_nat i) then 0 else - 1) e (s\<lparr>mem := m'\<rparr>)"
        "\<forall>x. \<not> unat (x - (dst + ?n)) < unat (len - ?n) \<longrightarrow> m' x = ?m1 x"
        "(\<forall>i < unat (len - ?n). ?P (?va0 + PGSIZE + of_nat i)) \<longrightarrow>
         (\<forall>i < unat (len - ?n). Some (m' (dst + ?n + of_nat i)) = user_byte ?m pt (?va0 + PGSIZE + of_nat i))"
        by auto
      have first: "?P (srcva + of_nat i)" if "i < unat ?n" for i
        using user_byte_chunk [OF that] f by (simp add: Let_def)
      then have all: "(\<forall>i < unat len. ?P (srcva + of_nat i)) \<longleftrightarrow>
          (\<forall>i < unat (len - ?n). ?P (?va0 + PGSIZE + of_nat i))"
        using chunk_split [OF len, of ?P srcva] by blast
      have "m' x = ?m x" if "\<not> unat (x - dst) < unat len" for x
        using that m'(2) m1 range_split(1) [OF n(1), where b = dst and x = x] by simp
      moreover have "Some (m' (dst + of_nat i)) = user_byte ?m pt (srcva + of_nat i)"
        if all1: "\<forall>i < unat len. ?P (srcva + of_nat i)" and i: "i < unat len" for i
      proof (cases "i < unat ?n")
        case True
        have di: "unat (dst + of_nat i - dst) = i"
        proof -
          have "unat len < 2 ^ 64" using unsigned_less [of len] by simp
          with i have "i < 2 ^ 64" by linarith
          then show ?thesis by (simp add: unat_of_nat take_bit_nat_eq_self)
        qed
        have "m' (dst + of_nat i) = ?m1 (dst + of_nat i)"
          using m'(2) range_split(2) [OF n(1), where b = dst and x = "dst + of_nat i"] True di by simp
        also have "\<dots> = ?m (?f + (srcva - ?va0) + of_nat i)" using m1 True di by simp
        finally show ?thesis using user_byte_chunk [OF True, of ?m pt] f by (simp add: Let_def)
      next
        case False
        define j where "j = i - unat ?n"
        have j: "j < unat (len - ?n)" "i = unat ?n + j"
          using False i n(1,3) by (simp_all add: j_def unat_sub)
        then have "?n \<noteq> len" by auto
        from chunk_next [OF this] have va: "?va0 + PGSIZE + of_nat j = srcva + of_nat i"
          unfolding j(2) by (simp add: algebra_simps)
        have "dst + ?n + of_nat j = dst + of_nat i" unfolding j(2) by (simp add: algebra_simps)
        then show ?thesis using m'(3) all all1 j(1) va by metis
      qed
      ultimately show ?thesis
        unfolding run all by (intro exI [of _ m']) (use m'(1) all in auto)
    qed
  qed
qed

text \<open>No physical page is mapped at two user addresses.\<close>

definition user_inj :: "memory \<Rightarrow> uint64 \<Rightarrow> bool" where
  "user_inj m pt \<longleftrightarrow> (\<forall>va vb. uaddr m pt (PGROUNDDOWN va) \<noteq> 0 \<longrightarrow>
     uaddr m pt (PGROUNDDOWN va) = uaddr m pt (PGROUNDDOWN vb) \<longrightarrow> PGROUNDDOWN va = PGROUNDDOWN vb)"

lemma user_write_chunk:
  assumes um: "umem_ok m pt" "user_inj m pt" and f: "uaddr m pt (PGROUNDDOWN va) \<noteq> 0"
    and n: "n = chunk va len"
    and m1: "\<And>x. m1 x = (if unat (x - (uaddr m pt (PGROUNDDOWN va) + (va - PGROUNDDOWN va))) < unat n
        then m (src + (x - (uaddr m pt (PGROUNDDOWN va) + (va - PGROUNDDOWN va)))) else m x)"
  shows "PGROUNDDOWN x \<noteq> uaddr m pt (PGROUNDDOWN va) \<Longrightarrow> m1 x = m x"
    "uaddr m1 pt vb = uaddr m pt vb" "pt_pages m1 pt = pt_pages m pt" "pt_wf m1 pt"
    "user_byte m1 pt vb = (if unat (vb - va) < unat n then Some (m (src + (vb - va))) else user_byte m pt vb)"
proof -
  let ?f = "uaddr m pt (PGROUNDDOWN va)" and ?o = "va - PGROUNDDOWN va"
  have page: "PGROUNDDOWN x = ?f" if x: "unat (x - (?f + ?o)) < unat n" for x
  proof -
    define i where "i = unat (x - (?f + ?o))"
    have "x = ?f + ?o + of_nat i" by (simp add: i_def)
    moreover have "unat (x - ?f) = unat va mod 4096 + i"
    proof -
      have "unat va mod 4096 + i < 4096" using x unfolding n unat_chunk i_def by linarith
      moreover have "x - ?f = ?o + of_nat i" using \<open>x = ?f + ?o + of_nat i\<close> by simp
      ultimately show ?thesis
        using unat_page_offset [of va] by (simp add: unat_word_ariths unat_of_nat take_bit_nat_eq_self)
    qed
    moreover have "unat va mod 4096 + i < 4096" using x unfolding n unat_chunk i_def by linarith
    ultimately have "in_page ?f x" by (simp add: in_page_def)
    then show ?thesis by (simp add: in_page_iff)
  qed
  show out: "m1 x = m x" if "PGROUNDDOWN x \<noteq> ?f" for x
    using that m1 [of x] page [of x] by (simp split: if_splits)
  have "?f \<notin> pt_pages m pt" using um(1) uaddr_user [OF f] by (simp add: umem_ok_def)
  then have same: "m1 x = m x" if "PGROUNDDOWN x \<in> pt_pages m pt" for x using that by (intro out) auto
  have wf: "pt_wf m pt" using um(1) by (simp add: umem_ok_def pt_ok_def)
  have u: "uaddr m1 pt vb = uaddr m pt vb" "pt_wf m1 pt" "pt_pages m1 pt = pt_pages m pt" for vb
    by (rule uaddr_cong [OF wf]; erule same)+
  then show "uaddr m1 pt vb = uaddr m pt vb" "pt_pages m1 pt = pt_pages m pt" "pt_wf m1 pt" by simp_all
  let ?g = "uaddr m pt (PGROUNDDOWN vb)"
  let ?y = "?g + (vb - PGROUNDDOWN vb)"
  have A: "unat (?y - (?f + ?o)) < unat n \<and> ?g \<noteq> 0 \<longleftrightarrow> unat (vb - va) < unat n"
  proof (cases "PGROUNDDOWN vb = PGROUNDDOWN va")
    case True
    then show ?thesis using f by (simp add: algebra_simps)
  next
    case False
    have "\<not> unat (vb - va) < unat n"
    proof
      assume "unat (vb - va) < unat n"
      from chunk_page [OF this [unfolded n]] False show False by simp
    qed
    moreover have "?g \<noteq> 0 \<Longrightarrow> PGROUNDDOWN ?y \<noteq> ?f"
      using False um(2) by (auto simp: user_addr_page user_inj_def)
    ultimately show ?thesis using page by blast
  qed
  have B: "unat (vb - va) < unat n \<Longrightarrow> ?y - (?f + ?o) = vb - va"
  proof -
    assume "unat (vb - va) < unat n"
    from chunk_page [OF this [unfolded n]] have "PGROUNDDOWN vb = PGROUNDDOWN va" by simp
    then show ?thesis by (simp add: algebra_simps)
  qed
  show "user_byte m1 pt vb =
      (if unat (vb - va) < unat n then Some (m (src + (vb - va))) else user_byte m pt vb)"
  proof (cases "unat (vb - va) < unat n")
    case True
    then have g: "?g \<noteq> 0" "unat (?y - (?f + ?o)) < unat n" using A by blast+
    then have "m1 ?y = m (src + (?y - (?f + ?o)))" using m1 [of ?y] by simp
    also have "\<dots> = m (src + (vb - va))" by (simp only: B [OF True])
    finally show ?thesis using True g(1) by (simp add: user_byte_def Let_def u(1))
  next
    case False
    then have "?g = 0 \<or> \<not> unat (?y - (?f + ?o)) < unat n" using A by blast
    then have "?g = 0 \<or> m1 ?y = m ?y" using m1 [of ?y] by auto
    with False show ?thesis by (auto simp: user_byte_def Let_def u(1))
  qed
qed

lemma copyout_result:
  assumes "umem_ok (mem s) pt" "user_inj (mem s) pt" "kbuf (mem s) pt src len"
  shows "\<exists>m'. copyout pt dstva src len e s =
       Ret (if \<forall>i < unat len. user_byte (mem s) pt (dstva + of_nat i) \<noteq> None then 0 else - 1) e (s\<lparr>mem := m'\<rparr>) \<and>
     (\<forall>x. PGROUNDDOWN x \<notin> user_pages (mem s) pt \<longrightarrow> m' x = mem s x) \<and>
     (\<forall>va. uaddr m' pt va = uaddr (mem s) pt va) \<and>
     ((\<forall>i < unat len. user_byte (mem s) pt (dstva + of_nat i) \<noteq> None) \<longrightarrow>
      (\<forall>va. user_byte m' pt va = (if unat (va - dstva) < unat len
         then Some (mem s (src + (va - dstva))) else user_byte (mem s) pt va)))"
  using assms
proof (induction pt dstva src len arbitrary: s rule: copyout.induct)
  case (1 pt dstva src len)
  show ?case
  proof (cases "0 < len")
    case False
    then have "len = 0" using word_neq_0_conv by blast
    then show ?thesis by (intro exI [of _ "mem s"]) (simp add: copyout.simps)
  next
    case len: True
    let ?m = "mem s" and ?va0 = "PGROUNDDOWN dstva" and ?n = "chunk dstva len"
    let ?f = "uaddr (mem s) pt ?va0"
    have ok: "pt_ok ?m pt" using 1(2) by (simp add: umem_ok_def)
    have n: "?n \<le> len" "0 < unat ?n" "unat ?n \<le> unat len"
      using chunk_le [of dstva len] chunk_pos [OF len] by (simp_all add: word_le_nat_alt)
    show ?thesis
    proof (cases "?f = 0")
      case True
      then have "user_byte ?m pt (dstva + of_nat 0) = None" by (simp add: user_byte_def)
      moreover have "0 < unat len" using n by linarith
      ultimately have "\<not> (\<forall>i < unat len. user_byte ?m pt (dstva + of_nat i) \<noteq> None)" by blast
      then show ?thesis
        using True len walkaddr_pure [OF ok]
        by (intro exI [of _ ?m]) (simp add: copyout.simps [of pt dstva src len] Let_def del: not_None_eq, blast)
    next
      case f: False
      let ?m1 = "memmove (?f + (dstva - ?va0)) src (ucast ?n) ?m"
      let ?s = "s\<lparr>mem := ?m1\<rparr>"
      have fb: "unat ?f < 2 ^ 63" using 1(2) uaddr_user [OF f] by (simp add: umem_ok_def)
      have nb: "unat ?n \<le> 4096" by (simp add: unat_chunk)
      have b: "unat src + unat len < 2 ^ 64" using 1(4) by (simp add: kbuf_def)
      have m1: "?m1 x = (if unat (x - (?f + (dstva - ?va0))) < unat ?n
          then ?m (src + (x - (?f + (dstva - ?va0)))) else ?m x)" for x
      proof -
        have "unat dstva mod 4096 < 4096" by simp
        then have "unat (?f + (dstva - ?va0)) + unat (ucast ?n :: uint32) < 2 ^ 64"
          unfolding uaddr_offset [OF fb pg_aligned_uaddr] unat_chunk_int using fb nb by simp
        moreover have "unat src + unat (ucast ?n :: uint32) < 2 ^ 64"
          unfolding unat_chunk_int using b n(3) by linarith
        ultimately show ?thesis unfolding unat_chunk_int [symmetric] by (intro memmove_apply)
      qed
      note uw = user_write_chunk [OF 1(2,3) f refl m1]
      have up: "user_pages ?m1 pt = user_pages ?m pt" by (simp add: user_pages_def uw(2))
      have um: "umem_ok (mem ?s) pt" using 1(2) uw(3,4) up by (simp add: umem_ok_def pt_ok_def)
      have inj: "user_inj (mem ?s) pt" using 1(3) by (simp add: user_inj_def uw(2))
      have kb: "kbuf (mem ?s) pt (src + ?n) (len - ?n)"
        using kbuf_next(1) [OF 1(4) n(1)] up uw(3) by (simp add: kbuf_def)
      have run: "copyout pt dstva src len e s = copyout pt (?va0 + PGSIZE) (src + ?n) (len - ?n) e ?s"
        using len f walkaddr_pure [OF ok]
        by (simp add: copyout.simps [of pt dstva src len] Let_def upd_mem_def)
      let ?P = "\<lambda>v. user_byte ?m pt v \<noteq> None"
      have ub: "user_byte (mem ?s) pt v \<noteq> None \<longleftrightarrow> ?P v" for v by (simp add: user_byte_def Let_def uw(2))
      have "\<exists>m'. copyout pt (?va0 + PGSIZE) (src + ?n) (len - ?n) e ?s =
          Ret (if \<forall>i < unat (len - ?n). ?P (?va0 + PGSIZE + of_nat i) then 0 else - 1) e (?s\<lparr>mem := m'\<rparr>) \<and>
        (\<forall>x. PGROUNDDOWN x \<notin> user_pages (mem ?s) pt \<longrightarrow> m' x = mem ?s x) \<and>
        (\<forall>va. uaddr m' pt va = uaddr (mem ?s) pt va) \<and>
        ((\<forall>i < unat (len - ?n). ?P (?va0 + PGSIZE + of_nat i)) \<longrightarrow>
         (\<forall>va. user_byte m' pt va = (if unat (va - (?va0 + PGSIZE)) < unat (len - ?n)
            then Some (mem ?s (src + ?n + (va - (?va0 + PGSIZE)))) else user_byte (mem ?s) pt va)))"
        using 1(1) [OF len refl f refl um inj kb] unfolding ub .
      then obtain m' where m': "copyout pt (?va0 + PGSIZE) (src + ?n) (len - ?n) e ?s =
          Ret (if \<forall>i < unat (len - ?n). ?P (?va0 + PGSIZE + of_nat i) then 0 else - 1) e (s\<lparr>mem := m'\<rparr>)"
        "\<forall>x. PGROUNDDOWN x \<notin> user_pages ?m pt \<longrightarrow> m' x = ?m1 x"
        "\<forall>va. uaddr m' pt va = uaddr ?m pt va"
        "(\<forall>i < unat (len - ?n). ?P (?va0 + PGSIZE + of_nat i)) \<longrightarrow>
         (\<forall>va. user_byte m' pt va = (if unat (va - (?va0 + PGSIZE)) < unat (len - ?n)
            then Some (?m1 (src + ?n + (va - (?va0 + PGSIZE)))) else user_byte ?m1 pt va))"
        using uw(2) up by (auto simp del: not_None_eq)
      have first: "?P (dstva + of_nat i)" if "i < unat ?n" for i
        using user_byte_chunk [OF that] f by (simp add: Let_def)
      then have all: "(\<forall>i < unat len. ?P (dstva + of_nat i)) \<longleftrightarrow>
          (\<forall>i < unat (len - ?n). ?P (?va0 + PGSIZE + of_nat i))"
        using chunk_split [OF len, of ?P dstva] by blast
      have out: "?m1 x = ?m x" if "PGROUNDDOWN x \<notin> user_pages ?m pt" for x
        using that uaddr_user [OF f] by (intro uw(1)) auto
      have "m' x = ?m x" if "PGROUNDDOWN x \<notin> user_pages ?m pt" for x using that out m'(2) by simp
      moreover have "user_byte m' pt va = (if unat (va - dstva) < unat len
         then Some (?m (src + (va - dstva))) else user_byte ?m pt va)"
        if all1: "\<forall>i < unat len. ?P (dstva + of_nat i)" for va
      proof (cases "?n = len")
        case True
        then show ?thesis using m'(4) all all1 uw(5) by simp
      next
        case False
        have e: "?va0 + PGSIZE = dstva + ?n" by (rule chunk_next [OF False])
        have e2: "src + ?n + (va - (dstva + ?n)) = src + (va - dstva)" by simp
        have "?m1 (src + (va - dstva)) = ?m (src + (va - dstva))" if "unat (va - dstva) < unat len"
          using 1(4) that by (intro out) (auto simp: kbuf_def)
        then show ?thesis
          using m'(4) all all1 uw(5) [of va] range_split [OF n(1), where b = dstva and x = va]
          unfolding e e2 by (auto simp del: not_None_eq)
      qed
      ultimately show ?thesis
        unfolding run all by (intro exI [of _ m']) (use m'(1,3) all in auto)
    qed
  qed
qed

subsection \<open>A small address space\<close>

text \<open>
  A page table at \<open>0x87ff0000\<close> that maps the user page \<open>0x1000\<close> to the physical page
  \<open>0x87ff1000\<close>, built with the steps of \<open>walk\<close> and \<open>mappages\<close>; one page is free.
\<close>

lemma vm_ok_freed:
  assumes "vm_ok s pt ps" "page_ok s f" "f \<notin> set ps" "f \<notin> pt_pages (mem s) pt"
  shows "vm_ok (freed f s) pt (f # ps)" "pt_pages (mem (freed f s)) pt = pt_pages (mem s) pt"
    "leaf (mem (freed f s)) pt va = leaf (mem s) pt va" "kframe s (freed f s)"
  using freed_vm_ok [OF assms] by simp_all

abbreviation "root0 \<equiv> 0x87ff0000 :: uint64"

abbreviation "frame0 \<equiv> 0x87ff1000 :: uint64"

definition vm_free0 :: kstate where
  "vm_free0 = freed 0x87ffd000 (freed 0x87ffe000 (freed 0x87fff000 kmem0))"

definition vm_l1 :: kstate where "vm_l1 = installed root0 0 0x87ffd000 vm_free0"

definition vm_l2 :: kstate where "vm_l2 = installed 0x87ffd000 0 0x87ffe000 vm_l1"

definition vm_map0 :: kstate where
  "vm_map0 = vm_l2\<lparr>mem := store64 (pte_addr 0x87ffe000 1)
     (PA2PTE frame0 OR (PTE_R OR PTE_W OR PTE_U) OR PTE_V) (mem vm_l2)\<rparr>"

lemma kmem0_page: "page_ok kmem0 p \<longleftrightarrow> pg_aligned p \<and> 0x80021000 \<le> p \<and> p < 0x88000000"
  by (simp add: page_ok_def kmem0_simps layout_defs)

lemma load64_kmem0: "load64 (mem kmem0) a = 0"
  by (rule load64_zero) (simp add: kmem0_def)

lemma node_kmem0: "node (mem kmem0) pt p = Some t \<longleftrightarrow> p = [] \<and> t = pt"
  by (cases p) (auto simp: load64_kmem0)

lemma pt_pages_kmem0: "pt_pages (mem kmem0) root0 = {root0}"
  by (auto simp: pt_pages_def node_kmem0 intro: exI [of _ "[]"])

lemma vm_free0_ok:
  "vm_ok vm_free0 root0 [0x87ffd000, 0x87ffe000, 0x87fff000]" "pt_pages (mem vm_free0) root0 = {root0}"
  "leaf (mem vm_free0) root0 va = 0" "page_ok vm_free0 p = page_ok kmem0 p"
proof -
  have 0: "vm_ok kmem0 root0 []"
    by (simp add: vm_ok_def kmem0_simps pt_wf_def pt_pages_kmem0 node_kmem0 kmem0_page pg_aligned_iff)
  have l0: "leaf (mem kmem0) root0 va = 0"
    by (simp add: leaf_def load64_kmem0 split: option.split)
  have ok: "page_ok kmem0 0x87fff000" "page_ok kmem0 0x87ffe000" "page_ok kmem0 0x87ffd000"
    by (simp_all add: kmem0_page pg_aligned_iff)
  note 1 = vm_ok_freed [OF 0 ok(1)]
  note 2 = vm_ok_freed [OF 1(1), of "0x87ffe000"]
  note 3 = vm_ok_freed [OF 2(1), of "0x87ffd000"]
  show "vm_ok vm_free0 root0 [0x87ffd000, 0x87ffe000, 0x87fff000]"
    "pt_pages (mem vm_free0) root0 = {root0}" "leaf (mem vm_free0) root0 va = 0"
    unfolding vm_free0_def using 1 2 3 ok pt_pages_kmem0 l0 by simp_all
  show "page_ok vm_free0 p = page_ok kmem0 p" by (simp add: vm_free0_def)
qed

lemma installed_zero:
  assumes "pg_aligned t" "pg_aligned c" "t \<noteq> c" "unat i < 512"
  shows "zero_page (mem (installed t i c s)) c"
  unfolding zero_page_def
proof (intro allI impI)
  fix a
  assume "in_page c a"
  then have "\<not> in_page t a" using assms(1-3) by (auto simp: in_page_iff)
  with \<open>in_page c a\<close> assms(1,4) show "mem (installed t i c s) a = 0"
    by (simp add: installed_def store_slot_outside memset_page)
qed

lemma va_path0: "va_path 0x1000 = [0, 0]" "PX 0 0x1000 = 1"
  by (simp_all add: va_path_def PX_take take_bit_eq_mask mask_eq_exp_minus_1)

lemma vm_l1_ok:
  "vm_step root0 vm_free0 [0x87ffd000, 0x87ffe000, 0x87fff000] vm_l1 [0x87ffe000, 0x87fff000]"
  "node (mem vm_l1) root0 [0] = Some 0x87ffd000" "leaf (mem vm_l1) root0 va = 0"
  "entry (mem vm_l1) 0x87ffd000 0 = None"
proof -
  have p: "pt_path ([] @ [0])" by (simp add: pt_path_def)
  have "load64 (mem vm_free0) (pte_addr root0 0) = 0"
  proof -
    have "mem vm_free0 a = mem kmem0 a" if "in_page root0 a" for a
    proof -
      have "PGROUNDDOWN a = root0" using that by (simp add: in_page_iff pg_aligned_iff)
      then have "\<not> in_page 0x87fff000 a" "\<not> in_page 0x87ffe000 a" "\<not> in_page 0x87ffd000 a"
        by (simp_all add: in_page_iff pg_aligned_iff)
      then show ?thesis by (simp add: vm_free0_def taken_bytes pg_aligned_iff)
    qed
    then have "load64 (mem vm_free0) (pte_addr root0 0) = load64 (mem kmem0) (pte_addr root0 0)"
      by (intro load_slot_cong) (simp_all add: pg_aligned_iff)
    then show ?thesis by (simp add: load64_kmem0)
  qed
  then have e: "entry (mem vm_free0) root0 0 = None" by (simp add: entry_def)
  note i = installed_step [OF vm_free0_ok(1) p node.simps(1) e]
  show "vm_step root0 vm_free0 [0x87ffd000, 0x87ffe000, 0x87fff000] vm_l1 [0x87ffe000, 0x87fff000]"
    "node (mem vm_l1) root0 [0] = Some 0x87ffd000" "leaf (mem vm_l1) root0 va = 0"
    using i vm_free0_ok(3) by (simp_all add: vm_l1_def)
  show "entry (mem vm_l1) 0x87ffd000 0 = None"
    unfolding vm_l1_def by (rule entry_zero_page [OF installed_zero]) (simp_all add: pg_aligned_iff)
qed

lemma vm_l2_ok:
  "vm_step root0 vm_free0 [0x87ffd000, 0x87ffe000, 0x87fff000] vm_l2 [0x87fff000]"
  "node (mem vm_l2) root0 (va_path 0x1000) = Some 0x87ffe000" "leaf (mem vm_l2) root0 va = 0"
proof -
  have ok: "vm_ok vm_l1 root0 [0x87ffe000, 0x87fff000]" using vm_l1_ok(1) by (simp add: vm_step_def)
  have p: "pt_path ([0] @ [0])" by (simp add: pt_path_def)
  note i = installed_step [OF ok p vm_l1_ok(2,4)]
  show "vm_step root0 vm_free0 [0x87ffd000, 0x87ffe000, 0x87fff000] vm_l2 [0x87fff000]"
    using vm_step_trans [OF vm_l1_ok(1) i(1)] by (simp add: vm_l2_def)
  show "node (mem vm_l2) root0 (va_path 0x1000) = Some 0x87ffe000" "leaf (mem vm_l2) root0 va = 0"
    using i(2,3) vm_l1_ok(3) by (simp_all add: vm_l2_def va_path0)
qed

lemma vm_map0_ok:
  "vm_step root0 vm_free0 [0x87ffd000, 0x87ffe000, 0x87fff000] vm_map0 [0x87fff000]"
  "vm_ok vm_map0 root0 [0x87fff000]"
  "vb < MAXVA \<Longrightarrow> leaf (mem vm_map0) root0 vb = (if PGROUNDDOWN vb = 0x1000
     then PA2PTE frame0 OR (PTE_R OR PTE_W OR PTE_U) OR PTE_V else 0)"
proof -
  have ok: "vm_ok vm_l2 root0 [0x87fff000]" using vm_l2_ok(1) by (simp add: vm_step_def)
  have va: "(0x1000 :: uint64) < MAXVA" "PGROUNDDOWN 0x1000 = 0x1000"
    by (simp_all add: MAXVA_def pg_aligned_iff)
  show st: "vm_step root0 vm_free0 [0x87ffd000, 0x87ffe000, 0x87fff000] vm_map0 [0x87fff000]"
    using vm_step_trans [OF vm_l2_ok(1) leaf_store_step [OF ok vm_l2_ok(2) va(1)]]
    by (simp add: vm_map0_def va_path0)
  then show "vm_ok vm_map0 root0 [0x87fff000]" by (simp add: vm_step_def)
  have "pt_wf (mem vm_l2) root0" using ok by (simp add: vm_ok_def)
  from leaf_store(4) [OF this vm_l2_ok(2) va(1)]
  show "leaf (mem vm_map0) root0 vb = (if PGROUNDDOWN vb = 0x1000
     then PA2PTE frame0 OR (PTE_R OR PTE_W OR PTE_U) OR PTE_V else 0)" if "vb < MAXVA"
    using that va(2) vm_l2_ok(3) by (simp add: vm_map0_def va_path0)
qed

lemma pte0:
  defines "v \<equiv> PA2PTE frame0 OR (PTE_R OR PTE_W OR PTE_U) OR PTE_V"
  shows "valid_pte v" "PTE2PA v = frame0" "PTE_FLAGS v \<noteq> PTE_V" "v AND PTE_U \<noteq> 0"
  by (simp_all add: v_def PA2PTE_def PTE2PA_def PTE_FLAGS_def layout_defs valid_pte_def)

lemma uaddr0: "uaddr (mem vm_map0) root0 va = (if PGROUNDDOWN va = 0x1000 then frame0 else 0)"
proof -
  have "va < MAXVA" if "PGROUNDDOWN va = 0x1000"
  proof -
    have "unat va div 4096 * 4096 = 4096" using that by (simp add: unat_PGROUNDDOWN [symmetric])
    then have "unat va div 4096 = 1" by simp
    then have "unat va < 8192" using dividend_less_div_times [of 4096 "unat va"] by simp
    then show ?thesis by (simp add: MAXVA_def word_less_nat_alt)
  qed
  then show ?thesis using vm_map0_ok(3) [of va] by (auto simp: uaddr_def pte0)
qed

lemma user_pages0: "user_pages (mem vm_map0) root0 = {frame0}"
proof -
  have "PGROUNDDOWN 0x1000 = (0x1000 :: uint64)" by (simp add: pg_aligned_iff)
  then show ?thesis by (auto simp: user_pages_def uaddr0 intro: exI [of _ "0x1000"])
qed

lemma pt_pages0: "pt_pages (mem vm_map0) root0 \<subseteq> {root0, 0x87ffd000, 0x87ffe000, 0x87fff000}"
  using vm_map0_ok(1) vm_free0_ok(2) by (auto simp: vm_step_def)

lemma vm_map0_user: "umem_ok (mem vm_map0) root0" "user_inj (mem vm_map0) root0"
proof -
  have "pt_wf (mem vm_map0) root0" using vm_map0_ok(2) by (simp add: vm_ok_def)
  then show "umem_ok (mem vm_map0) root0"
    using pt_pages0 by (auto simp: umem_ok_def pt_ok_def user_pages0)
  show "user_inj (mem vm_map0) root0" by (auto simp: user_inj_def uaddr0 split: if_splits)
qed

lemma kbuf0: "kbuf (mem vm_map0) root0 0x80050000 16"
proof -
  have "PGROUNDDOWN x = 0x80050000" if "unat (x - 0x80050000) < 16" for x :: uint64
  proof -
    have "in_page 0x80050000 x" using that by (simp add: in_page_def)
    then show ?thesis by (simp add: in_page_iff pg_aligned_iff)
  qed
  then show ?thesis using pt_pages0 by (auto simp: kbuf_def user_pages0)
qed

lemma user_bytes0:
  assumes "i < 16"
  shows "user_byte (mem vm_map0) root0 (0x1008 + of_nat i) \<noteq> None"
proof -
  have "PGROUNDDOWN (0x1008 + of_nat i) = (0x1000 :: uint64)"
  proof -
    have "0x1008 + of_nat i - 0x1000 = (of_nat (8 + i) :: uint64)" by simp
    then have "in_page 0x1000 (0x1008 + of_nat i)"
      unfolding in_page_def using assms by (simp only: unat_of_nat) (simp add: take_bit_nat_eq_self)
    then show ?thesis by (simp add: in_page_iff pg_aligned_iff)
  qed
  then show ?thesis by (simp add: user_byte_def uaddr0 pg_aligned_iff)
qed

subsection \<open>Properties\<close>

text \<open>
  C19. \<open>walk(pagetable, va, 1)\<close> on a well-formed table never panics or faults: it
  returns the address of the entry of \<open>va\<close>, having moved pages from the free list
  into the tree (no page is lost, none is shared, no other byte changes, no existing
  translation changes), or 0, and then the free list is empty.
\<close>

theorem walk_spec:
  assumes "vm_ok s pt ps" "va < MAXVA"
  shows "\<exists>r s' ps'. walk pt va True e s = Ret r e s' \<and> vm_step pt s ps s' ps' \<and>
     (\<forall>vb. leaf (mem s') pt vb = leaf (mem s) pt vb) \<and>
     (if r = 0 then ps' = [] else \<exists>t. node (mem s') pt (va_path va) = Some t \<and> r = pte_addr t (PX 0 va))"
  using assms by (rule walk_alloc)

theorem walk_spec_witness:
  "\<exists>r s' ps'. walk root0 0x3000 True [] vm_free0 = Ret r [] s' \<and>
     vm_step root0 vm_free0 [0x87ffd000, 0x87ffe000, 0x87fff000] s' ps'"
  using walk_spec [OF vm_free0_ok(1), of "0x3000" "[]"] by (auto simp: MAXVA_def)

text \<open>
  C20. \<open>mappages\<close> on unmapped pages installs, page by page from the first, the entries
  \<open>PA2PTE(pa + offset) | perm | PTE_V\<close>; it returns 0 when it has mapped the whole range
  and -1 exactly when it ran out of memory before; other translations, bytes outside
  the tables and the set of free and table pages are kept.
\<close>

theorem mappages_maps:
  assumes "vm_ok s pt ps" "sz \<noteq> 0" "unat va + unat sz \<le> 2 ^ 38"
    "\<And>vb. in_pages (PGROUNDDOWN va) (span va sz) vb \<Longrightarrow> \<not> valid_pte (leaf (mem s) pt vb)"
  shows "\<exists>r s' ps' k. mappages pt va sz pa perm e s = Ret r e s' \<and> vm_step pt s ps s' ps' \<and>
     k \<le> span va sz \<and> r = (if k = span va sz then 0 else - 1) \<and> (k \<noteq> span va sz \<longrightarrow> ps' = []) \<and>
     (\<forall>vb. vb < MAXVA \<longrightarrow> leaf (mem s') pt vb =
        (if in_pages (PGROUNDDOWN va) k vb then map_entry (PGROUNDDOWN va) pa perm vb
         else leaf (mem s) pt vb))"
  using assms by (rule mappages_spec)

theorem mappages_maps_witness:
  "\<exists>r s' ps' k. mappages root0 0x2010 5000 frame0 PTE_R [] vm_free0 = Ret r [] s' \<and>
     vm_step root0 vm_free0 [0x87ffd000, 0x87ffe000, 0x87fff000] s' ps' \<and> k \<le> span 0x2010 5000"
proof -
  have "\<not> valid_pte (leaf (mem vm_free0) root0 vb)" for vb by (simp add: vm_free0_ok(3))
  with mappages_maps [OF vm_free0_ok(1), of 5000 "0x2010" frame0 PTE_R "[]"] show ?thesis by auto
qed

text \<open>
  C21. \<open>uvmunmap\<close> of mapped pages clears exactly their entries; with \<open>do_free\<close> their
  physical pages go to the free list, in order, and are the only bytes outside the
  tables that change.
\<close>

theorem uvmunmap_unmaps:
  assumes "vm_ok s pt ps" "pg_aligned va" "unat va + length fs * 4096 \<le> 2 ^ 38"
    "unat npages = length fs" "frames_at (mem s) pt va fs" "do_free \<longrightarrow> freeable s pt ps fs"
  shows "\<exists>s'. uvmunmap pt va npages do_free e s = Ret () e s' \<and>
     vm_ok s' pt (if do_free then rev fs @ ps else ps) \<and> kframe s s' \<and>
     (\<forall>x. PGROUNDDOWN x \<notin> pt_pages (mem s) pt \<longrightarrow> \<not> (do_free \<and> PGROUNDDOWN x \<in> set fs) \<longrightarrow> mem s' x = mem s x) \<and>
     (\<forall>vb. vb < MAXVA \<longrightarrow> leaf (mem s') pt vb = (if in_pages va (length fs) vb then 0 else leaf (mem s) pt vb))"
  using assms by (rule uvmunmap_spec)

theorem uvmunmap_unmaps_witness:
  "\<exists>s'. uvmunmap root0 0x1000 1 True [] vm_map0 = Ret () [] s' \<and> vm_ok s' root0 [frame0, 0x87fff000] \<and>
     leaf (mem s') root0 0x1000 = 0"
proof -
  have p: "PGROUNDDOWN 0x1000 = (0x1000 :: uint64)" by (simp add: pg_aligned_iff)
  have f: "frames_at (mem vm_map0) root0 0x1000 [frame0]"
    using vm_map0_ok(3) [of "0x1000"] pte0 p by (simp add: MAXVA_def)
  have "page_ok vm_map0 frame0"
    using vm_map0_ok(1) kframe_kend [of vm_free0 vm_map0] vm_free0_ok(4) [of frame0]
    by (simp add: vm_step_def page_ok_def kmem0_simps layout_defs pg_aligned_iff)
  then have "freeable vm_map0 root0 [0x87fff000] [frame0]"
    using pt_pages0 by (auto simp: freeable_def)
  with uvmunmap_unmaps [OF vm_map0_ok(2) _ _ _ f, of 1 True "[]"] show ?thesis
    by (auto simp: in_pages_def MAXVA_def pg_aligned_iff)
qed

text \<open>
  C17. \<open>copyin\<close> returns 0 when every source byte is in a page the user may access, and
  then the buffer holds exactly those bytes; otherwise it returns -1. It changes no
  byte outside the buffer.
\<close>

theorem copyin_correct:
  assumes "umem_ok (mem s) pt" "kbuf (mem s) pt dst len"
  shows "\<exists>m'. copyin pt dst srcva len e s =
       Ret (if \<forall>i < unat len. user_byte (mem s) pt (srcva + of_nat i) \<noteq> None then 0 else - 1) e (s\<lparr>mem := m'\<rparr>) \<and>
     (\<forall>x. \<not> unat (x - dst) < unat len \<longrightarrow> m' x = mem s x) \<and>
     ((\<forall>i < unat len. user_byte (mem s) pt (srcva + of_nat i) \<noteq> None) \<longrightarrow>
      (\<forall>i < unat len. Some (m' (dst + of_nat i)) = user_byte (mem s) pt (srcva + of_nat i)))"
  using assms by (rule copyin_result)

theorem copyin_correct_witness:
  "\<exists>m'. copyin root0 0x80050000 0x1008 16 [] vm_map0 = Ret 0 [] (vm_map0\<lparr>mem := m'\<rparr>)"
  using copyin_correct [OF vm_map0_user(1) kbuf0, of "0x1008" "[]"] user_bytes0
  by (auto simp del: not_None_eq)

text \<open>
  C18. \<open>copyout\<close> returns 0 when every destination byte is in a page the user may access,
  and then the user sees the source bytes at \<open>dstva..dstva+len\<close> and every other user
  byte as before; otherwise it returns -1. No byte outside the user's pages and no
  translation changes.
\<close>

theorem copyout_correct:
  assumes "umem_ok (mem s) pt" "user_inj (mem s) pt" "kbuf (mem s) pt src len"
  shows "\<exists>m'. copyout pt dstva src len e s =
       Ret (if \<forall>i < unat len. user_byte (mem s) pt (dstva + of_nat i) \<noteq> None then 0 else - 1) e (s\<lparr>mem := m'\<rparr>) \<and>
     (\<forall>x. PGROUNDDOWN x \<notin> user_pages (mem s) pt \<longrightarrow> m' x = mem s x) \<and>
     (\<forall>va. uaddr m' pt va = uaddr (mem s) pt va) \<and>
     ((\<forall>i < unat len. user_byte (mem s) pt (dstva + of_nat i) \<noteq> None) \<longrightarrow>
      (\<forall>va. user_byte m' pt va = (if unat (va - dstva) < unat len
         then Some (mem s (src + (va - dstva))) else user_byte (mem s) pt va)))"
  using assms by (rule copyout_result)

theorem copyout_correct_witness:
  "\<exists>m'. copyout root0 0x1008 0x80050000 16 [] vm_map0 = Ret 0 [] (vm_map0\<lparr>mem := m'\<rparr>)"
  using copyout_correct [OF vm_map0_user kbuf0, of "0x1008" "[]"] user_bytes0
  by (auto simp del: not_None_eq)
end
