(* ===== verification/Proc.thy ===== *)
theory Proc
  imports Vm
begin

unbundle bit_operations_syntax

section \<open>Processes and scheduling: \<open>kernel/proc.h\<close>, \<open>kernel/proc.c\<close>\<close>

text \<open>
  The process table and the operations of \<open>proc.c\<close> that do not need the file system
  (\<open>fork\<close>, \<open>exit\<close>, \<open>userinit\<close> and \<open>forkret\<close> do, and follow in \<open>Process\<close>). A pointer to
  a process is its index in \<open>proc[]\<close>, the null pointer is \<open>None\<close>; the trapframe of a
  process is found by the address of its page. \<open>int\<close> fields are integers.

  Giving up the cpu is the only place where a kernel thread waits: \<open>swtch\<close> hands over
  to the rest of the machine, which is one entry of the list of environment steps.
  \<open>scheduler\<close> never returns; \<open>scheduler n\<close> is its first \<open>n\<close> rounds.
\<close>

subsection \<open>Data\<close>

record trapframe =
  tf_kernel_satp :: uint64
  tf_kernel_sp :: uint64
  tf_kernel_trap :: uint64
  tf_epc :: uint64
  tf_kernel_hartid :: uint64
  tf_ra :: uint64
  tf_sp :: uint64
  tf_gp :: uint64
  tf_tp :: uint64
  tf_t0 :: uint64
  tf_t1 :: uint64
  tf_t2 :: uint64
  tf_s0 :: uint64
  tf_s1 :: uint64
  tf_a0 :: uint64
  tf_a1 :: uint64
  tf_a2 :: uint64
  tf_a3 :: uint64
  tf_a4 :: uint64
  tf_a5 :: uint64
  tf_a6 :: uint64
  tf_a7 :: uint64
  tf_s2 :: uint64
  tf_s3 :: uint64
  tf_s4 :: uint64
  tf_s5 :: uint64
  tf_s6 :: uint64
  tf_s7 :: uint64
  tf_s8 :: uint64
  tf_s9 :: uint64
  tf_s10 :: uint64
  tf_s11 :: uint64
  tf_t3 :: uint64
  tf_t4 :: uint64
  tf_t5 :: uint64
  tf_t6 :: uint64

datatype procstate = UNUSED | USED | SLEEPING | RUNNABLE | RUNNING | ZOMBIE

text \<open>What a \<open>void *chan\<close> points to.\<close>

datatype chan =
    Chan_proc nat
  | Chan_ticks
  | Chan_buf_lock nat
  | Chan_inode_lock nat
  | Chan_log
  | Chan_nread uint64
  | Chan_nwrite uint64
  | Chan_cons_r
  | Chan_uart_tx_r
  | Chan_disk_free
  | Chan_disk_buf nat

record proc =
  p_state :: procstate
  p_chan :: "chan option"
  p_killed :: int
  p_xstate :: int
  p_pid :: int
  p_parent :: "nat option"
  p_kstack :: uint64
  p_sz :: uint64
  p_pagetable :: uint64
  p_trapframe :: uint64
  p_context :: kcontext
  p_ofile :: "nat \<Rightarrow> nat option"
  p_cwd :: "nat option"
  p_name :: "uint8 list"
  p_trace_mask :: int

record pstate = vmstate +
  procs :: "nat \<Rightarrow> proc"
  initproc :: "nat option"
  nextpid :: int
  ticks :: uint32
  tframe :: "uint64 \<Rightarrow> trapframe"
  forkret_addr :: uint64

definition upd_proc :: "nat \<Rightarrow> (proc \<Rightarrow> proc) \<Rightarrow> ('z pstate_scheme, unit) M" where
  "upd_proc i f = modify (\<lambda>s. s\<lparr>procs := (procs s)(i := f (procs s i))\<rparr>)"

definition get_proc :: "nat \<Rightarrow> (proc \<Rightarrow> 'a) \<Rightarrow> ('z pstate_scheme, 'a) M" where
  "get_proc i f = gets (\<lambda>s. f (procs s i))"

text \<open>\<open>p->trapframe->...\<close>, a null dereference when the process has no trapframe.\<close>

definition get_tf :: "nat \<Rightarrow> (trapframe \<Rightarrow> 'a) \<Rightarrow> ('z pstate_scheme, 'a) M" where
  "get_tf i f =
     bind (get_proc i p_trapframe) (\<lambda>a.
     if a = 0 then fault else gets (\<lambda>s. f (tframe s a)))"

definition upd_tf :: "nat \<Rightarrow> (trapframe \<Rightarrow> trapframe) \<Rightarrow> ('z pstate_scheme, unit) M" where
  "upd_tf i f =
     bind (get_proc i p_trapframe) (\<lambda>a.
     if a = 0 then fault else modify (\<lambda>s. s\<lparr>tframe := (tframe s)(a := f (tframe s a))\<rparr>))"

subsection \<open>The process table\<close>

definition procinit :: "('z pstate_scheme, unit) M" where
  "procinit =
     bind (initlock Pid_lock ''nextpid'') (\<lambda>_.
     bind (initlock Wait_lock ''wait_lock'') (\<lambda>_.
     for_each [0..<NPROC] (\<lambda>p.
       bind (initlock (Proc_lock p) ''proc'') (\<lambda>_.
       upd_proc p (\<lambda>q. q\<lparr>p_kstack := KSTACK (of_nat p)\<rparr>)))))"

definition myproc :: "('z mach_scheme, nat option) M" where
  "myproc =
     bind push_off (\<lambda>_.
     bind mycpu (\<lambda>c.
     bind (gets (\<lambda>s. c_proc (cpus s c))) (\<lambda>p.
     bind pop_off (\<lambda>_.
     return p))))"

text \<open>\<open>struct proc *p = myproc()\<close> where the code goes on to dereference \<open>p\<close>.\<close>

definition curproc :: "('z mach_scheme, nat) M" where
  "curproc = bind myproc deref"

definition allocpid :: "('z pstate_scheme, int) M" where
  "allocpid =
     bind (acquire Pid_lock) (\<lambda>_.
     bind (gets nextpid) (\<lambda>pid.
     bind (modify (\<lambda>s. s\<lparr>nextpid := nextpid s + 1\<rparr>)) (\<lambda>_.
     bind (release Pid_lock) (\<lambda>_.
     return pid))))"

definition proc_pagetable :: "nat \<Rightarrow> ('z pstate_scheme, uint64) M" where
  "proc_pagetable p =
     bind uvmcreate (\<lambda>pagetable.
     if pagetable = 0 then return 0 else
     bind (gets trampoline) (\<lambda>tr.
     bind (mappages pagetable TRAMPOLINE PGSIZE tr (PTE_R OR PTE_X)) (\<lambda>r.
     if r < 0 then bind (uvmfree pagetable 0) (\<lambda>_. return 0) else
     bind (get_proc p p_trapframe) (\<lambda>tf.
     bind (mappages pagetable TRAPFRAME PGSIZE tf (PTE_R OR PTE_W)) (\<lambda>r.
     if r < 0 then
       bind (uvmunmap pagetable TRAMPOLINE 1 False) (\<lambda>_.
       bind (uvmfree pagetable 0) (\<lambda>_.
       return 0))
     else return pagetable)))))"

definition proc_freepagetable :: "uint64 \<Rightarrow> uint64 \<Rightarrow> ('z pstate_scheme, unit) M" where
  "proc_freepagetable pagetable sz =
     bind (uvmunmap pagetable TRAMPOLINE 1 False) (\<lambda>_.
     bind (uvmunmap pagetable TRAPFRAME 1 False) (\<lambda>_.
     uvmfree pagetable sz))"

definition freeproc :: "nat \<Rightarrow> ('z pstate_scheme, unit) M" where
  "freeproc p =
     bind (get_proc p p_trapframe) (\<lambda>tf.
     bind (whenM (tf \<noteq> 0) (kfree tf)) (\<lambda>_.
     bind (upd_proc p (\<lambda>q. q\<lparr>p_trapframe := 0\<rparr>)) (\<lambda>_.
     bind (get_proc p p_pagetable) (\<lambda>pt.
     bind (get_proc p p_sz) (\<lambda>sz.
     bind (whenM (pt \<noteq> 0) (proc_freepagetable pt sz)) (\<lambda>_.
     upd_proc p (\<lambda>q. q\<lparr>p_pagetable := 0, p_sz := 0, p_pid := 0, p_parent := None,
       p_name := (p_name q)[0 := 0], p_chan := None, p_killed := 0, p_xstate := 0,
       p_state := UNUSED, p_trace_mask := 0\<rparr>)))))))"

definition allocproc :: "('z pstate_scheme, nat option) M" where
  "allocproc =
     bind (for_find [0..<NPROC] (\<lambda>p.
       bind (acquire (Proc_lock p)) (\<lambda>_.
       bind (get_proc p p_state) (\<lambda>st.
       if st = UNUSED then return (Some p)
       else bind (release (Proc_lock p)) (\<lambda>_. return None))))) (\<lambda>found.
     case found of None \<Rightarrow> return None | Some p \<Rightarrow>
     bind allocpid (\<lambda>pid.
     bind (upd_proc p (\<lambda>q. q\<lparr>p_pid := pid\<rparr>)) (\<lambda>_.
     bind (upd_proc p (\<lambda>q. q\<lparr>p_state := USED\<rparr>)) (\<lambda>_.
     bind kalloc (\<lambda>tf.
     bind (upd_proc p (\<lambda>q. q\<lparr>p_trapframe := tf\<rparr>)) (\<lambda>_.
     if tf = 0 then
       bind (freeproc p) (\<lambda>_. bind (release (Proc_lock p)) (\<lambda>_. return None))
     else
     bind (proc_pagetable p) (\<lambda>pt.
     bind (upd_proc p (\<lambda>q. q\<lparr>p_pagetable := pt\<rparr>)) (\<lambda>_.
     if pt = 0 then
       bind (freeproc p) (\<lambda>_. bind (release (Proc_lock p)) (\<lambda>_. return None))
     else
     bind (gets forkret_addr) (\<lambda>fr.
     bind (upd_proc p (\<lambda>q. q\<lparr>p_context := context0\<lparr>ctx_ra := fr, ctx_sp := p_kstack q + PGSIZE\<rparr>\<rparr>)) (\<lambda>_.
     bind (upd_proc p (\<lambda>q. q\<lparr>p_trace_mask := 0\<rparr>)) (\<lambda>_.
     return (Some p))))))))))))"

definition growproc :: "int \<Rightarrow> ('z pstate_scheme, int) M" where
  "growproc n =
     bind curproc (\<lambda>p.
     bind (get_proc p p_sz) (\<lambda>psz.
     bind (get_proc p p_pagetable) (\<lambda>pt.
     let sz = ucast psz :: uint32 in
     if n > 0 then
       bind (uvmalloc pt (ucast sz) (ucast (sz + of_int n))) (\<lambda>r.
       let sz' = ucast r :: uint32 in
       if sz' = 0 then return (- 1)
       else bind (upd_proc p (\<lambda>q. q\<lparr>p_sz := ucast sz'\<rparr>)) (\<lambda>_. return 0))
     else if n < 0 then
       bind (uvmdealloc pt (ucast sz) (ucast (sz + of_int n))) (\<lambda>r.
       let sz' = ucast r :: uint32 in
       bind (upd_proc p (\<lambda>q. q\<lparr>p_sz := ucast sz'\<rparr>)) (\<lambda>_. return 0))
     else bind (upd_proc p (\<lambda>q. q\<lparr>p_sz := ucast sz\<rparr>)) (\<lambda>_. return 0))))"

subsection \<open>Sleep and wakeup\<close>

text \<open>
  \<open>swtch(&p->context, &mycpu()->context)\<close>: the rest of the machine runs until it
  switches back to this kernel thread.
\<close>

definition swtch :: "('z pstate_scheme, unit) M" where
  "swtch = await"

definition sched :: "('z pstate_scheme, unit) M" where
  "sched =
     bind curproc (\<lambda>p.
     bind (holding (Proc_lock p)) (\<lambda>h.
     if \<not> h then panic ''sched p->lock'' else
     bind mycpu (\<lambda>c.
     bind (gets (\<lambda>s. c_noff (cpus s c))) (\<lambda>noff.
     if noff \<noteq> 1 then panic ''sched locks'' else
     bind (get_proc p p_state) (\<lambda>st.
     if st = RUNNING then panic ''sched running'' else
     bind (gets (\<lambda>s. intr_get (this_hart s))) (\<lambda>on.
     if on then panic ''sched interruptible'' else
     bind (gets (\<lambda>s. c_intena (cpus s c))) (\<lambda>intena.
     bind swtch (\<lambda>_.
     bind mycpu (\<lambda>c'.
     upd_cpu c' (\<lambda>k. k\<lparr>c_intena := intena\<rparr>))))))))))"

definition yield :: "('z pstate_scheme, unit) M" where
  "yield =
     bind curproc (\<lambda>p.
     bind (acquire (Proc_lock p)) (\<lambda>_.
     bind (upd_proc p (\<lambda>q. q\<lparr>p_state := RUNNABLE\<rparr>)) (\<lambda>_.
     bind sched (\<lambda>_.
     release (Proc_lock p)))))"

definition sleep :: "chan \<Rightarrow> lockid \<Rightarrow> ('z pstate_scheme, unit) M" where
  "sleep ch lk =
     bind curproc (\<lambda>p.
     bind (acquire (Proc_lock p)) (\<lambda>_.
     bind (release lk) (\<lambda>_.
     bind (upd_proc p (\<lambda>q. q\<lparr>p_chan := Some ch\<rparr>)) (\<lambda>_.
     bind (upd_proc p (\<lambda>q. q\<lparr>p_state := SLEEPING\<rparr>)) (\<lambda>_.
     bind sched (\<lambda>_.
     bind (upd_proc p (\<lambda>q. q\<lparr>p_chan := None\<rparr>)) (\<lambda>_.
     bind (release (Proc_lock p)) (\<lambda>_.
     acquire lk))))))))"

definition wakeup :: "chan option \<Rightarrow> ('z pstate_scheme, unit) M" where
  "wakeup ch = for_each [0..<NPROC] (\<lambda>p.
     bind myproc (\<lambda>me.
     whenM (Some p \<noteq> me)
       (bind (acquire (Proc_lock p)) (\<lambda>_.
        bind (get_proc p (\<lambda>q. p_state q = SLEEPING \<and> p_chan q = ch)) (\<lambda>asleep.
        bind (whenM asleep (upd_proc p (\<lambda>q. q\<lparr>p_state := RUNNABLE\<rparr>))) (\<lambda>_.
        release (Proc_lock p)))))))"

definition kill :: "int \<Rightarrow> ('z pstate_scheme, int) M" where
  "kill pid =
     bind (for_find [0..<NPROC] (\<lambda>p.
       bind (acquire (Proc_lock p)) (\<lambda>_.
       bind (get_proc p p_pid) (\<lambda>ppid.
       if ppid = pid then
         bind (upd_proc p (\<lambda>q. q\<lparr>p_killed := 1\<rparr>)) (\<lambda>_.
         bind (get_proc p p_state) (\<lambda>st.
         bind (whenM (st = SLEEPING) (upd_proc p (\<lambda>q. q\<lparr>p_state := RUNNABLE\<rparr>))) (\<lambda>_.
         bind (release (Proc_lock p)) (\<lambda>_.
         return (Some 0)))))
       else bind (release (Proc_lock p)) (\<lambda>_. return None))))) (\<lambda>r.
     case r of Some x \<Rightarrow> return x | None \<Rightarrow> return (- 1))"

definition reparent :: "nat \<Rightarrow> ('z pstate_scheme, unit) M" where
  "reparent p = for_each [0..<NPROC] (\<lambda>pp.
     bind (get_proc pp p_parent) (\<lambda>par.
     whenM (par = Some p)
       (bind (gets initproc) (\<lambda>ip.
        bind (upd_proc pp (\<lambda>q. q\<lparr>p_parent := ip\<rparr>)) (\<lambda>_.
        wakeup (map_option Chan_proc ip))))))"

text \<open>The scan of \<open>wait\<close> over the table: \<open>Inl\<close> is \<open>havekids\<close>, \<open>Inr\<close> the value returned.\<close>

definition wait_scan :: "nat \<Rightarrow> uint64 \<Rightarrow> ('z pstate_scheme, bool + int) M" where
  "wait_scan p addr = for_fold [0..<NPROC] False (\<lambda>np havekids.
     bind (get_proc np p_parent) (\<lambda>par.
     if par = Some p then
       bind (acquire (Proc_lock np)) (\<lambda>_.
       bind (get_proc np p_state) (\<lambda>st.
       if st = ZOMBIE then
         bind (get_proc np p_pid) (\<lambda>pid.
         bind (get_proc p p_pagetable) (\<lambda>pt.
         bind (get_proc np p_xstate) (\<lambda>xs.
         bind (if addr \<noteq> 0 then copyout_obj pt addr (to_le 4 (of_int xs :: uint32)) else return 0) (\<lambda>r.
         if r < 0 then
           bind (release (Proc_lock np)) (\<lambda>_.
           bind (release Wait_lock) (\<lambda>_.
           return (Inr (- 1))))
         else
           bind (freeproc np) (\<lambda>_.
           bind (release (Proc_lock np)) (\<lambda>_.
           bind (release Wait_lock) (\<lambda>_.
           return (Inr pid))))))))
       else bind (release (Proc_lock np)) (\<lambda>_. return (Inl True))))
     else return (Inl havekids)))"

definition wait :: "uint64 \<Rightarrow> ('z pstate_scheme, int) M" where
  "wait addr =
     bind curproc (\<lambda>p.
     bind (acquire Wait_lock) (\<lambda>_.
     while_sleep (bind (wait_scan p addr) (\<lambda>r. case r of
         Inr x \<Rightarrow> return (Some x)
       | Inl havekids \<Rightarrow>
           bind (get_proc p p_killed) (\<lambda>killed.
           if \<not> havekids \<or> killed \<noteq> 0
           then bind (release Wait_lock) (\<lambda>_. return (Some (- 1)))
           else bind (sleep (Chan_proc p) Wait_lock) (\<lambda>_. return None))))))"

text \<open>One round of the scheduler's outer loop; the loop itself never ends.\<close>

definition scheduler_round :: "nat \<Rightarrow> ('z pstate_scheme, unit) M" where
  "scheduler_round c =
     bind (upd_hart intr_on) (\<lambda>_.
     for_each [0..<NPROC] (\<lambda>p.
       bind (acquire (Proc_lock p)) (\<lambda>_.
       bind (get_proc p p_state) (\<lambda>st.
       bind (whenM (st = RUNNABLE)
         (bind (upd_proc p (\<lambda>q. q\<lparr>p_state := RUNNING\<rparr>)) (\<lambda>_.
          bind (upd_cpu c (\<lambda>k. k\<lparr>c_proc := Some p\<rparr>)) (\<lambda>_.
          bind swtch (\<lambda>_.
          upd_cpu c (\<lambda>k. k\<lparr>c_proc := None\<rparr>)))))) (\<lambda>_.
       release (Proc_lock p))))))"

primrec scheduler_rounds :: "nat \<Rightarrow> nat \<Rightarrow> ('z pstate_scheme, unit) M" where
  "scheduler_rounds c 0 = return ()"
| "scheduler_rounds c (Suc n) = bind (scheduler_round c) (\<lambda>_. scheduler_rounds c n)"

definition scheduler :: "nat \<Rightarrow> ('z pstate_scheme, unit) M" where
  "scheduler rounds =
     bind mycpu (\<lambda>c.
     bind (upd_cpu c (\<lambda>k. k\<lparr>c_proc := None\<rparr>)) (\<lambda>_.
     scheduler_rounds c rounds))"

definition nproc :: "('z pstate_scheme, int) M" where
  "nproc =
     bind (for_fold [0..<NPROC] 0 (\<lambda>p count.
       bind (acquire (Proc_lock p)) (\<lambda>_.
       bind (get_proc p p_state) (\<lambda>st.
       bind (return (if st \<noteq> UNUSED then count + 1 else count)) (\<lambda>count'.
       bind (release (Proc_lock p)) (\<lambda>_.
       return (Inl count' :: int + int))))))) (\<lambda>r.
     return (case r of Inl count \<Rightarrow> count | Inr x \<Rightarrow> x))"

subsection \<open>Copying to or from a user or a kernel address\<close>

text \<open>
  The pair \<open>(int user_dst, uint64 dst)\<close>. A kernel address is either an address in byte
  memory or an object the model keeps elsewhere; the bytes for such an object are
  handed over by the caller.
\<close>

datatype iodst = To_user uint64 | To_mem uint64 | To_obj

datatype iosrc = From_user uint64 | From_mem uint64 | From_obj "uint8 list"

definition either_copyout :: "iodst \<Rightarrow> uint8 list \<Rightarrow> ('z pstate_scheme, int) M" where
  "either_copyout dst src =
     bind myproc (\<lambda>me.
     case dst of
       To_user a \<Rightarrow>
         bind (deref me) (\<lambda>p.
         bind (get_proc p p_pagetable) (\<lambda>pt. copyout_obj pt a src))
     | To_mem a \<Rightarrow> bind (upd_mem (put_bytes a src)) (\<lambda>_. return 0)
     | To_obj \<Rightarrow> return 0)"

definition either_copyin :: "iosrc \<Rightarrow> nat \<Rightarrow> ('z pstate_scheme, int \<times> uint8 list) M" where
  "either_copyin src len =
     bind myproc (\<lambda>me.
     case src of
       From_user a \<Rightarrow>
         bind (deref me) (\<lambda>p.
         bind (get_proc p p_pagetable) (\<lambda>pt. copyin_obj pt [] a len))
     | From_mem a \<Rightarrow> bind (gets (\<lambda>s. bytes_at (mem s) a len)) (\<lambda>bs. return (0, bs))
     | From_obj bs \<Rightarrow> return (0, take len bs))"

end
