(* ===== verification/Sched.thy ===== *)
theory Sched
  imports Proc
begin

section \<open>What the operations on processes do\<close>

text \<open>
  Closed forms of the operations of \<open>Proc\<close> that run through the process table under
  the locks of the processes (\<open>wakeup\<close>, \<open>kill\<close>, \<open>nproc\<close>), of \<open>allocpid\<close>, and of
  \<open>sleep\<close> up to the point where the sleeper gives up the cpu.
\<close>

subsection \<open>Frame rules\<close>

lemma pstate_put_mach [simp, frame_simps]:
  "procs (put_mach n h c k s) = procs s" "initproc (put_mach n h c k s) = initproc s"
  "nextpid (put_mach n h c k s) = nextpid s" "ticks (put_mach n h c k s) = ticks s"
  "tframe (put_mach n h c k s) = tframe s"
  "(put_mach n h c k s)\<lparr>procs := x\<rparr> = put_mach n h c k (s\<lparr>procs := x\<rparr>)"
  "(put_mach n h c k s)\<lparr>nextpid := y\<rparr> = put_mach n h c k (s\<lparr>nextpid := y\<rparr>)"
  by (simp_all add: put_mach_def)

lemma pstate_intena [simp, frame_simps]:
  "procs (intena_saved s) = procs s" "initproc (intena_saved s) = initproc s"
  "nextpid (intena_saved s) = nextpid s" "tframe (intena_saved s) = tframe s"
  "intena_saved (s\<lparr>procs := x\<rparr>) = (intena_saved s)\<lparr>procs := x\<rparr>"
  "intena_saved (s\<lparr>nextpid := y\<rparr>) = (intena_saved s)\<lparr>nextpid := y\<rparr>"
  by (simp_all add: intena_saved_def saved_intena_def myid_def Let_def)

lemma pstate_lock [simp, frame_simps]:
  "lock_free l (s\<lparr>procs := x\<rparr>) = lock_free l s" "lock_free l (s\<lparr>nextpid := y\<rparr>) = lock_free l s"
  "cpu_ok (s\<lparr>procs := x\<rparr>) = cpu_ok s" "cpu_ok (s\<lparr>nextpid := y\<rparr>) = cpu_ok s"
  "myid (s\<lparr>procs := x\<rparr>) = myid s"
  by (simp_all add: lock_free_def cpu_ok_def myid_def)

lemma blind_proc [blind_rules]: "lock_blind (get_proc i f)" "lock_blind (upd_proc i g)"
  unfolding get_proc_def upd_proc_def by (intro blind_rules; simp)+

subsection \<open>Closed forms\<close>

lemma myproc_exec:
  assumes "cpu_ok s"
  shows "myproc e s = Ret (c_proc (cpus s (myid s))) e (intena_saved s)"
proof -
  let ?c = "cpus s (myid s)"
  let ?s1 = "s\<lparr>harts := (harts s)(cur s := intr_off (harts s (cur s))),
     cpus := (cpus s)(myid s := (saved_intena s)\<lparr>c_noff := c_noff ?c + 1\<rparr>)\<rparr>"
  have id: "myid ?s1 = myid s" by (simp add: myid_def)
  have n: "\<not> intr_get (harts ?s1 (cur ?s1))" "1 \<le> c_noff (cpus ?s1 (myid ?s1))"
    using assms by (simp_all add: cpu_ok_def id)
  have h: "(if c_noff ?c + 1 = 1 \<and> c_intena (saved_intena s)
       then intr_on (intr_off (harts s (cur s))) else intr_off (harts s (cur s))) = harts s (cur s)"
    using assms by (auto simp: cpu_ok_def saved_intena_def Let_def intr_on_off intr_off_id)
  have c: "(saved_intena s)\<lparr>c_noff := c_noff ?c\<rparr> = saved_intena s"
    by (simp add: saved_intena_def Let_def)
  have "c_proc (cpus ?s1 (myid s)) = c_proc ?c" by (simp add: saved_intena_def Let_def)
  moreover have "pop_off e ?s1 = Ret () e (intena_saved s)"
    unfolding pop_off_exec [OF n] id
    using h c by (auto intro!: mach.equality simp: intena_saved_def)
  ultimately show ?thesis
    unfolding myproc_def by (simp add: push_off_exec mycpu_exec id)
qed

lemma curproc_exec:
  "cpu_ok s \<Longrightarrow> c_proc (cpus s (myid s)) = Some p \<Longrightarrow> curproc e s = Ret p e (intena_saved s)"
  by (simp add: curproc_def myproc_exec)

definition proc_locks_free :: "'z mach_scheme \<Rightarrow> bool" where
  "proc_locks_free s \<longleftrightarrow> (\<forall>p < NPROC. lock_free (Proc_lock p) s)"

lemma proc_locks_frame [simp, frame_simps]:
  "proc_locks_free (intena_saved s) = proc_locks_free s"
  "proc_locks_free (s\<lparr>procs := x\<rparr>) = proc_locks_free s"
  "proc_locks_free (s\<lparr>nextpid := y\<rparr>) = proc_locks_free s"
  by (simp_all add: proc_locks_free_def)

lemma allocpid_exec:
  assumes "lock_free Pid_lock s" "cpu_ok s"
  shows "allocpid e s = Ret (nextpid s) e ((intena_saved s)\<lparr>nextpid := nextpid s + 1\<rparr>)"
proof -
  define body where "body = bind (gets nextpid) (\<lambda>pid.
     bind (modify (\<lambda>s :: 'a pstate_scheme. s\<lparr>nextpid := nextpid s + 1\<rparr>)) (\<lambda>_. return pid))"
  have blind: "lock_blind body" unfolding body_def by (intro blind_rules; simp)
  have run: "body e s = Ret (nextpid s) e (s\<lparr>nextpid := nextpid s + 1\<rparr>)" by (simp add: body_def)
  have eq: "allocpid = bind (acquire Pid_lock) (\<lambda>_. bind body (\<lambda>r. bind (release Pid_lock) (\<lambda>_. return r)))"
    by (simp only: allocpid_def body_def bind_assoc bind_return_left)
  show ?thesis unfolding eq critical_exec [OF blind run assms] by simp
qed

subsection \<open>\<open>wakeup\<close>\<close>

definition woken :: "chan option \<Rightarrow> nat option \<Rightarrow> nat \<Rightarrow> proc \<Rightarrow> proc" where
  "woken ch me p q = (if Some p \<noteq> me \<and> p_state q = SLEEPING \<and> p_chan q = ch
     then q\<lparr>p_state := RUNNABLE\<rparr> else q)"

definition wakeup_one :: "chan option \<Rightarrow> nat \<Rightarrow> ('z pstate_scheme, unit) M" where
  "wakeup_one ch p =
     bind myproc (\<lambda>me.
     whenM (Some p \<noteq> me)
       (bind (acquire (Proc_lock p)) (\<lambda>_.
        bind (get_proc p (\<lambda>q. p_state q = SLEEPING \<and> p_chan q = ch)) (\<lambda>asleep.
        bind (whenM asleep (upd_proc p (\<lambda>q. q\<lparr>p_state := RUNNABLE\<rparr>))) (\<lambda>_.
        release (Proc_lock p))))))"

lemma wakeup_one_exec:
  assumes "cpu_ok s" "lock_free (Proc_lock p) s"
  shows "wakeup_one ch p e s = Ret () e ((intena_saved s)\<lparr>procs := (procs s)(p :=
     woken ch (c_proc (cpus s (myid s))) p (procs s p))\<rparr>)"
proof -
  let ?s = "intena_saved s"
  define body where "body = bind (get_proc p (\<lambda>q. p_state q = SLEEPING \<and> p_chan q = ch)) (\<lambda>asleep.
     whenM asleep (upd_proc p (\<lambda>q. q\<lparr>p_state := RUNNABLE\<rparr>)) :: ('a pstate_scheme, unit) M)"
  have blind: "lock_blind body" unfolding body_def by (intro blind_rules)
  have run: "body e ?s = Ret () e (?s\<lparr>procs := (procs s)(p :=
      if p_state (procs s p) = SLEEPING \<and> p_chan (procs s p) = ch
      then (procs s p)\<lparr>p_state := RUNNABLE\<rparr> else procs s p)\<rparr>)"
    by (simp add: body_def get_proc_def upd_proc_def)
  have sec: "bind (acquire (Proc_lock p)) (\<lambda>_. bind body (\<lambda>_. release (Proc_lock p))) e ?s =
      Ret () e (intena_saved (?s\<lparr>procs := (procs s)(p :=
      if p_state (procs s p) = SLEEPING \<and> p_chan (procs s p) = ch
      then (procs s p)\<lparr>p_state := RUNNABLE\<rparr> else procs s p)\<rparr>))"
    by (rule critical_exec_unit [OF blind run]) (simp_all add: assms)
  have eq: "wakeup_one ch p = bind myproc (\<lambda>me. whenM (Some p \<noteq> me)
      (bind (acquire (Proc_lock p)) (\<lambda>_. bind body (\<lambda>_. release (Proc_lock p)))))"
    by (simp only: wakeup_one_def body_def bind_assoc)
  show ?thesis
  proof (cases "Some p = c_proc (cpus s (myid s))")
    case True
    then show ?thesis by (simp add: eq myproc_exec [OF assms(1)] woken_def)
  next
    case False
    have "wakeup_one ch p e s = bind (acquire (Proc_lock p)) (\<lambda>_. bind body (\<lambda>_. release (Proc_lock p))) e ?s"
      using False by (simp only: eq exec_bind myproc_exec [OF assms(1)] outcome.case exec_whenM) simp
    also note sec
    finally show ?thesis using False by (auto simp: woken_def)
  qed
qed

text \<open>A loop over the table whose rounds each update one process.\<close>

lemma for_each_procs:
  assumes "distinct xs" "\<And>p s. p \<in> set xs \<Longrightarrow> P s \<Longrightarrow>
     body p e s = Ret () e ((intena_saved s)\<lparr>procs := (procs s)(p := f p (procs s p))\<rparr>)"
    and "\<And>x s. P s \<Longrightarrow> P ((intena_saved s)\<lparr>procs := x\<rparr>)" "P s"
  shows "for_each xs body e s = Ret () e ((if xs = [] then s else intena_saved s)
     \<lparr>procs := (\<lambda>p. if p \<in> set xs then f p (procs s p) else procs s p)\<rparr>)"
  using assms
proof (induction xs arbitrary: s)
  case (Cons x xs)
  let ?s = "(intena_saved s)\<lparr>procs := (procs s)(x := f x (procs s x))\<rparr>"
  have "body x e s = Ret () e ?s" by (rule Cons.prems(2)) (simp_all add: Cons.prems(4))
  moreover have "for_each xs body e ?s = Ret () e ((if xs = [] then ?s else intena_saved ?s)
     \<lparr>procs := (\<lambda>p. if p \<in> set xs then f p (procs ?s p) else procs ?s p)\<rparr>)"
    by (rule Cons.IH) (use Cons.prems in auto)
  moreover have "(\<lambda>p. if p \<in> set xs then f p (procs ?s p) else procs ?s p) =
      (\<lambda>p. if p \<in> set (x # xs) then f p (procs s p) else procs s p)"
    using Cons.prems(1) by (auto simp: fun_eq_iff)
  ultimately show ?case by simp
qed simp

lemma wakeup_exec:
  assumes "cpu_ok s" "proc_locks_free s"
  shows "wakeup ch e s = Ret () e ((intena_saved s)\<lparr>procs := (\<lambda>p. if p < NPROC
     then woken ch (c_proc (cpus s (myid s))) p (procs s p) else procs s p)\<rparr>)"
proof -
  define me where "me = c_proc (cpus s (myid s))"
  define P where "P = (\<lambda>t :: 'a pstate_scheme. cpu_ok t \<and> proc_locks_free t \<and> c_proc (cpus t (myid t)) = me)"
  have eq: "wakeup ch = for_each [0..<NPROC] (wakeup_one ch)"
    unfolding wakeup_def by (rule arg_cong [where f = "for_each _"]) (rule ext, simp only: wakeup_one_def)
  have "wakeup_one ch p e t = Ret () e ((intena_saved t)\<lparr>procs := (procs t)(p := woken ch me p (procs t p))\<rparr>)"
    if "p \<in> set [0..<NPROC]" "P t" for p t
    using that wakeup_one_exec [of t p ch e] by (auto simp: P_def proc_locks_free_def)
  moreover have "P ((intena_saved t)\<lparr>procs := x\<rparr>)" if "P t" for x t
    using that by (simp add: P_def)
  moreover have "P s" using assms by (simp add: P_def me_def)
  ultimately show ?thesis
    unfolding eq me_def [symmetric]
    using for_each_procs [of "[0..<NPROC]" P "wakeup_one ch" e "\<lambda>p. woken ch me p" s]
    by (simp add: NPROC_def)
qed

subsection \<open>\<open>kill\<close>, \<open>nproc\<close>, \<open>reparent\<close>\<close>

definition killed_proc :: "proc \<Rightarrow> proc" where
  "killed_proc q = (if p_state q = SLEEPING then q\<lparr>p_killed := 1, p_state := RUNNABLE\<rparr>
     else q\<lparr>p_killed := 1\<rparr>)"

definition kill_one :: "int \<Rightarrow> nat \<Rightarrow> ('z pstate_scheme, int option) M" where
  "kill_one pid p =
     bind (acquire (Proc_lock p)) (\<lambda>_.
     bind (get_proc p p_pid) (\<lambda>ppid.
     if ppid = pid then
       bind (upd_proc p (\<lambda>q. q\<lparr>p_killed := 1\<rparr>)) (\<lambda>_.
       bind (get_proc p p_state) (\<lambda>st.
       bind (whenM (st = SLEEPING) (upd_proc p (\<lambda>q. q\<lparr>p_state := RUNNABLE\<rparr>))) (\<lambda>_.
       bind (release (Proc_lock p)) (\<lambda>_.
       return (Some 0)))))
     else bind (release (Proc_lock p)) (\<lambda>_. return None)))"

lemma kill_one_exec:
  assumes "cpu_ok s" "lock_free (Proc_lock p) s"
  shows "kill_one pid p e s = (if p_pid (procs s p) = pid
     then Ret (Some 0) e ((intena_saved s)\<lparr>procs := (procs s)(p := killed_proc (procs s p))\<rparr>)
     else Ret None e (intena_saved s))"
proof -
  define body where "body = bind (get_proc p p_pid) (\<lambda>ppid.
     if ppid = pid then
       bind (upd_proc p (\<lambda>q. q\<lparr>p_killed := 1\<rparr>)) (\<lambda>_.
       bind (get_proc p p_state) (\<lambda>st.
       bind (whenM (st = SLEEPING) (upd_proc p (\<lambda>q. q\<lparr>p_state := RUNNABLE\<rparr>))) (\<lambda>_.
       return (Some 0 :: int option))))
     else return None :: ('a pstate_scheme, int option) M)"
  have blind: "lock_blind body" unfolding body_def by (intro blind_rules)
  have run: "body e s = Ret (if p_pid (procs s p) = pid then Some 0 else None) e
     (if p_pid (procs s p) = pid then s\<lparr>procs := (procs s)(p := killed_proc (procs s p))\<rparr> else s)"
    by (simp add: body_def get_proc_def upd_proc_def killed_proc_def)
  have eq: "kill_one pid p = bind (acquire (Proc_lock p)) (\<lambda>_. bind body (\<lambda>r.
      bind (release (Proc_lock p)) (\<lambda>_. return r)))"
  proof (rule ext)+
    fix e and s :: "'a pstate_scheme"
    show "kill_one pid p e s = bind (acquire (Proc_lock p)) (\<lambda>_. bind body (\<lambda>r.
      bind (release (Proc_lock p)) (\<lambda>_. return r))) e s"
      by (simp add: kill_one_def body_def get_proc_def upd_proc_def split: outcome.split)
  qed
  show ?thesis unfolding eq critical_exec [OF blind run assms(2,1)] by simp
qed

lemma find_kill:
  assumes "cpu_ok s" "\<forall>p \<in> set xs. lock_free (Proc_lock p) s"
  shows "for_find xs (kill_one pid) e s = (let t = (if xs = [] then s else intena_saved s) in
     case find (\<lambda>p. p_pid (procs s p) = pid) xs of
       None \<Rightarrow> Ret None e t
     | Some p \<Rightarrow> Ret (Some 0) e (t\<lparr>procs := (procs s)(p := killed_proc (procs s p))\<rparr>))"
  using assms
proof (induction xs arbitrary: s)
  case (Cons x xs)
  have one: "kill_one pid x e s = (if p_pid (procs s x) = pid
     then Ret (Some 0) e ((intena_saved s)\<lparr>procs := (procs s)(x := killed_proc (procs s x))\<rparr>)
     else Ret None e (intena_saved s))" by (rule kill_one_exec) (use Cons.prems in auto)
  show ?case
  proof (cases "p_pid (procs s x) = pid")
    case False
    with Cons.IH [of "intena_saved s"] Cons.prems one show ?thesis
      by (simp add: Let_def split: option.split)
  qed (simp add: one Let_def)
qed simp

lemma kill_exec:
  assumes "cpu_ok s" "proc_locks_free s"
  shows "kill pid e s = (case find (\<lambda>p. p_pid (procs s p) = pid) [0..<NPROC] of
       None \<Rightarrow> Ret (- 1) e (intena_saved s)
     | Some p \<Rightarrow> Ret 0 e ((intena_saved s)\<lparr>procs := (procs s)(p := killed_proc (procs s p))\<rparr>))"
proof -
  have eq: "kill pid = bind (for_find [0..<NPROC] (kill_one pid)) (\<lambda>r. case r of Some x \<Rightarrow> return x | None \<Rightarrow> return (- 1))"
    unfolding kill_def kill_one_def [abs_def] ..
  have "\<forall>p \<in> set [0..<NPROC]. lock_free (Proc_lock p) s" using assms(2) by (simp add: proc_locks_free_def)
  from find_kill [OF assms(1) this, of pid e] show ?thesis
    unfolding eq by (simp add: Let_def NPROC_def split: option.split)
qed

definition nproc_one :: "nat \<Rightarrow> int \<Rightarrow> ('z pstate_scheme, int + int) M" where
  "nproc_one p count =
     bind (acquire (Proc_lock p)) (\<lambda>_.
     bind (get_proc p p_state) (\<lambda>st.
     bind (return (if st \<noteq> UNUSED then count + 1 else count)) (\<lambda>count'.
     bind (release (Proc_lock p)) (\<lambda>_.
     return (Inl count')))))"

lemma nproc_one_exec:
  assumes "cpu_ok s" "lock_free (Proc_lock p) s"
  shows "nproc_one p n e s = Ret (Inl (if p_state (procs s p) \<noteq> UNUSED then n + 1 else n)) e (intena_saved s)"
proof -
  define body where "body = bind (get_proc p p_state) (\<lambda>st.
     return (if st \<noteq> UNUSED then n + 1 else n) :: ('a pstate_scheme, int) M)"
  have blind: "lock_blind body" unfolding body_def by (intro blind_rules)
  have run: "body e s = Ret (if p_state (procs s p) \<noteq> UNUSED then n + 1 else n) e s"
    by (simp add: body_def get_proc_def)
  have eq: "nproc_one p n = bind (acquire (Proc_lock p)) (\<lambda>_. bind body (\<lambda>r.
      bind (release (Proc_lock p)) (\<lambda>_. return (Inl r))))"
    by (simp only: nproc_one_def body_def bind_assoc bind_return_left)
  show ?thesis unfolding eq critical_exec [OF blind run assms(2,1)] by simp
qed

lemma for_fold_nproc:
  assumes "cpu_ok s" "\<forall>p \<in> set xs. lock_free (Proc_lock p) s"
  shows "for_fold xs n nproc_one e s = Ret (Inl (n + int (length (filter (\<lambda>p. p_state (procs s p) \<noteq> UNUSED) xs)))) e
     (if xs = [] then s else intena_saved s)"
  using assms
proof (induction xs arbitrary: n s)
  case (Cons x xs)
  have "nproc_one x n e s = Ret (Inl (if p_state (procs s x) \<noteq> UNUSED then n + 1 else n)) e (intena_saved s)"
    by (rule nproc_one_exec) (use Cons.prems in auto)
  with Cons.IH [of "intena_saved s"] Cons.prems show ?case by simp
qed simp

lemma nproc_exec:
  assumes "cpu_ok s" "proc_locks_free s"
  shows "nproc e s = Ret (int (card {p. p < NPROC \<and> p_state (procs s p) \<noteq> UNUSED})) e (intena_saved s)"
proof -
  have eq: "nproc = bind (for_fold [0..<NPROC] 0 nproc_one) (\<lambda>r. return (case r of Inl count \<Rightarrow> count | Inr x \<Rightarrow> x))"
    unfolding nproc_def nproc_one_def [abs_def] ..
  have "\<forall>p \<in> set [0..<NPROC]. lock_free (Proc_lock p) s" using assms(2) by (simp add: proc_locks_free_def)
  note run = for_fold_nproc [OF assms(1) this, of 0 e]
  have "length (filter (\<lambda>p. p_state (procs s p) \<noteq> UNUSED) [0..<NPROC]) =
      card (set (filter (\<lambda>p. p_state (procs s p) \<noteq> UNUSED) [0..<NPROC]))"
    by (rule distinct_card [symmetric]) simp
  also have "set (filter (\<lambda>p. p_state (procs s p) \<noteq> UNUSED) [0..<NPROC]) = {p. p < NPROC \<and> p_state (procs s p) \<noteq> UNUSED}"
    by auto
  finally show ?thesis unfolding eq using run by (simp add: NPROC_def)
qed

subsection \<open>\<open>sleep\<close>\<close>

text \<open>What is left of \<open>sleep\<close> when the process runs again.\<close>

definition resume :: "nat \<Rightarrow> lockid \<Rightarrow> bool \<Rightarrow> ('z pstate_scheme, unit) M" where
  "resume p lk intena =
     bind mycpu (\<lambda>c.
     bind (upd_cpu c (\<lambda>k. k\<lparr>c_intena := intena\<rparr>)) (\<lambda>_.
     bind (upd_proc p (\<lambda>q. q\<lparr>p_chan := None\<rparr>)) (\<lambda>_.
     bind (release (Proc_lock p)) (\<lambda>_.
     acquire lk))))"

text \<open>The state in which a process that called \<open>sleep(ch, lk)\<close> has given up the cpu.\<close>

definition asleep :: "nat \<Rightarrow> chan \<Rightarrow> lockid \<Rightarrow> 'z pstate_scheme \<Rightarrow> 'z pstate_scheme" where
  "asleep p ch lk s = (released lk (acquired (Proc_lock p) s))
     \<lparr>procs := (procs s)(p := (procs s p)\<lparr>p_chan := Some ch, p_state := SLEEPING\<rparr>)\<rparr>"

definition holds_only :: "lockid \<Rightarrow> 'z mach_scheme \<Rightarrow> bool" where
  "holds_only lk s \<longleftrightarrow> locked (locks s lk) \<noteq> 0 \<and> lk_cpu (locks s lk) = Some (myid s) \<and>
     c_noff (cpus s (myid s)) = 1 \<and> \<not> intr_get (harts s (cur s))"

lemma intena_saved_id: "c_noff (cpus s (myid s)) \<noteq> 0 \<Longrightarrow> intena_saved s = s"
  by (simp add: intena_saved_def saved_intena_def Let_def)

lemma holds_only_ok: "holds_only lk s \<Longrightarrow> cpu_ok s \<and> intena_saved s = s"
  by (simp add: holds_only_def cpu_ok_def intena_saved_id)

lemma asleep_facts:
  fixes ch :: chan
  assumes "holds_only lk s" "lock_free (Proc_lock p) s"
  defines "t \<equiv> asleep p ch lk s"
  shows "myid t = myid s" "cur t = cur s" "lock_free lk t"
    "locked (locks t (Proc_lock p)) \<noteq> 0" "lk_cpu (locks t (Proc_lock p)) = Some (myid s)"
    "c_noff (cpus t (myid s)) = 1" "\<not> intr_get (harts t (cur s))"
    "c_proc (cpus t (myid s)) = c_proc (cpus s (myid s))"
    "c_intena (cpus t (myid s)) = c_intena (cpus s (myid s))"
    "procs t = (procs s)(p := (procs s p)\<lparr>p_chan := Some ch, p_state := SLEEPING\<rparr>)"
proof -
  have ne: "lk \<noteq> Proc_lock p" using assms(1,2) by (auto simp: holds_only_def lock_free_def)
  have id: "myid (acquired (Proc_lock p) s) = myid s" by simp
  show "myid t = myid s"
    by (simp add: t_def asleep_def released_def Let_def myid_def acquired_def)
  show "cur t = cur s" by (simp add: t_def asleep_def released_def acquired_def Let_def)
  show "lock_free lk t" by (simp add: t_def asleep_def released_def lock_free_def Let_def)
  show "locked (locks t (Proc_lock p)) \<noteq> 0" "lk_cpu (locks t (Proc_lock p)) = Some (myid s)"
    using ne by (simp_all add: t_def asleep_def released_def acquired_def Let_def)
  show "c_noff (cpus t (myid s)) = 1" "\<not> intr_get (harts t (cur s))"
    "c_proc (cpus t (myid s)) = c_proc (cpus s (myid s))"
    "c_intena (cpus t (myid s)) = c_intena (cpus s (myid s))"
    using assms(1) unfolding t_def asleep_def released_def id
    by (simp_all add: acquired_def Let_def holds_only_def saved_intena_def)
  show "procs t = (procs s)(p := (procs s p)\<lparr>p_chan := Some ch, p_state := SLEEPING\<rparr>)"
    by (simp add: t_def asleep_def)
qed

lemma sched_exec:
  assumes "c_proc (cpus s (myid s)) = Some p" "locked (locks s (Proc_lock p)) \<noteq> 0"
    "lk_cpu (locks s (Proc_lock p)) = Some (myid s)" "c_noff (cpus s (myid s)) = 1"
    "\<not> intr_get (harts s (cur s))" "p_state (procs s p) \<noteq> RUNNING"
  shows "sched e s = bind swtch (\<lambda>_. bind mycpu (\<lambda>c'.
     upd_cpu c' (\<lambda>k. k\<lparr>c_intena := c_intena (cpus s (myid s))\<rparr>))) e s"
proof -
  have ok: "cpu_ok s" "intena_saved s = s" using assms(4,5) by (simp_all add: cpu_ok_def intena_saved_id)
  show ?thesis
    unfolding sched_def using assms
    by (simp add: curproc_exec [OF ok(1) assms(1)] ok(2) holding_exec mycpu_exec get_proc_def this_hart_def)
qed

lemma sleep_exec:
  assumes h: "holds_only lk s" and p: "c_proc (cpus s (myid s)) = Some p" "lock_free (Proc_lock p) s"
  shows "sleep ch lk e s = (case e of [] \<Rightarrow> Block (asleep p ch lk s)
     | f # e' \<Rightarrow> resume p lk (c_intena (cpus s (myid s))) e' (f (asleep p ch lk s)))"
proof -
  have ok: "cpu_ok s" "intena_saved s = s" using holds_only_ok [OF h] by simp_all
  have ne: "lk \<noteq> Proc_lock p" using h p(2) by (auto simp: holds_only_def lock_free_def)
  let ?a = "acquired (Proc_lock p) s"
  have "locks ?a lk = locks s lk" using ne by (simp add: acquired_def)
  then have rel: "release lk e ?a = Ret () e (released lk ?a)"
    using h held_acquired [OF ok(1), of "Proc_lock p"]
    by (intro release_exec) (simp_all add: holds_only_def)
  have "procs (released lk ?a) = procs s" by (simp add: released_def acquired_def Let_def)
  then have up: "(released lk ?a)\<lparr>procs := (procs s)(p := (procs s p)\<lparr>p_chan := Some ch, p_state := SLEEPING\<rparr>)\<rparr> =
      asleep p ch lk s" "procs (released lk ?a) = procs s" by (simp_all add: asleep_def)
  note f = asleep_facts [OF h p(2), where ch = ch]
  have "sleep ch lk e s = bind sched (\<lambda>_. bind (upd_proc p (\<lambda>q. q\<lparr>p_chan := None\<rparr>)) (\<lambda>_.
      bind (release (Proc_lock p)) (\<lambda>_. acquire lk))) e (asleep p ch lk s)"
    unfolding sleep_def using rel up
    by (simp add: curproc_exec [OF ok(1) p(1)] ok(2) acquire_exec [OF p(2)] upd_proc_def)
  moreover have "sched e (asleep p ch lk s) = bind swtch (\<lambda>_. bind mycpu (\<lambda>c'.
     upd_cpu c' (\<lambda>k. k\<lparr>c_intena := c_intena (cpus s (myid s))\<rparr>))) e (asleep p ch lk s)"
    using sched_exec [of "asleep p ch lk s" p e] f p(1) by simp
  ultimately show ?thesis
    by (cases e) (simp_all add: resume_def swtch_def mycpu_exec upd_cpu_def)
qed

subsection \<open>Properties\<close>

definition trapframe0 :: trapframe where
  "trapframe0 = \<lparr>tf_kernel_satp = 0, tf_kernel_sp = 0, tf_kernel_trap = 0, tf_epc = 0, tf_kernel_hartid = 0,
     tf_ra = 0, tf_sp = 0, tf_gp = 0, tf_tp = 0, tf_t0 = 0, tf_t1 = 0, tf_t2 = 0, tf_s0 = 0, tf_s1 = 0,
     tf_a0 = 0, tf_a1 = 0, tf_a2 = 0, tf_a3 = 0, tf_a4 = 0, tf_a5 = 0, tf_a6 = 0, tf_a7 = 0, tf_s2 = 0,
     tf_s3 = 0, tf_s4 = 0, tf_s5 = 0, tf_s6 = 0, tf_s7 = 0, tf_s8 = 0, tf_s9 = 0, tf_s10 = 0, tf_s11 = 0,
     tf_t3 = 0, tf_t4 = 0, tf_t5 = 0, tf_t6 = 0\<rparr>"

definition proc0 :: proc where
  "proc0 = \<lparr>p_state = UNUSED, p_chan = None, p_killed = 0, p_xstate = 0, p_pid = 0, p_parent = None,
     p_kstack = 0, p_sz = 0, p_pagetable = 0, p_trapframe = 0, p_context = context0, p_ofile = (\<lambda>_. None),
     p_cwd = None, p_name = replicate 16 0, p_trace_mask = 0\<rparr>"

text \<open>Process 1 runs on hart 0, process 3 sleeps on \<open>ticks\<close>; all locks are free.\<close>

definition pst0 :: pstate where
  "pst0 = \<lparr>cur = 0, harts = hart0, cpus = (\<lambda>_. cpu0\<lparr>c_proc := Some 1\<rparr>), locks = (\<lambda>_. spinlock0),
     mem = (\<lambda>_. 0), kend = 0x80021000, freelist = 0, kernel_pagetable = 0, etext = 0x80008000,
     trampoline = 0x80007000,
     procs = (\<lambda>_. proc0)(1 := proc0\<lparr>p_state := RUNNING, p_pid := 7\<rparr>,
        3 := proc0\<lparr>p_state := SLEEPING, p_chan := Some Chan_ticks, p_pid := 9\<rparr>),
     initproc = Some 0, nextpid = 10, ticks = 0, tframe = (\<lambda>_. trapframe0), forkret_addr = 0\<rparr>"

lemma pst0_ok: "cpu_ok pst0" "proc_locks_free pst0" "lock_free l pst0" "myid pst0 = 0"
  "c_proc (cpus pst0 0) = Some 1"
  by (simp_all add: pst0_def cpu_ok_def proc_locks_free_def lock_free_def spinlock0_def cpu0_def
      myid_def hart0_def)

text \<open>
  C23. \<open>wakeup(chan)\<close> makes runnable exactly the processes that sleep on \<open>chan\<close>, the
  caller excepted; it changes no other field, no other process and nothing else of
  the kernel, and it takes and gives back every \<open>p->lock\<close>.
\<close>

theorem wakeup_correct:
  assumes "cpu_ok s" "proc_locks_free s"
  shows "wakeup ch e s = Ret () e ((intena_saved s)\<lparr>procs := (\<lambda>p.
     if p < NPROC \<and> Some p \<noteq> c_proc (cpus s (myid s)) \<and> p_state (procs s p) = SLEEPING \<and> p_chan (procs s p) = ch
     then (procs s p)\<lparr>p_state := RUNNABLE\<rparr> else procs s p)\<rparr>)"
proof -
  have "(\<lambda>p. if p < NPROC then woken ch (c_proc (cpus s (myid s))) p (procs s p) else procs s p) =
     (\<lambda>p. if p < NPROC \<and> Some p \<noteq> c_proc (cpus s (myid s)) \<and> p_state (procs s p) = SLEEPING \<and> p_chan (procs s p) = ch
        then (procs s p)\<lparr>p_state := RUNNABLE\<rparr> else procs s p)"
    by (auto simp: woken_def fun_eq_iff)
  with wakeup_exec [OF assms] show ?thesis by simp
qed

theorem wakeup_correct_witness:
  "\<exists>s'. wakeup (Some Chan_ticks) [] pst0 = Ret () [] s' \<and> p_state (procs s' 3) = RUNNABLE \<and>
     p_state (procs s' 1) = RUNNING \<and> p_state (procs s' 2) = UNUSED"
proof -
  have "p_state (procs pst0 3) = SLEEPING" "p_chan (procs pst0 3) = Some Chan_ticks"
    "p_state (procs pst0 1) = RUNNING" "p_state (procs pst0 2) = UNUSED"
    by (simp_all add: pst0_def proc0_def)
  with wakeup_correct [OF pst0_ok(1,2), of "Some Chan_ticks" "[]"] show ?thesis
    by (simp add: pst0_ok NPROC_def)
qed

text \<open>
  C24. \<open>kill(pid)\<close> marks the first process with that pid as killed and, if it sleeps,
  makes it runnable; it returns 0 then and -1, with nothing changed, when no process
  has the pid.
\<close>

theorem kill_correct:
  assumes "cpu_ok s" "proc_locks_free s"
  shows "kill pid e s = (case find (\<lambda>p. p_pid (procs s p) = pid) [0..<NPROC] of
       None \<Rightarrow> Ret (- 1) e (intena_saved s)
     | Some p \<Rightarrow> Ret 0 e ((intena_saved s)\<lparr>procs := (procs s)(p :=
         if p_state (procs s p) = SLEEPING then (procs s p)\<lparr>p_killed := 1, p_state := RUNNABLE\<rparr>
         else (procs s p)\<lparr>p_killed := 1\<rparr>)\<rparr>))"
  using kill_exec [OF assms] by (simp add: killed_proc_def split: option.split)

theorem kill_correct_witness:
  "(\<exists>s'. kill 9 [] pst0 = Ret 0 [] s' \<and> p_killed (procs s' 3) = 1 \<and> p_state (procs s' 3) = RUNNABLE) \<and>
   kill 12 [] pst0 = Ret (- 1) [] (intena_saved pst0)"
proof -
  have pid: "p_pid (procs pst0 p) = (if p = 1 then 7 else if p = 3 then 9 else 0)" for p
    by (simp add: pst0_def proc0_def)
  have 9: "find (\<lambda>p. p_pid (procs pst0 p) = 9) [0..<NPROC] = Some 3"
    by (simp add: pid NPROC_def upt_rec)
  have 12: "find (\<lambda>p. p_pid (procs pst0 p) = 12) [0..<NPROC] = None"
    by (simp add: pid find_None_iff)
  have "p_state (procs pst0 3) = SLEEPING" by (simp add: pst0_def)
  with kill_correct [OF pst0_ok(1,2), of 9 "[]"] kill_correct [OF pst0_ok(1,2), of 12 "[]"] 9 12
  show ?thesis by simp
qed

text \<open>C25. \<open>nproc()\<close> returns the number of processes whose state is not \<open>UNUSED\<close>.\<close>

theorem nproc_counts:
  assumes "cpu_ok s" "proc_locks_free s"
  shows "nproc e s = Ret (int (card {p. p < NPROC \<and> p_state (procs s p) \<noteq> UNUSED})) e (intena_saved s)"
  by (rule nproc_exec [OF assms])

theorem nproc_counts_witness: "nproc [] pst0 = Ret 2 [] (intena_saved pst0)"
proof -
  have "{p. p < NPROC \<and> p_state (procs pst0 p) \<noteq> UNUSED} = {1, 3}"
    by (auto simp: pst0_def proc0_def NPROC_def split: if_splits)
  then have "card {p. p < NPROC \<and> p_state (procs pst0 p) \<noteq> UNUSED} = 2" by simp
  with nproc_counts [OF pst0_ok(1,2), of "[]"] show ?thesis by simp
qed


end
