(* ===== verification/Sleeplock.thy ===== *)
theory Sleeplock
  imports Sched
begin

section \<open>Sleep locks: \<open>kernel/sleeplock.h\<close>, \<open>kernel/sleeplock.c\<close>\<close>

text \<open>
  Locks that a process holds across disk operations. The kernel has one in every buffer
  and one in every in-memory inode; \<open>slockid\<close> says which one a pointer points to, and
  gives the spinlock inside it and the channel its waiters sleep on.
\<close>

record sleeplock =
  sl_locked :: uint32
  sl_name :: string
  sl_pid :: int

datatype slockid = Buf_lock nat | Inode_lock nat

record sstate = pstate +
  slocks :: "slockid \<Rightarrow> sleeplock"

fun sl_lk :: "slockid \<Rightarrow> lockid" where
  "sl_lk (Buf_lock i) = Buf_lk i"
| "sl_lk (Inode_lock i) = Inode_lk i"

fun sl_chan :: "slockid \<Rightarrow> chan" where
  "sl_chan (Buf_lock i) = Chan_buf_lock i"
| "sl_chan (Inode_lock i) = Chan_inode_lock i"

definition upd_slock :: "slockid \<Rightarrow> (sleeplock \<Rightarrow> sleeplock) \<Rightarrow> ('z sstate_scheme, unit) M" where
  "upd_slock l f = modify (\<lambda>s. s\<lparr>slocks := (slocks s)(l := f (slocks s l))\<rparr>)"

definition initsleeplock :: "slockid \<Rightarrow> string \<Rightarrow> ('z sstate_scheme, unit) M" where
  "initsleeplock l name =
     bind (initlock (sl_lk l) ''sleep lock'') (\<lambda>_.
     upd_slock l (\<lambda>_. \<lparr>sl_locked = 0, sl_name = name, sl_pid = 0\<rparr>))"

definition acquiresleep :: "slockid \<Rightarrow> ('z sstate_scheme, unit) M" where
  "acquiresleep l =
     bind (acquire (sl_lk l)) (\<lambda>_.
     bind (while_sleep
       (bind (gets (\<lambda>s. sl_locked (slocks s l))) (\<lambda>k.
        if k \<noteq> 0 then bind (sleep (sl_chan l) (sl_lk l)) (\<lambda>_. return None)
        else return (Some ())))) (\<lambda>_.
     bind (upd_slock l (\<lambda>k. k\<lparr>sl_locked := 1\<rparr>)) (\<lambda>_.
     bind curproc (\<lambda>p.
     bind (get_proc p p_pid) (\<lambda>pid.
     bind (upd_slock l (\<lambda>k. k\<lparr>sl_pid := pid\<rparr>)) (\<lambda>_.
     release (sl_lk l)))))))"

definition releasesleep :: "slockid \<Rightarrow> ('z sstate_scheme, unit) M" where
  "releasesleep l =
     bind (acquire (sl_lk l)) (\<lambda>_.
     bind (upd_slock l (\<lambda>k. k\<lparr>sl_locked := 0, sl_pid := 0\<rparr>)) (\<lambda>_.
     bind (wakeup (Some (sl_chan l))) (\<lambda>_.
     release (sl_lk l))))"

definition holdingsleep :: "slockid \<Rightarrow> ('z sstate_scheme, bool) M" where
  "holdingsleep l =
     bind (acquire (sl_lk l)) (\<lambda>_.
     bind (gets (\<lambda>s. slocks s l)) (\<lambda>k.
     bind (if sl_locked k \<noteq> 0
        then bind curproc (\<lambda>p. bind (get_proc p p_pid) (\<lambda>pid. return (sl_pid k = pid)))
        else return False) (\<lambda>r.
     bind (release (sl_lk l)) (\<lambda>_.
     return r))))"

end
