(* ===== verification/Virtio.thy ===== *)
theory Virtio
  imports Sleeplock
begin

unbundle bit_operations_syntax

section \<open>The disk driver: \<open>kernel/virtio.h\<close>, \<open>kernel/virtio_disk.c\<close>, \<open>kernel/buf.h\<close>\<close>

text \<open>
  The buffers of \<open>buf.h\<close>, with index \<open>NBUF\<close> for the list head \<open>bcache.head\<close>, and the
  state of the driver. The structures in \<open>disk.pages\<close> that the driver shares with the
  device are kept by field; a descriptor's address is one of the three things the driver
  puts there. A memory-mapped register is a cell that driver and device share. The disk
  itself is a sequence of bytes, \<open>image\<close>, that no kernel code touches: the device moves
  data in its own steps, which belong to the environment.
\<close>

definition BSIZE :: nat where [layout_defs]: "BSIZE = 1024"

record buf =
  b_valid :: int
  b_disk :: int
  b_dev :: uint32
  b_blockno :: uint32
  b_refcnt :: uint32
  b_prev :: nat
  b_next :: nat
  b_data :: "uint8 list"

definition VIRTIO_MMIO_MAGIC_VALUE :: uint64 where [layout_defs]: "VIRTIO_MMIO_MAGIC_VALUE = 0x000"
definition VIRTIO_MMIO_VERSION :: uint64 where [layout_defs]: "VIRTIO_MMIO_VERSION = 0x004"
definition VIRTIO_MMIO_DEVICE_ID :: uint64 where [layout_defs]: "VIRTIO_MMIO_DEVICE_ID = 0x008"
definition VIRTIO_MMIO_VENDOR_ID :: uint64 where [layout_defs]: "VIRTIO_MMIO_VENDOR_ID = 0x00c"
definition VIRTIO_MMIO_DEVICE_FEATURES :: uint64 where [layout_defs]: "VIRTIO_MMIO_DEVICE_FEATURES = 0x010"
definition VIRTIO_MMIO_DRIVER_FEATURES :: uint64 where [layout_defs]: "VIRTIO_MMIO_DRIVER_FEATURES = 0x020"
definition VIRTIO_MMIO_GUEST_PAGE_SIZE :: uint64 where [layout_defs]: "VIRTIO_MMIO_GUEST_PAGE_SIZE = 0x028"
definition VIRTIO_MMIO_QUEUE_SEL :: uint64 where [layout_defs]: "VIRTIO_MMIO_QUEUE_SEL = 0x030"
definition VIRTIO_MMIO_QUEUE_NUM_MAX :: uint64 where [layout_defs]: "VIRTIO_MMIO_QUEUE_NUM_MAX = 0x034"
definition VIRTIO_MMIO_QUEUE_NUM :: uint64 where [layout_defs]: "VIRTIO_MMIO_QUEUE_NUM = 0x038"
definition VIRTIO_MMIO_QUEUE_PFN :: uint64 where [layout_defs]: "VIRTIO_MMIO_QUEUE_PFN = 0x040"
definition VIRTIO_MMIO_QUEUE_NOTIFY :: uint64 where [layout_defs]: "VIRTIO_MMIO_QUEUE_NOTIFY = 0x050"
definition VIRTIO_MMIO_INTERRUPT_STATUS :: uint64 where [layout_defs]: "VIRTIO_MMIO_INTERRUPT_STATUS = 0x060"
definition VIRTIO_MMIO_INTERRUPT_ACK :: uint64 where [layout_defs]: "VIRTIO_MMIO_INTERRUPT_ACK = 0x064"
definition VIRTIO_MMIO_STATUS :: uint64 where [layout_defs]: "VIRTIO_MMIO_STATUS = 0x070"

definition VIRTIO_CONFIG_S_ACKNOWLEDGE :: uint32 where [layout_defs]: "VIRTIO_CONFIG_S_ACKNOWLEDGE = 1"
definition VIRTIO_CONFIG_S_DRIVER :: uint32 where [layout_defs]: "VIRTIO_CONFIG_S_DRIVER = 2"
definition VIRTIO_CONFIG_S_DRIVER_OK :: uint32 where [layout_defs]: "VIRTIO_CONFIG_S_DRIVER_OK = 4"
definition VIRTIO_CONFIG_S_FEATURES_OK :: uint32 where [layout_defs]: "VIRTIO_CONFIG_S_FEATURES_OK = 8"

definition VIRTIO_BLK_F_RO :: nat where [layout_defs]: "VIRTIO_BLK_F_RO = 5"
definition VIRTIO_BLK_F_SCSI :: nat where [layout_defs]: "VIRTIO_BLK_F_SCSI = 7"
definition VIRTIO_BLK_F_CONFIG_WCE :: nat where [layout_defs]: "VIRTIO_BLK_F_CONFIG_WCE = 11"
definition VIRTIO_BLK_F_MQ :: nat where [layout_defs]: "VIRTIO_BLK_F_MQ = 12"
definition VIRTIO_F_ANY_LAYOUT :: nat where [layout_defs]: "VIRTIO_F_ANY_LAYOUT = 27"
definition VIRTIO_RING_F_INDIRECT_DESC :: nat where [layout_defs]: "VIRTIO_RING_F_INDIRECT_DESC = 28"
definition VIRTIO_RING_F_EVENT_IDX :: nat where [layout_defs]: "VIRTIO_RING_F_EVENT_IDX = 29"

definition NUM :: nat where [layout_defs]: "NUM = 8"
definition VRING_DESC_F_NEXT :: uint16 where [layout_defs]: "VRING_DESC_F_NEXT = 1"
definition VRING_DESC_F_WRITE :: uint16 where [layout_defs]: "VRING_DESC_F_WRITE = 2"
definition VIRTIO_BLK_T_IN :: uint32 where [layout_defs]: "VIRTIO_BLK_T_IN = 0"
definition VIRTIO_BLK_T_OUT :: uint32 where [layout_defs]: "VIRTIO_BLK_T_OUT = 1"

text \<open>What a descriptor's \<open>addr\<close> holds: 0, \<open>&disk.ops[i]\<close>, \<open>b->data\<close> or \<open>&disk.info[i].status\<close>.\<close>

datatype dma_addr = Dma_null | Dma_op nat | Dma_data nat | Dma_status nat

record virtq_desc =
  d_addr :: dma_addr
  d_len :: uint32
  d_flags :: uint16
  d_next :: uint16

record virtq_avail =
  av_flags :: uint16
  av_idx :: uint16
  av_ring :: "nat \<Rightarrow> uint16"

record virtq_used_elem =
  ue_id :: uint32
  ue_len :: uint32

record virtq_used =
  us_flags :: uint16
  us_idx :: uint16
  us_ring :: "nat \<Rightarrow> virtq_used_elem"

record virtio_blk_req =
  req_type :: uint32
  req_reserved :: uint32
  req_sector :: uint64

record disk_info =
  in_b :: "nat option"
  in_status :: uint8

record disk =
  desc :: "nat \<Rightarrow> virtq_desc"
  avail :: virtq_avail
  used :: virtq_used
  free :: "nat \<Rightarrow> bool"
  used_idx :: uint16
  info :: "nat \<Rightarrow> disk_info"
  ops :: "nat \<Rightarrow> virtio_blk_req"
  disk_pages :: uint64

record vstate = sstate +
  bufs :: "nat \<Rightarrow> buf"
  vdisk :: disk
  vmmio :: "uint64 \<Rightarrow> uint32"
  image :: "nat \<Rightarrow> uint8"

definition get_buf :: "nat \<Rightarrow> (buf \<Rightarrow> 'a) \<Rightarrow> ('z vstate_scheme, 'a) M" where
  "get_buf b f = gets (\<lambda>s. f (bufs s b))"

definition upd_buf :: "nat \<Rightarrow> (buf \<Rightarrow> buf) \<Rightarrow> ('z vstate_scheme, unit) M" where
  "upd_buf b f = modify (\<lambda>s. s\<lparr>bufs := (bufs s)(b := f (bufs s b))\<rparr>)"

definition upd_disk :: "(disk \<Rightarrow> disk) \<Rightarrow> ('z vstate_scheme, unit) M" where
  "upd_disk f = modify (\<lambda>s. s\<lparr>vdisk := f (vdisk s)\<rparr>)"

definition mmio_read :: "uint64 \<Rightarrow> ('z vstate_scheme, uint32) M" where
  "mmio_read r = gets (\<lambda>s. vmmio s r)"

definition mmio_write :: "uint64 \<Rightarrow> uint32 \<Rightarrow> ('z vstate_scheme, unit) M" where
  "mmio_write r v = modify (\<lambda>s. s\<lparr>vmmio := (vmmio s)(r := v)\<rparr>)"

subsection \<open>Start-up\<close>

definition desc0 :: virtq_desc where
  "desc0 = \<lparr>d_addr = Dma_null, d_len = 0, d_flags = 0, d_next = 0\<rparr>"

definition avail0 :: virtq_avail where
  "avail0 = \<lparr>av_flags = 0, av_idx = 0, av_ring = (\<lambda>_. 0)\<rparr>"

definition used0 :: virtq_used where
  "used0 = \<lparr>us_flags = 0, us_idx = 0, us_ring = (\<lambda>_. \<lparr>ue_id = 0, ue_len = 0\<rparr>)\<rparr>"

definition virtio_features :: "uint64 \<Rightarrow> uint64" where
  "virtio_features f = foldl (\<lambda>f bit. f AND NOT (push_bit bit 1)) f
     [VIRTIO_BLK_F_RO, VIRTIO_BLK_F_SCSI, VIRTIO_BLK_F_CONFIG_WCE, VIRTIO_BLK_F_MQ,
      VIRTIO_F_ANY_LAYOUT, VIRTIO_RING_F_EVENT_IDX, VIRTIO_RING_F_INDIRECT_DESC]"

definition virtio_disk_init :: "('z vstate_scheme, unit) M" where
  "virtio_disk_init =
     bind (initlock Vdisk_lock ''virtio_disk'') (\<lambda>_.
     bind (mmio_read VIRTIO_MMIO_MAGIC_VALUE) (\<lambda>magic.
     bind (mmio_read VIRTIO_MMIO_VERSION) (\<lambda>version.
     bind (mmio_read VIRTIO_MMIO_DEVICE_ID) (\<lambda>dev.
     bind (mmio_read VIRTIO_MMIO_VENDOR_ID) (\<lambda>vendor.
     if magic \<noteq> 0x74726976 \<or> version \<noteq> 1 \<or> dev \<noteq> 2 \<or> vendor \<noteq> 0x554d4551
     then panic ''could not find virtio disk'' else
     bind (return VIRTIO_CONFIG_S_ACKNOWLEDGE) (\<lambda>status.
     bind (mmio_write VIRTIO_MMIO_STATUS status) (\<lambda>_.
     bind (return (status OR VIRTIO_CONFIG_S_DRIVER)) (\<lambda>status.
     bind (mmio_write VIRTIO_MMIO_STATUS status) (\<lambda>_.
     bind (mmio_read VIRTIO_MMIO_DEVICE_FEATURES) (\<lambda>features.
     bind (mmio_write VIRTIO_MMIO_DRIVER_FEATURES (ucast (virtio_features (ucast features)))) (\<lambda>_.
     bind (return (status OR VIRTIO_CONFIG_S_FEATURES_OK)) (\<lambda>status.
     bind (mmio_write VIRTIO_MMIO_STATUS status) (\<lambda>_.
     bind (return (status OR VIRTIO_CONFIG_S_DRIVER_OK)) (\<lambda>status.
     bind (mmio_write VIRTIO_MMIO_STATUS status) (\<lambda>_.
     bind (mmio_write VIRTIO_MMIO_GUEST_PAGE_SIZE (ucast PGSIZE)) (\<lambda>_.
     bind (mmio_write VIRTIO_MMIO_QUEUE_SEL 0) (\<lambda>_.
     bind (mmio_read VIRTIO_MMIO_QUEUE_NUM_MAX) (\<lambda>mx.
     if mx = 0 then panic ''virtio disk has no queue 0'' else
     if mx < of_nat NUM then panic ''virtio disk max queue too short'' else
     bind (mmio_write VIRTIO_MMIO_QUEUE_NUM (of_nat NUM)) (\<lambda>_.
     bind (upd_disk (\<lambda>d. d\<lparr>desc := (\<lambda>_. desc0), avail := avail0, used := used0\<rparr>)) (\<lambda>_.
     bind (gets (\<lambda>s. disk_pages (vdisk s))) (\<lambda>pages.
     bind (mmio_write VIRTIO_MMIO_QUEUE_PFN (ucast (drop_bit PGSHIFT pages))) (\<lambda>_.
     for_each [0..<NUM] (\<lambda>i.
       upd_disk (\<lambda>d. d\<lparr>free := (free d)(i := True)\<rparr>))))))))))))))))))))))))"

subsection \<open>Descriptors\<close>

text \<open>\<open>None\<close> is the \<open>-1\<close> of the code.\<close>

definition alloc_desc :: "('z vstate_scheme, nat option) M" where
  "alloc_desc = for_find [0..<NUM] (\<lambda>i.
     bind (gets (\<lambda>s. free (vdisk s) i)) (\<lambda>fr.
     if fr then
       bind (upd_disk (\<lambda>d. d\<lparr>free := (free d)(i := False)\<rparr>)) (\<lambda>_. return (Some i))
     else return None))"

definition free_desc :: "nat \<Rightarrow> ('z vstate_scheme, unit) M" where
  "free_desc i =
     (if i \<ge> NUM then panic ''free_desc 1'' else
      bind (gets (\<lambda>s. free (vdisk s) i)) (\<lambda>fr.
      if fr then panic ''free_desc 2'' else
      bind (upd_disk (\<lambda>d. d\<lparr>desc := (desc d)(i := desc0), free := (free d)(i := True)\<rparr>)) (\<lambda>_.
      wakeup (Some Chan_disk_free))))"

text \<open>The descriptors in use; every round of \<open>free_chain\<close> frees one of them or panics.\<close>

definition in_use :: "'z vstate_scheme \<Rightarrow> nat" where
  "in_use s = length (filter (\<lambda>i. \<not> free (vdisk s) i) [0..<NUM])"

definition free_chain :: "nat \<Rightarrow> ('z vstate_scheme, unit) M" where
  "free_chain i0 = loop_env (\<lambda>_. in_use) (\<lambda>i.
     bind (gets (\<lambda>s. d_flags (desc (vdisk s) i))) (\<lambda>flag.
     bind (gets (\<lambda>s. d_next (desc (vdisk s) i))) (\<lambda>nxt.
     bind (free_desc i) (\<lambda>_.
     return (if flag AND VRING_DESC_F_NEXT \<noteq> 0 then Inl (unat nxt) else Inr ()))))) i0"

definition alloc3_desc :: "('z vstate_scheme, nat list option) M" where
  "alloc3_desc =
     bind (for_fold [0..<3] [] (\<lambda>i idx.
       bind alloc_desc (\<lambda>r. case r of
         Some d \<Rightarrow> return (Inl (idx @ [d]))
       | None \<Rightarrow> bind (for_each idx free_desc) (\<lambda>_. return (Inr ()))))) (\<lambda>r.
     return (case r of Inl idx \<Rightarrow> Some idx | Inr _ \<Rightarrow> None))"

subsection \<open>Requests\<close>

definition BLOCK_SECTORS :: uint32 where [layout_defs]: "BLOCK_SECTORS = of_nat (BSIZE div 512)"

definition fill_request :: "nat \<Rightarrow> bool \<Rightarrow> uint64 \<Rightarrow> nat \<Rightarrow> nat \<Rightarrow> nat \<Rightarrow> disk \<Rightarrow> disk" where
  "fill_request b write sector i0 i1 i2 d =
     d\<lparr>ops := (ops d)(i0 := \<lparr>req_type = (if write then VIRTIO_BLK_T_OUT else VIRTIO_BLK_T_IN),
          req_reserved = 0, req_sector = sector\<rparr>),
       desc := (desc d)
         (i0 := \<lparr>d_addr = Dma_op i0, d_len = 16, d_flags = VRING_DESC_F_NEXT, d_next = of_nat i1\<rparr>,
          i1 := \<lparr>d_addr = Dma_data b, d_len = of_nat BSIZE,
             d_flags = (if write then 0 else VRING_DESC_F_WRITE) OR VRING_DESC_F_NEXT, d_next = of_nat i2\<rparr>,
          i2 := \<lparr>d_addr = Dma_status i0, d_len = 1, d_flags = VRING_DESC_F_WRITE, d_next = 0\<rparr>),
       info := (info d)(i0 := \<lparr>in_b = Some b, in_status = 0xff\<rparr>)\<rparr>"

definition submit :: "nat \<Rightarrow> disk \<Rightarrow> disk" where
  "submit i0 d = d\<lparr>avail := (avail d)
     \<lparr>av_ring := (av_ring (avail d))(unat (av_idx (avail d)) mod NUM := of_nat i0),
      av_idx := av_idx (avail d) + 1\<rparr>\<rparr>"

definition virtio_disk_rw :: "nat \<Rightarrow> bool \<Rightarrow> ('z vstate_scheme, unit) M" where
  "virtio_disk_rw b write =
     bind (get_buf b b_blockno) (\<lambda>blockno.
     bind (return (ucast (blockno * BLOCK_SECTORS))) (\<lambda>sector.
     bind (acquire Vdisk_lock) (\<lambda>_.
     bind (while_sleep
       (bind alloc3_desc (\<lambda>r. case r of
          Some idx \<Rightarrow> return (Some idx)
        | None \<Rightarrow> bind (sleep Chan_disk_free Vdisk_lock) (\<lambda>_. return None)))) (\<lambda>idx.
     bind (upd_disk (fill_request b write sector (idx ! 0) (idx ! 1) (idx ! 2))) (\<lambda>_.
     bind (upd_buf b (\<lambda>x. x\<lparr>b_disk := 1\<rparr>)) (\<lambda>_.
     bind (upd_disk (submit (idx ! 0))) (\<lambda>_.
     bind (mmio_write VIRTIO_MMIO_QUEUE_NOTIFY 0) (\<lambda>_.
     bind (while_sleep
       (bind (get_buf b b_disk) (\<lambda>d.
        if d = 1 then bind (sleep (Chan_disk_buf b) Vdisk_lock) (\<lambda>_. return None)
        else return (Some ())))) (\<lambda>_.
     bind (upd_disk (\<lambda>d. d\<lparr>info := (info d)(idx ! 0 := (info d (idx ! 0))\<lparr>in_b := None\<rparr>)\<rparr>)) (\<lambda>_.
     bind (free_chain (idx ! 0)) (\<lambda>_.
     release Vdisk_lock)))))))))))"

text \<open>
  Every round takes one entry of the used ring. A completed request that names no
  descriptor or no buffer is a bad pointer.
\<close>

definition disk_intr_round :: "('z vstate_scheme, unit option) M" where
  "disk_intr_round =
     bind (gets vdisk) (\<lambda>d.
     if used_idx d = us_idx (used d) then return (Some ()) else
     bind (return (unat (ue_id (us_ring (used d) (unat (used_idx d) mod NUM))))) (\<lambda>id.
     if id \<ge> NUM then fault else
     if in_status (info d id) \<noteq> 0 then panic ''virtio_disk_intr status'' else
     bind (deref (in_b (info d id))) (\<lambda>b.
     bind (upd_buf b (\<lambda>x. x\<lparr>b_disk := 0\<rparr>)) (\<lambda>_.
     bind (wakeup (Some (Chan_disk_buf b))) (\<lambda>_.
     bind (upd_disk (\<lambda>d. d\<lparr>used_idx := used_idx d + 1\<rparr>)) (\<lambda>_.
     return None))))))"

definition virtio_disk_intr :: "('z vstate_scheme, unit) M" where
  "virtio_disk_intr =
     bind (acquire Vdisk_lock) (\<lambda>_.
     bind (mmio_read VIRTIO_MMIO_INTERRUPT_STATUS) (\<lambda>st.
     bind (mmio_write VIRTIO_MMIO_INTERRUPT_ACK (st AND 0x3)) (\<lambda>_.
     bind (while_dec (\<lambda>s. unat (us_idx (used (vdisk s)) - used_idx (vdisk s))) disk_intr_round) (\<lambda>_.
     release Vdisk_lock))))"

end
