(* ===== verification/Bio.thy ===== *)
theory Bio
  imports Virtio
begin

section \<open>The buffer cache: \<open>kernel/bio.c\<close>\<close>

text \<open>
  A pointer to a buffer is its index in \<open>bcache.buf\<close>, and \<open>NBUF\<close> is \<open>bcache.head\<close>. The
  buffers are on a doubly linked list, most recently used first. A walk along the list
  that has not come back to the head after \<open>NBUF\<close> steps has met a buffer twice and
  never ends.
\<close>

abbreviation bhead :: nat where "bhead \<equiv> NBUF"

definition binit :: "('z vstate_scheme, unit) M" where
  "binit =
     bind (initlock Bcache_lock ''bcache'') (\<lambda>_.
     bind (upd_buf bhead (\<lambda>h. h\<lparr>b_prev := bhead, b_next := bhead\<rparr>)) (\<lambda>_.
     for_each [0..<NBUF] (\<lambda>b.
       bind (get_buf bhead b_next) (\<lambda>first.
       bind (upd_buf b (\<lambda>x. x\<lparr>b_next := first, b_prev := bhead\<rparr>)) (\<lambda>_.
       bind (initsleeplock (Buf_lock b) ''buffer'') (\<lambda>_.
       bind (upd_buf first (\<lambda>x. x\<lparr>b_prev := b\<rparr>)) (\<lambda>_.
       upd_buf bhead (\<lambda>h. h\<lparr>b_next := b\<rparr>))))))))"

primrec bscan :: "nat \<Rightarrow> (buf \<Rightarrow> nat) \<Rightarrow> (buf \<Rightarrow> bool) \<Rightarrow> (nat \<Rightarrow> buf) \<Rightarrow> nat \<Rightarrow> nat option option" where
  "bscan 0 link P bs b = None"
| "bscan (Suc n) link P bs b =
     (if b = bhead then Some None
      else if P (bs b) then Some (Some b)
      else bscan n link P bs (link (bs b)))"

definition bget :: "uint32 \<Rightarrow> uint32 \<Rightarrow> ('z vstate_scheme, nat) M" where
  "bget dev blockno =
     bind (acquire Bcache_lock) (\<lambda>_.
     bind (gets bufs) (\<lambda>bs.
     bind (of_loop (bscan (NBUF + 1) b_next (\<lambda>x. b_dev x = dev \<and> b_blockno x = blockno) bs (b_next (bs bhead)))) (\<lambda>hit.
     case hit of
       Some b \<Rightarrow>
         bind (upd_buf b (\<lambda>x. x\<lparr>b_refcnt := b_refcnt x + 1\<rparr>)) (\<lambda>_.
         bind (release Bcache_lock) (\<lambda>_.
         bind (acquiresleep (Buf_lock b)) (\<lambda>_.
         return b)))
     | None \<Rightarrow>
         bind (of_loop (bscan (NBUF + 1) b_prev (\<lambda>x. b_refcnt x = 0) bs (b_prev (bs bhead)))) (\<lambda>lru.
         case lru of
           Some b \<Rightarrow>
             bind (upd_buf b (\<lambda>x. x\<lparr>b_dev := dev, b_blockno := blockno, b_valid := 0, b_refcnt := 1\<rparr>)) (\<lambda>_.
             bind (release Bcache_lock) (\<lambda>_.
             bind (acquiresleep (Buf_lock b)) (\<lambda>_.
             return b)))
         | None \<Rightarrow> panic ''bget: no buffers''))))"

definition bread :: "uint32 \<Rightarrow> uint32 \<Rightarrow> ('z vstate_scheme, nat) M" where
  "bread dev blockno =
     bind (bget dev blockno) (\<lambda>b.
     bind (get_buf b b_valid) (\<lambda>valid.
     bind (whenM (valid = 0)
       (bind (virtio_disk_rw b False) (\<lambda>_.
        upd_buf b (\<lambda>x. x\<lparr>b_valid := 1\<rparr>)))) (\<lambda>_.
     return b)))"

definition bwrite :: "nat \<Rightarrow> ('z vstate_scheme, unit) M" where
  "bwrite b =
     bind (holdingsleep (Buf_lock b)) (\<lambda>h.
     if \<not> h then panic ''bwrite'' else virtio_disk_rw b True)"

text \<open>The six assignments that move \<open>b\<close> to the front of the list.\<close>

definition move_to_front :: "nat \<Rightarrow> ('z vstate_scheme, unit) M" where
  "move_to_front b =
     bind (get_buf b b_next) (\<lambda>n.
     bind (get_buf b b_prev) (\<lambda>p.
     bind (upd_buf n (\<lambda>x. x\<lparr>b_prev := p\<rparr>)) (\<lambda>_.
     bind (get_buf b b_prev) (\<lambda>p.
     bind (get_buf b b_next) (\<lambda>n.
     bind (upd_buf p (\<lambda>x. x\<lparr>b_next := n\<rparr>)) (\<lambda>_.
     bind (get_buf bhead b_next) (\<lambda>first.
     bind (upd_buf b (\<lambda>x. x\<lparr>b_next := first\<rparr>)) (\<lambda>_.
     bind (upd_buf b (\<lambda>x. x\<lparr>b_prev := bhead\<rparr>)) (\<lambda>_.
     bind (get_buf bhead b_next) (\<lambda>first.
     bind (upd_buf first (\<lambda>x. x\<lparr>b_prev := b\<rparr>)) (\<lambda>_.
     upd_buf bhead (\<lambda>h. h\<lparr>b_next := b\<rparr>))))))))))))"

definition brelse :: "nat \<Rightarrow> ('z vstate_scheme, unit) M" where
  "brelse b =
     bind (holdingsleep (Buf_lock b)) (\<lambda>h.
     if \<not> h then panic ''brelse'' else
     bind (releasesleep (Buf_lock b)) (\<lambda>_.
     bind (acquire Bcache_lock) (\<lambda>_.
     bind (upd_buf b (\<lambda>x. x\<lparr>b_refcnt := b_refcnt x - 1\<rparr>)) (\<lambda>_.
     bind (get_buf b b_refcnt) (\<lambda>refcnt.
     bind (whenM (refcnt = 0) (move_to_front b)) (\<lambda>_.
     release Bcache_lock))))))"

definition bpin :: "nat \<Rightarrow> ('z vstate_scheme, unit) M" where
  "bpin b =
     bind (acquire Bcache_lock) (\<lambda>_.
     bind (upd_buf b (\<lambda>x. x\<lparr>b_refcnt := b_refcnt x + 1\<rparr>)) (\<lambda>_.
     release Bcache_lock))"

definition bunpin :: "nat \<Rightarrow> ('z vstate_scheme, unit) M" where
  "bunpin b =
     bind (acquire Bcache_lock) (\<lambda>_.
     bind (upd_buf b (\<lambda>x. x\<lparr>b_refcnt := b_refcnt x - 1\<rparr>)) (\<lambda>_.
     release Bcache_lock))"

end
