(* ===== verification/Log.thy ===== *)
theory Log
  imports Bio
begin

section \<open>The log: \<open>kernel/log.c\<close>, the superblock of \<open>kernel/fs.h\<close>\<close>

text \<open>
  The on-disk header is read from and written to the bytes of its buffer at the offsets
  the C compiler gives the fields of \<open>struct logheader\<close>: \<open>n\<close> at 0 and \<open>block[i]\<close> at
  \<open>4 + 4 i\<close>. An index past \<open>LOGSIZE\<close> in the in-memory header is a bad access.
\<close>

definition get_word :: "uint8 list \<Rightarrow> nat \<Rightarrow> uint32" where
  "get_word bs off = of_le (take 4 (drop off bs))"

definition put_list :: "nat \<Rightarrow> 'a list \<Rightarrow> 'a list \<Rightarrow> 'a list" where
  "put_list off ys xs = take off xs @ ys @ drop (off + length ys) xs"

definition put_word :: "nat \<Rightarrow> uint32 \<Rightarrow> uint8 list \<Rightarrow> uint8 list" where
  "put_word off w bs = put_list off (to_le 4 w) bs"

record superblock =
  sb_magic :: uint32
  sb_size :: uint32
  sb_nblocks :: uint32
  sb_ninodes :: uint32
  sb_nlog :: uint32
  sb_logstart :: uint32
  sb_inodestart :: uint32
  sb_bmapstart :: uint32

record logheader =
  lh_n :: int
  lh_block :: "nat \<Rightarrow> int"

definition LOGHEADER_SIZE :: nat where [layout_defs]: "LOGHEADER_SIZE = 4 + 4 * LOGSIZE"

record log =
  lg_start :: int
  lg_size :: int
  lg_outstanding :: int
  lg_committing :: int
  lg_dev :: int
  lg_lh :: logheader

record lstate = vstate +
  klog :: log

definition get_log :: "(log \<Rightarrow> 'a) \<Rightarrow> ('z lstate_scheme, 'a) M" where
  "get_log f = gets (\<lambda>s. f (klog s))"

definition upd_log :: "(log \<Rightarrow> log) \<Rightarrow> ('z lstate_scheme, unit) M" where
  "upd_log f = modify (\<lambda>s. s\<lparr>klog := f (klog s)\<rparr>)"

definition set_lh_n :: "int \<Rightarrow> log \<Rightarrow> log" where
  "set_lh_n n l = l\<lparr>lg_lh := (lg_lh l)\<lparr>lh_n := n\<rparr>\<rparr>"

definition set_lh_block :: "nat \<Rightarrow> int \<Rightarrow> log \<Rightarrow> log" where
  "set_lh_block i v l = l\<lparr>lg_lh := (lg_lh l)\<lparr>lh_block := (lh_block (lg_lh l))(i := v)\<rparr>\<rparr>"

subsection \<open>Moving blocks between the log, the cache and the disk\<close>

definition install_trans :: "bool \<Rightarrow> ('z lstate_scheme, unit) M" where
  "install_trans recovering =
     bind (get_log (\<lambda>l. lh_n (lg_lh l))) (\<lambda>n.
     for_each [0..<nat n] (\<lambda>tail.
       bind (get_log id) (\<lambda>l.
       bind (bread (of_int (lg_dev l)) (of_int (lg_start l + int tail + 1))) (\<lambda>lbuf.
       bind (get_log id) (\<lambda>l.
       if tail \<ge> LOGSIZE then fault else
       bind (bread (of_int (lg_dev l)) (of_int (lh_block (lg_lh l) tail))) (\<lambda>dbuf.
       bind (get_buf lbuf b_data) (\<lambda>bs.
       bind (upd_buf dbuf (\<lambda>x. x\<lparr>b_data := bs\<rparr>)) (\<lambda>_.
       bind (bwrite dbuf) (\<lambda>_.
       bind (whenM (\<not> recovering) (bunpin dbuf)) (\<lambda>_.
       bind (brelse lbuf) (\<lambda>_.
       brelse dbuf)))))))))))"

definition read_head :: "('z lstate_scheme, unit) M" where
  "read_head =
     bind (get_log id) (\<lambda>l.
     bind (bread (of_int (lg_dev l)) (of_int (lg_start l))) (\<lambda>b.
     bind (get_buf b b_data) (\<lambda>lh.
     bind (upd_log (set_lh_n (sint (get_word lh 0)))) (\<lambda>_.
     bind (get_log (\<lambda>l. lh_n (lg_lh l))) (\<lambda>n.
     bind (for_each [0..<nat n] (\<lambda>i.
       if i \<ge> LOGSIZE then fault else
       upd_log (set_lh_block i (sint (get_word lh (4 + 4 * i)))))) (\<lambda>_.
     brelse b))))))"

definition write_head :: "('z lstate_scheme, unit) M" where
  "write_head =
     bind (get_log id) (\<lambda>l.
     bind (bread (of_int (lg_dev l)) (of_int (lg_start l))) (\<lambda>b.
     bind (get_log (\<lambda>l. lh_n (lg_lh l))) (\<lambda>n.
     bind (upd_buf b (\<lambda>x. x\<lparr>b_data := put_word 0 (of_int n) (b_data x)\<rparr>)) (\<lambda>_.
     bind (for_each [0..<nat n] (\<lambda>i.
       if i \<ge> LOGSIZE then fault else
       bind (get_log (\<lambda>l. lh_block (lg_lh l) i)) (\<lambda>v.
       upd_buf b (\<lambda>x. x\<lparr>b_data := put_word (4 + 4 * i) (of_int v) (b_data x)\<rparr>)))) (\<lambda>_.
     bind (bwrite b) (\<lambda>_.
     brelse b))))))"

definition recover_from_log :: "('z lstate_scheme, unit) M" where
  "recover_from_log =
     bind read_head (\<lambda>_.
     bind (install_trans True) (\<lambda>_.
     bind (upd_log (set_lh_n 0)) (\<lambda>_.
     write_head)))"

definition initlog :: "int \<Rightarrow> superblock \<Rightarrow> ('z lstate_scheme, unit) M" where
  "initlog dev sb =
     (if LOGHEADER_SIZE \<ge> BSIZE then panic ''initlog: too big logheader'' else
      bind (initlock Log_lock ''log'') (\<lambda>_.
      bind (upd_log (\<lambda>l. l\<lparr>lg_start := sint (sb_logstart sb), lg_size := sint (sb_nlog sb), lg_dev := dev\<rparr>)) (\<lambda>_.
      recover_from_log)))"

definition write_log :: "('z lstate_scheme, unit) M" where
  "write_log =
     bind (get_log (\<lambda>l. lh_n (lg_lh l))) (\<lambda>n.
     for_each [0..<nat n] (\<lambda>tail.
       bind (get_log id) (\<lambda>l.
       bind (bread (of_int (lg_dev l)) (of_int (lg_start l + int tail + 1))) (\<lambda>to.
       bind (get_log id) (\<lambda>l.
       if tail \<ge> LOGSIZE then fault else
       bind (bread (of_int (lg_dev l)) (of_int (lh_block (lg_lh l) tail))) (\<lambda>from.
       bind (get_buf from b_data) (\<lambda>bs.
       bind (upd_buf to (\<lambda>x. x\<lparr>b_data := bs\<rparr>)) (\<lambda>_.
       bind (bwrite to) (\<lambda>_.
       bind (brelse from) (\<lambda>_.
       brelse to))))))))))"

definition commit :: "('z lstate_scheme, unit) M" where
  "commit =
     bind (get_log (\<lambda>l. lh_n (lg_lh l))) (\<lambda>n.
     whenM (n > 0)
       (bind write_log (\<lambda>_.
        bind write_head (\<lambda>_.
        bind (install_trans False) (\<lambda>_.
        bind (upd_log (set_lh_n 0)) (\<lambda>_.
        write_head))))))"

subsection \<open>Transactions\<close>

definition begin_op :: "('z lstate_scheme, unit) M" where
  "begin_op =
     bind (acquire Log_lock) (\<lambda>_.
     while_sleep
       (bind (get_log id) (\<lambda>l.
        if lg_committing l \<noteq> 0 then
          bind (sleep Chan_log Log_lock) (\<lambda>_. return None)
        else if lh_n (lg_lh l) + (lg_outstanding l + 1) * int MAXOPBLOCKS > int LOGSIZE then
          bind (sleep Chan_log Log_lock) (\<lambda>_. return None)
        else
          bind (upd_log (\<lambda>l. l\<lparr>lg_outstanding := lg_outstanding l + 1\<rparr>)) (\<lambda>_.
          bind (release Log_lock) (\<lambda>_.
          return (Some ()))))))"

definition end_op :: "('z lstate_scheme, unit) M" where
  "end_op =
     bind (acquire Log_lock) (\<lambda>_.
     bind (upd_log (\<lambda>l. l\<lparr>lg_outstanding := lg_outstanding l - 1\<rparr>)) (\<lambda>_.
     bind (get_log id) (\<lambda>l.
     if lg_committing l \<noteq> 0 then panic ''log.committing'' else
     bind (if lg_outstanding l = 0
        then bind (upd_log (\<lambda>l. l\<lparr>lg_committing := 1\<rparr>)) (\<lambda>_. return True)
        else bind (wakeup (Some Chan_log)) (\<lambda>_. return False)) (\<lambda>do_commit.
     bind (release Log_lock) (\<lambda>_.
     whenM do_commit
       (bind commit (\<lambda>_.
        bind (acquire Log_lock) (\<lambda>_.
        bind (upd_log (\<lambda>l. l\<lparr>lg_committing := 0\<rparr>)) (\<lambda>_.
        bind (wakeup (Some Chan_log)) (\<lambda>_.
        release Log_lock))))))))))"

definition log_write :: "nat \<Rightarrow> ('z lstate_scheme, unit) M" where
  "log_write b =
     bind (acquire Log_lock) (\<lambda>_.
     bind (get_log id) (\<lambda>l.
     if lh_n (lg_lh l) \<ge> int LOGSIZE \<or> lh_n (lg_lh l) \<ge> lg_size l - 1 then panic ''too big a transaction'' else
     if lg_outstanding l < 1 then panic ''log_write outside of trans'' else
     bind (get_buf b b_blockno) (\<lambda>blockno.
     bind (return (case find (\<lambda>i. of_int (lh_block (lg_lh l) i) = blockno) [0..<nat (lh_n (lg_lh l))] of
         Some i \<Rightarrow> i | None \<Rightarrow> nat (lh_n (lg_lh l)))) (\<lambda>i.
     bind (upd_log (set_lh_block i (sint blockno))) (\<lambda>_.
     bind (whenM (int i = lh_n (lg_lh l))
       (bind (bpin b) (\<lambda>_.
        upd_log (\<lambda>l. set_lh_n (lh_n (lg_lh l) + 1) l)))) (\<lambda>_.
     release Log_lock))))))"

end
