(* ===== verification/Fs.thy ===== *)
theory Fs
  imports Log
begin

unbundle bit_operations_syntax

section \<open>The file system: \<open>kernel/fs.h\<close>, \<open>kernel/stat.h\<close>, \<open>kernel/fs.c\<close>\<close>

text \<open>
  Blocks, inodes, directories and paths. A pointer to an in-memory inode is its index in
  \<open>itable.inode\<close>. \<open>short\<close> fields are 16-bit words. The on-disk inode is read from and
  written to the bytes of its buffer at the offsets of \<open>struct dinode\<close>: \<open>type\<close> 0,
  \<open>major\<close> 2, \<open>minor\<close> 4, \<open>nlink\<close> 6, \<open>size\<close> 8, \<open>addrs[i]\<close> \<open>12 + 4 i\<close>; a directory
  entry is \<open>inum\<close> at 0 and \<open>name\<close> at 2. A path is the list of its bytes before the NUL.
\<close>

definition ROOTINO :: uint32 where [layout_defs]: "ROOTINO = 1"
definition FSMAGIC :: uint32 where [layout_defs]: "FSMAGIC = 0x10203040"
definition NDIRECT :: nat where [layout_defs]: "NDIRECT = 12"
definition NINDIRECT :: nat where [layout_defs]: "NINDIRECT = BSIZE div 4"
definition MAXFILE :: nat where [layout_defs]: "MAXFILE = NDIRECT + NINDIRECT"
definition DINODE_SIZE :: nat where [layout_defs]: "DINODE_SIZE = 64"
definition IPB :: nat where [layout_defs]: "IPB = BSIZE div DINODE_SIZE"
definition BPB :: nat where [layout_defs]: "BPB = BSIZE * 8"
definition DIRSIZ :: nat where [layout_defs]: "DIRSIZ = 14"
definition DIRENT_SIZE :: nat where [layout_defs]: "DIRENT_SIZE = 2 + DIRSIZ"
definition T_DIR :: uint16 where [layout_defs]: "T_DIR = 1"
definition T_FILE :: uint16 where [layout_defs]: "T_FILE = 2"
definition T_DEVICE :: uint16 where [layout_defs]: "T_DEVICE = 3"

definition IBLOCK :: "uint32 \<Rightarrow> superblock \<Rightarrow> uint32" where
  "IBLOCK i sb = i div of_nat IPB + sb_inodestart sb"

definition BBLOCK :: "uint32 \<Rightarrow> superblock \<Rightarrow> uint32" where
  "BBLOCK b sb = b div of_nat BPB + sb_bmapstart sb"

record inode =
  i_dev :: uint32
  i_inum :: uint32
  i_ref :: int
  i_valid :: int
  i_type :: uint16
  i_major :: uint16
  i_minor :: uint16
  i_nlink :: uint16
  i_size :: uint32
  i_addrs :: "nat \<Rightarrow> uint32"

record stat =
  st_dev :: uint32
  st_ino :: uint32
  st_type :: uint16
  st_nlink :: uint16
  st_size :: uint64

record dirent =
  de_inum :: uint16
  de_name :: "uint8 list"

record fstate = lstate +
  sb :: superblock
  itable :: "nat \<Rightarrow> inode"

definition get_inode :: "nat \<Rightarrow> (inode \<Rightarrow> 'a) \<Rightarrow> ('z fstate_scheme, 'a) M" where
  "get_inode ip f = gets (\<lambda>s. f (itable s ip))"

definition upd_inode :: "nat \<Rightarrow> (inode \<Rightarrow> inode) \<Rightarrow> ('z fstate_scheme, unit) M" where
  "upd_inode ip f = modify (\<lambda>s. s\<lparr>itable := (itable s)(ip := f (itable s ip))\<rparr>)"

definition get_half :: "uint8 list \<Rightarrow> nat \<Rightarrow> uint16" where
  "get_half bs off = of_le (take 2 (drop off bs))"

definition put_half :: "nat \<Rightarrow> uint16 \<Rightarrow> uint8 list \<Rightarrow> uint8 list" where
  "put_half off w bs = put_list off (to_le 2 w) bs"

definition decode_dirent :: "uint8 list \<Rightarrow> dirent" where
  "decode_dirent bs = \<lparr>de_inum = get_half bs 0, de_name = take DIRSIZ (drop 2 bs)\<rparr>"

definition encode_dirent :: "dirent \<Rightarrow> uint8 list" where
  "encode_dirent de = to_le 2 (de_inum de) @ de_name de"

subsection \<open>Superblock and blocks\<close>

definition decode_superblock :: "uint8 list \<Rightarrow> superblock" where
  "decode_superblock bs = \<lparr>sb_magic = get_word bs 0, sb_size = get_word bs 4, sb_nblocks = get_word bs 8,
     sb_ninodes = get_word bs 12, sb_nlog = get_word bs 16, sb_logstart = get_word bs 20,
     sb_inodestart = get_word bs 24, sb_bmapstart = get_word bs 28\<rparr>"

definition readsb :: "uint32 \<Rightarrow> ('z fstate_scheme, unit) M" where
  "readsb dev =
     bind (bread dev 1) (\<lambda>bp.
     bind (get_buf bp b_data) (\<lambda>bs.
     bind (modify (\<lambda>s. s\<lparr>sb := decode_superblock bs\<rparr>)) (\<lambda>_.
     brelse bp)))"

definition fsinit :: "int \<Rightarrow> ('z fstate_scheme, unit) M" where
  "fsinit dev =
     bind (readsb (of_int dev)) (\<lambda>_.
     bind (gets sb) (\<lambda>b.
     if sb_magic b \<noteq> FSMAGIC then panic ''invalid file system'' else
     initlog dev b))"

definition bzero :: "uint32 \<Rightarrow> uint32 \<Rightarrow> ('z fstate_scheme, unit) M" where
  "bzero dev bno =
     bind (bread dev bno) (\<lambda>bp.
     bind (upd_buf bp (\<lambda>x. x\<lparr>b_data := replicate BSIZE 0\<rparr>)) (\<lambda>_.
     bind (log_write bp) (\<lambda>_.
     brelse bp)))"

text \<open>The bit of block \<open>bi\<close> in a bitmap block: \<open>data[bi/8] & (1 << bi % 8)\<close>.\<close>

definition bit_mask :: "nat \<Rightarrow> uint8" where
  "bit_mask bi = push_bit (bi mod 8) 1"

definition bit_used :: "uint8 list \<Rightarrow> nat \<Rightarrow> bool" where
  "bit_used data bi \<longleftrightarrow> data ! (bi div 8) AND bit_mask bi \<noteq> 0"

definition balloc :: "uint32 \<Rightarrow> ('z fstate_scheme, uint32) M" where
  "balloc dev =
     bind (gets (\<lambda>s. unat (sb_size (sb s)))) (\<lambda>size0.
     bind (for_find (map (\<lambda>k. k * BPB) [0..<(size0 + BPB - 1) div BPB]) (\<lambda>b.
       bind (gets sb) (\<lambda>sblk.
       bind (bread dev (BBLOCK (of_nat b) sblk)) (\<lambda>bp.
       bind (get_buf bp b_data) (\<lambda>data.
       case find (\<lambda>bi. \<not> bit_used data bi) [0..<min BPB (unat (sb_size sblk) - b)] of
         Some bi \<Rightarrow>
           bind (upd_buf bp (\<lambda>x. x\<lparr>b_data := data[bi div 8 := data ! (bi div 8) OR bit_mask bi]\<rparr>)) (\<lambda>_.
           bind (log_write bp) (\<lambda>_.
           bind (brelse bp) (\<lambda>_.
           bind (bzero dev (of_nat (b + bi))) (\<lambda>_.
           return (Some (of_nat (b + bi)))))))
       | None \<Rightarrow> bind (brelse bp) (\<lambda>_. return None)))))) (\<lambda>r.
     case r of Some blockno \<Rightarrow> return blockno | None \<Rightarrow> panic ''balloc: out of blocks''))"

definition bfree :: "uint32 \<Rightarrow> uint32 \<Rightarrow> ('z fstate_scheme, unit) M" where
  "bfree dev b =
     bind (gets sb) (\<lambda>sblk.
     bind (bread dev (BBLOCK b sblk)) (\<lambda>bp.
     bind (return (unat b mod BPB)) (\<lambda>bi.
     bind (get_buf bp b_data) (\<lambda>data.
     if \<not> bit_used data bi then panic ''freeing free block'' else
     bind (upd_buf bp (\<lambda>x. x\<lparr>b_data := data[bi div 8 := data ! (bi div 8) AND NOT (bit_mask bi)]\<rparr>)) (\<lambda>_.
     bind (log_write bp) (\<lambda>_.
     brelse bp))))))"

subsection \<open>Inodes\<close>

definition iinit :: "('z fstate_scheme, unit) M" where
  "iinit =
     bind (initlock Itable_lock ''itable'') (\<lambda>_.
     for_each [0..<NINODE] (\<lambda>i. initsleeplock (Inode_lock i) ''inode''))"

definition iget :: "uint32 \<Rightarrow> uint32 \<Rightarrow> ('z fstate_scheme, nat) M" where
  "iget dev inum =
     bind (acquire Itable_lock) (\<lambda>_.
     bind (for_fold [0..<NINODE] None (\<lambda>ip empty.
       bind (get_inode ip id) (\<lambda>x.
       if i_ref x > 0 \<and> i_dev x = dev \<and> i_inum x = inum then
         bind (upd_inode ip (\<lambda>x. x\<lparr>i_ref := i_ref x + 1\<rparr>)) (\<lambda>_.
         bind (release Itable_lock) (\<lambda>_.
         return (Inr ip)))
       else return (Inl (if empty = None \<and> i_ref x = 0 then Some ip else empty))))) (\<lambda>r.
     case r of
       Inr ip \<Rightarrow> return ip
     | Inl None \<Rightarrow> panic ''iget: no inodes''
     | Inl (Some ip) \<Rightarrow>
         bind (upd_inode ip (\<lambda>x. x\<lparr>i_dev := dev, i_inum := inum, i_ref := 1, i_valid := 0\<rparr>)) (\<lambda>_.
         bind (release Itable_lock) (\<lambda>_.
         return ip))))"

text \<open>Offset of inode \<open>inum\<close> in its block.\<close>

definition dinode_off :: "uint32 \<Rightarrow> nat" where
  "dinode_off inum = DINODE_SIZE * (unat inum mod IPB)"

definition ialloc :: "uint32 \<Rightarrow> uint16 \<Rightarrow> ('z fstate_scheme, nat) M" where
  "ialloc dev type =
     bind (gets (\<lambda>s. unat (sb_ninodes (sb s)))) (\<lambda>ninodes.
     bind (for_find [1..<ninodes] (\<lambda>inum.
       bind (gets sb) (\<lambda>sblk.
       bind (bread dev (IBLOCK (of_nat inum) sblk)) (\<lambda>bp.
       bind (return (dinode_off (of_nat inum))) (\<lambda>dip.
       bind (get_buf bp b_data) (\<lambda>data.
       if get_half data dip = 0 then
         bind (upd_buf bp (\<lambda>x. x\<lparr>b_data :=
           put_half dip type (put_list dip (replicate DINODE_SIZE 0) data)\<rparr>)) (\<lambda>_.
         bind (log_write bp) (\<lambda>_.
         bind (brelse bp) (\<lambda>_.
         bind (iget dev (of_nat inum)) (\<lambda>ip.
         return (Some ip)))))
       else bind (brelse bp) (\<lambda>_. return None))))))) (\<lambda>r.
     case r of Some ip \<Rightarrow> return ip | None \<Rightarrow> panic ''ialloc: no inodes''))"

text \<open>\<open>dip->type = ip->type; ...; memmove(dip->addrs, ip->addrs, sizeof(ip->addrs))\<close>.\<close>

definition put_dinode :: "nat \<Rightarrow> inode \<Rightarrow> uint8 list \<Rightarrow> uint8 list" where
  "put_dinode dip x data =
     put_list (dip + 12) (concat (map (\<lambda>i. to_le 4 (i_addrs x i)) [0..<NDIRECT + 1]))
       (put_word (dip + 8) (i_size x)
         (put_half (dip + 6) (i_nlink x)
           (put_half (dip + 4) (i_minor x)
             (put_half (dip + 2) (i_major x)
               (put_half dip (i_type x) data)))))"

definition get_dinode :: "nat \<Rightarrow> uint8 list \<Rightarrow> inode \<Rightarrow> inode" where
  "get_dinode dip data x = x\<lparr>i_type := get_half data dip, i_major := get_half data (dip + 2),
     i_minor := get_half data (dip + 4), i_nlink := get_half data (dip + 6),
     i_size := get_word data (dip + 8),
     i_addrs := (\<lambda>i. if i < NDIRECT + 1 then get_word data (dip + 12 + 4 * i) else i_addrs x i)\<rparr>"

definition iupdate :: "nat \<Rightarrow> ('z fstate_scheme, unit) M" where
  "iupdate ip =
     bind (get_inode ip id) (\<lambda>x.
     bind (gets sb) (\<lambda>sblk.
     bind (bread (i_dev x) (IBLOCK (i_inum x) sblk)) (\<lambda>bp.
     bind (get_inode ip id) (\<lambda>x.
     bind (upd_buf bp (\<lambda>b. b\<lparr>b_data := put_dinode (dinode_off (i_inum x)) x (b_data b)\<rparr>)) (\<lambda>_.
     bind (log_write bp) (\<lambda>_.
     brelse bp))))))"

definition idup :: "nat \<Rightarrow> ('z fstate_scheme, nat) M" where
  "idup ip =
     bind (acquire Itable_lock) (\<lambda>_.
     bind (upd_inode ip (\<lambda>x. x\<lparr>i_ref := i_ref x + 1\<rparr>)) (\<lambda>_.
     bind (release Itable_lock) (\<lambda>_.
     return ip)))"

text \<open>A null pointer is \<open>None\<close>, as \<open>ilock\<close> and \<open>iunlock\<close> test for it.\<close>

definition ilock :: "nat option \<Rightarrow> ('z fstate_scheme, unit) M" where
  "ilock ipo =
     (case ipo of None \<Rightarrow> panic ''ilock'' | Some ip \<Rightarrow>
      bind (get_inode ip i_ref) (\<lambda>r.
      if r < 1 then panic ''ilock'' else
      bind (acquiresleep (Inode_lock ip)) (\<lambda>_.
      bind (get_inode ip id) (\<lambda>x.
      whenM (i_valid x = 0)
        (bind (gets sb) (\<lambda>sblk.
         bind (bread (i_dev x) (IBLOCK (i_inum x) sblk)) (\<lambda>bp.
         bind (get_buf bp b_data) (\<lambda>data.
         bind (upd_inode ip (\<lambda>x. get_dinode (dinode_off (i_inum x)) data x)) (\<lambda>_.
         bind (brelse bp) (\<lambda>_.
         bind (upd_inode ip (\<lambda>x. x\<lparr>i_valid := 1\<rparr>)) (\<lambda>_.
         bind (get_inode ip i_type) (\<lambda>ty.
         if ty = 0 then panic ''ilock: no type'' else return ()))))))))))))"

definition iunlock :: "nat option \<Rightarrow> ('z fstate_scheme, unit) M" where
  "iunlock ipo =
     (case ipo of None \<Rightarrow> panic ''iunlock'' | Some ip \<Rightarrow>
      bind (holdingsleep (Inode_lock ip)) (\<lambda>h.
      if \<not> h then panic ''iunlock'' else
      bind (get_inode ip i_ref) (\<lambda>r.
      if r < 1 then panic ''iunlock'' else
      releasesleep (Inode_lock ip))))"

subsection \<open>Inode content\<close>

definition bmap :: "nat \<Rightarrow> uint32 \<Rightarrow> ('z fstate_scheme, uint32) M" where
  "bmap ip bn =
     (if unat bn < NDIRECT then
        bind (get_inode ip id) (\<lambda>x.
        if i_addrs x (unat bn) = 0 then
          bind (balloc (i_dev x)) (\<lambda>addr.
          bind (upd_inode ip (\<lambda>x. x\<lparr>i_addrs := (i_addrs x)(unat bn := addr)\<rparr>)) (\<lambda>_.
          return addr))
        else return (i_addrs x (unat bn)))
      else
        let bn' = unat bn - NDIRECT in
        if bn' < NINDIRECT then
          bind (get_inode ip id) (\<lambda>x.
          bind (if i_addrs x NDIRECT = 0 then
                  bind (balloc (i_dev x)) (\<lambda>addr.
                  bind (upd_inode ip (\<lambda>x. x\<lparr>i_addrs := (i_addrs x)(NDIRECT := addr)\<rparr>)) (\<lambda>_.
                  return addr))
                else return (i_addrs x NDIRECT)) (\<lambda>ind.
          bind (get_inode ip i_dev) (\<lambda>dev.
          bind (bread dev ind) (\<lambda>bp.
          bind (get_buf bp b_data) (\<lambda>a.
          bind (if get_word a (4 * bn') = 0 then
                  bind (get_inode ip i_dev) (\<lambda>dev.
                  bind (balloc dev) (\<lambda>addr.
                  bind (upd_buf bp (\<lambda>b. b\<lparr>b_data := put_word (4 * bn') addr (b_data b)\<rparr>)) (\<lambda>_.
                  bind (log_write bp) (\<lambda>_.
                  return addr))))
                else return (get_word a (4 * bn'))) (\<lambda>addr.
          bind (brelse bp) (\<lambda>_.
          return addr)))))))
        else panic ''bmap: out of range'')"

definition itrunc :: "nat \<Rightarrow> ('z fstate_scheme, unit) M" where
  "itrunc ip =
     bind (for_each [0..<NDIRECT] (\<lambda>i.
       bind (get_inode ip id) (\<lambda>x.
       whenM (i_addrs x i \<noteq> 0)
         (bind (bfree (i_dev x) (i_addrs x i)) (\<lambda>_.
          upd_inode ip (\<lambda>x. x\<lparr>i_addrs := (i_addrs x)(i := 0)\<rparr>)))))) (\<lambda>_.
     bind (get_inode ip id) (\<lambda>x.
     bind (whenM (i_addrs x NDIRECT \<noteq> 0)
       (bind (bread (i_dev x) (i_addrs x NDIRECT)) (\<lambda>bp.
        bind (for_each [0..<NINDIRECT] (\<lambda>j.
          bind (get_buf bp (\<lambda>b. get_word (b_data b) (4 * j))) (\<lambda>aj.
          whenM (aj \<noteq> 0) (bind (get_inode ip i_dev) (\<lambda>dev. bfree dev aj))))) (\<lambda>_.
        bind (brelse bp) (\<lambda>_.
        bind (get_inode ip id) (\<lambda>x.
        bind (bfree (i_dev x) (i_addrs x NDIRECT)) (\<lambda>_.
        upd_inode ip (\<lambda>x. x\<lparr>i_addrs := (i_addrs x)(NDIRECT := 0)\<rparr>)))))))) (\<lambda>_.
     bind (upd_inode ip (\<lambda>x. x\<lparr>i_size := 0\<rparr>)) (\<lambda>_.
     iupdate ip))))"

definition iput :: "nat \<Rightarrow> ('z fstate_scheme, unit) M" where
  "iput ip =
     bind (acquire Itable_lock) (\<lambda>_.
     bind (get_inode ip id) (\<lambda>x.
     bind (whenM (i_ref x = 1 \<and> i_valid x \<noteq> 0 \<and> i_nlink x = 0)
       (bind (acquiresleep (Inode_lock ip)) (\<lambda>_.
        bind (release Itable_lock) (\<lambda>_.
        bind (itrunc ip) (\<lambda>_.
        bind (upd_inode ip (\<lambda>x. x\<lparr>i_type := 0\<rparr>)) (\<lambda>_.
        bind (iupdate ip) (\<lambda>_.
        bind (upd_inode ip (\<lambda>x. x\<lparr>i_valid := 0\<rparr>)) (\<lambda>_.
        bind (releasesleep (Inode_lock ip)) (\<lambda>_.
        acquire Itable_lock))))))))) (\<lambda>_.
     bind (upd_inode ip (\<lambda>x. x\<lparr>i_ref := i_ref x - 1\<rparr>)) (\<lambda>_.
     release Itable_lock))))"

definition iunlockput :: "nat \<Rightarrow> ('z fstate_scheme, unit) M" where
  "iunlockput ip = bind (iunlock (Some ip)) (\<lambda>_. iput ip)"

definition stati :: "nat \<Rightarrow> ('z fstate_scheme, stat) M" where
  "stati ip = get_inode ip (\<lambda>x. \<lparr>st_dev = i_dev x, st_ino = i_inum x, st_type = i_type x,
     st_nlink = i_nlink x, st_size = ucast (i_size x)\<rparr>)"

subsection \<open>Reading and writing files\<close>

text \<open>
  Where the next chunk goes to or comes from: \<open>dst += m\<close>, \<open>src += m\<close>. The bytes read
  are also returned, for a destination that is a kernel object.
\<close>

fun dst_add :: "iodst \<Rightarrow> uint32 \<Rightarrow> iodst" where
  "dst_add (To_user a) m = To_user (a + ucast m)"
| "dst_add (To_mem a) m = To_mem (a + ucast m)"
| "dst_add To_obj m = To_obj"

fun src_add :: "iosrc \<Rightarrow> uint32 \<Rightarrow> iosrc" where
  "src_add (From_user a) m = From_user (a + ucast m)"
| "src_add (From_mem a) m = From_mem (a + ucast m)"
| "src_add (From_obj bs) m = From_obj (drop (unat m) bs)"

definition rw_chunk :: "uint32 \<Rightarrow> uint32 \<Rightarrow> uint32 \<Rightarrow> uint32" where
  "rw_chunk n tot off = min (n - tot) (of_nat BSIZE - off mod of_nat BSIZE)"

definition readi_body ::
  "nat \<Rightarrow> uint32 \<Rightarrow> uint32 \<times> uint32 \<times> iodst \<times> uint8 list \<Rightarrow>
   ('z fstate_scheme, (uint32 \<times> uint32 \<times> iodst \<times> uint8 list) + int \<times> uint8 list) M" where
  "readi_body ip n = (\<lambda>(tot, off, dst, out).
     if tot < n then
       bind (bmap ip (off div of_nat BSIZE)) (\<lambda>blockno.
       bind (get_inode ip i_dev) (\<lambda>dev.
       bind (bread dev blockno) (\<lambda>bp.
       bind (return (rw_chunk n tot off)) (\<lambda>m.
       bind (get_buf bp (\<lambda>b. take (unat m) (drop (unat (off mod of_nat BSIZE)) (b_data b)))) (\<lambda>bs.
       bind (either_copyout dst bs) (\<lambda>r.
       if r = - 1 then bind (brelse bp) (\<lambda>_. return (Inr (- 1, out)))
       else bind (brelse bp) (\<lambda>_. return (Inl (tot + m, off + m, dst_add dst m, out @ bs)))))))))
     else return (Inr (sint tot, out)))"

definition readi_loop ::
  "nat \<Rightarrow> uint32 \<Rightarrow> uint32 \<times> uint32 \<times> iodst \<times> uint8 list \<Rightarrow> ('z fstate_scheme, int \<times> uint8 list) M" where
  "readi_loop ip n = loop_env (\<lambda>(tot, _) _. unat (n - tot)) (readi_body ip n)"

definition readi :: "nat \<Rightarrow> iodst \<Rightarrow> uint32 \<Rightarrow> uint32 \<Rightarrow> ('z fstate_scheme, int \<times> uint8 list) M" where
  "readi ip dst off n =
     bind (get_inode ip i_size) (\<lambda>sz.
     if off > sz \<or> off + n < off then return (0, []) else
     bind (return (if off + n > sz then sz - off else n)) (\<lambda>n.
     readi_loop ip n (0, off, dst, [])))"

definition writei_loop ::
  "nat \<Rightarrow> uint32 \<Rightarrow> uint32 \<times> uint32 \<times> iosrc \<Rightarrow> ('z fstate_scheme, uint32 \<times> uint32) M" where
  "writei_loop ip n = loop_env (\<lambda>(tot, _) _. unat (n - tot)) (\<lambda>(tot, off, src).
     if tot < n then
       bind (bmap ip (off div of_nat BSIZE)) (\<lambda>blockno.
       bind (get_inode ip i_dev) (\<lambda>dev.
       bind (bread dev blockno) (\<lambda>bp.
       bind (return (rw_chunk n tot off)) (\<lambda>m.
       bind (either_copyin src (unat m)) (\<lambda>(r, bs).
       bind (upd_buf bp (\<lambda>b. b\<lparr>b_data := put_list (unat (off mod of_nat BSIZE)) bs (b_data b)\<rparr>)) (\<lambda>_.
       if r = - 1 then bind (brelse bp) (\<lambda>_. return (Inr (tot, off)))
       else
         bind (log_write bp) (\<lambda>_.
         bind (brelse bp) (\<lambda>_.
         return (Inl (tot + m, off + m, src_add src m))))))))))
     else return (Inr (tot, off)))"

definition writei :: "nat \<Rightarrow> iosrc \<Rightarrow> uint32 \<Rightarrow> uint32 \<Rightarrow> ('z fstate_scheme, int) M" where
  "writei ip src off n =
     bind (get_inode ip i_size) (\<lambda>sz.
     if off > sz \<or> off + n < off then return (- 1) else
     if off + n > of_nat (MAXFILE * BSIZE) then return (- 1) else
     bind (writei_loop ip n (0, off, src)) (\<lambda>(tot, off').
     bind (upd_inode ip (\<lambda>x. if off' > i_size x then x\<lparr>i_size := off'\<rparr> else x)) (\<lambda>_.
     bind (iupdate ip) (\<lambda>_.
     return (sint tot)))))"

subsection \<open>Directories\<close>

definition namecmp :: "uint8 list \<Rightarrow> uint8 list \<Rightarrow> int" where
  "namecmp s t = strncmp_list DIRSIZ s t"

text \<open>\<open>None\<close> is the null pointer; with the inode comes the offset that goes into \<open>*poff\<close>.\<close>

definition dirlookup :: "nat \<Rightarrow> uint8 list \<Rightarrow> ('z fstate_scheme, (nat \<times> uint32) option) M" where
  "dirlookup dp name =
     bind (get_inode dp i_type) (\<lambda>ty.
     if ty \<noteq> T_DIR then panic ''dirlookup not DIR'' else
     loop_env (\<lambda>off _. unat (- 1 - off)) (\<lambda>off.
       bind (get_inode dp i_size) (\<lambda>sz.
       if off < sz then
         bind (readi dp To_obj off (of_nat DIRENT_SIZE)) (\<lambda>(r, bs).
         if r \<noteq> int DIRENT_SIZE then panic ''dirlookup read'' else
         bind (return (decode_dirent bs)) (\<lambda>de.
         if de_inum de = 0 then return (Inl (off + of_nat DIRENT_SIZE))
         else if namecmp name (de_name de) = 0 then
           bind (get_inode dp i_dev) (\<lambda>dev.
           bind (iget dev (ucast (de_inum de))) (\<lambda>ip.
           return (Inr (Some (ip, off)))))
         else return (Inl (off + of_nat DIRENT_SIZE))))
       else return (Inr None))) 0)"

definition dirlink_slot :: "nat \<Rightarrow> ('z fstate_scheme, uint32) M" where
  "dirlink_slot dp = loop_env (\<lambda>off _. unat (- 1 - off)) (\<lambda>off.
     bind (get_inode dp i_size) (\<lambda>sz.
     if off < sz then
       bind (readi dp To_obj off (of_nat DIRENT_SIZE)) (\<lambda>(r, bs).
       if r \<noteq> int DIRENT_SIZE then panic ''dirlink read'' else
       if de_inum (decode_dirent bs) = 0 then return (Inr off)
       else return (Inl (off + of_nat DIRENT_SIZE)))
     else return (Inr off))) 0"

definition dirlink :: "nat \<Rightarrow> uint8 list \<Rightarrow> uint32 \<Rightarrow> ('z fstate_scheme, int) M" where
  "dirlink dp name inum =
     bind (dirlookup dp name) (\<lambda>r. case r of
       Some (ip, _) \<Rightarrow> bind (iput ip) (\<lambda>_. return (- 1))
     | None \<Rightarrow>
         bind (dirlink_slot dp) (\<lambda>off.
         bind (return (encode_dirent \<lparr>de_inum = ucast inum, de_name = strncpy_list DIRSIZ name\<rparr>)) (\<lambda>de.
         bind (writei dp (From_obj de) off (of_nat DIRENT_SIZE)) (\<lambda>r.
         if r \<noteq> int DIRENT_SIZE then panic ''dirlink'' else return 0))))"

subsection \<open>Paths\<close>

definition SLASH :: uint8 where "SLASH = 47"

text \<open>\<open>skipelem(path, name)\<close> returns the rest of the path and the new contents of \<open>name\<close>.\<close>

definition skipelem :: "uint8 list \<Rightarrow> uint8 list \<Rightarrow> (uint8 list \<times> uint8 list) option" where
  "skipelem path name =
     (let path = dropWhile (\<lambda>c. c = SLASH) path in
      if path = [] then None else
      let elem = takeWhile (\<lambda>c. c \<noteq> SLASH) path;
          rest = dropWhile (\<lambda>c. c \<noteq> SLASH) path;
          name' = (if length elem \<ge> DIRSIZ then put_list 0 (take DIRSIZ elem) name
                   else put_list 0 (elem @ [0]) name)
      in Some (dropWhile (\<lambda>c. c = SLASH) rest, name'))"

text \<open>The loop of \<open>namex\<close> over the elements of the path; with the inode comes \<open>name\<close>.\<close>

definition namex_loop ::
  "bool \<Rightarrow> nat \<times> uint8 list \<times> uint8 list \<Rightarrow> ('z fstate_scheme, nat option \<times> uint8 list) M" where
  "namex_loop parent = loop_env (\<lambda>(_, path, _) _. length path) (\<lambda>(ip, path, name).
     case skipelem path name of
       Some (path', name') \<Rightarrow>
         bind (ilock (Some ip)) (\<lambda>_.
         bind (get_inode ip i_type) (\<lambda>ty.
         if ty \<noteq> T_DIR then
           bind (iunlockput ip) (\<lambda>_. return (Inr (None, name')))
         else if parent \<and> path' = [] then
           bind (iunlock (Some ip)) (\<lambda>_. return (Inr (Some ip, name')))
         else
           bind (dirlookup ip name') (\<lambda>r. case r of
             None \<Rightarrow> bind (iunlockput ip) (\<lambda>_. return (Inr (None, name')))
           | Some (nxt, _) \<Rightarrow>
               bind (iunlockput ip) (\<lambda>_.
               return (Inl (nxt, path', name'))))))
     | None \<Rightarrow>
         if parent then bind (iput ip) (\<lambda>_. return (Inr (None, name)))
         else return (Inr (Some ip, name)))"

definition namex :: "uint8 list \<Rightarrow> bool \<Rightarrow> uint8 list \<Rightarrow> ('z fstate_scheme, nat option \<times> uint8 list) M" where
  "namex path parent name =
     bind (if path \<noteq> [] \<and> hd path = SLASH then iget (of_nat ROOTDEV) ROOTINO
           else
             bind curproc (\<lambda>p.
             bind (get_proc p p_cwd) (\<lambda>cwd.
             bind (deref cwd) idup))) (\<lambda>ip.
     namex_loop parent (ip, path, name))"

definition namei :: "uint8 list \<Rightarrow> ('z fstate_scheme, nat option) M" where
  "namei path =
     bind (namex path False (replicate DIRSIZ 0)) (\<lambda>(ip, _). return ip)"

definition nameiparent :: "uint8 list \<Rightarrow> uint8 list \<Rightarrow> ('z fstate_scheme, nat option \<times> uint8 list) M" where
  "nameiparent path name = namex path True name"

end
