(* ===== verification/Console.thy ===== *)
theory Console
  imports Fs
begin

unbundle bit_operations_syntax

section \<open>Serial port, console and \<open>printf\<close>: \<open>kernel/uart.c\<close>, \<open>kernel/printf.c\<close>, \<open>kernel/console.c\<close>\<close>

text \<open>
  The 16550 serial port is reached through eight registers. Of the device the model keeps
  what its documentation says about them: a byte written to \<open>THR\<close> is sent and takes the
  transmitter out of its idle state until the device, in a step of its own, has sent it;
  reading \<open>RHR\<close> takes the next byte received; while \<open>LCR_BAUD_LATCH\<close> is set, registers 0
  and 1 are the divisor latch; any other register is a cell. \<open>uart_sent\<close> is everything
  sent so far. Spinning on \<open>LSR\<close> waits for the device.
\<close>

definition RHR :: nat where [layout_defs]: "RHR = 0"
definition THR :: nat where [layout_defs]: "THR = 0"
definition IER :: nat where [layout_defs]: "IER = 1"
definition IER_RX_ENABLE :: uint8 where [layout_defs]: "IER_RX_ENABLE = 1"
definition IER_TX_ENABLE :: uint8 where [layout_defs]: "IER_TX_ENABLE = 2"
definition FCR :: nat where [layout_defs]: "FCR = 2"
definition FCR_FIFO_ENABLE :: uint8 where [layout_defs]: "FCR_FIFO_ENABLE = 1"
definition FCR_FIFO_CLEAR :: uint8 where [layout_defs]: "FCR_FIFO_CLEAR = 6"
definition LCR :: nat where [layout_defs]: "LCR = 3"
definition LCR_EIGHT_BITS :: uint8 where [layout_defs]: "LCR_EIGHT_BITS = 3"
definition LCR_BAUD_LATCH :: uint8 where [layout_defs]: "LCR_BAUD_LATCH = 128"
definition LSR :: nat where [layout_defs]: "LSR = 5"
definition LSR_RX_READY :: uint8 where [layout_defs]: "LSR_RX_READY = 1"
definition LSR_TX_IDLE :: uint8 where [layout_defs]: "LSR_TX_IDLE = 32"
definition UART_TX_BUF_SIZE :: nat where [layout_defs]: "UART_TX_BUF_SIZE = 32"
definition INPUT_BUF :: nat where [layout_defs]: "INPUT_BUF = 128"
definition BACKSPACE :: int where [layout_defs]: "BACKSPACE = 0x100"
definition CONSOLE :: nat where [layout_defs]: "CONSOLE = 1"

record cons =
  cons_buf :: "nat \<Rightarrow> uint8"
  cons_r :: uint32
  cons_w :: uint32
  cons_e :: uint32

record ustate = fstate +
  uart_regs :: "nat \<Rightarrow> uint8"
  uart_div :: "nat \<Rightarrow> uint8"
  uart_idle :: bool
  uart_rx :: "uint8 list"
  uart_sent :: "uint8 list"
  uart_tx_buf :: "nat \<Rightarrow> uint8"
  uart_tx_w :: uint64
  uart_tx_r :: uint64
  panicked :: int
  pr_locking :: int
  cons :: cons

subsection \<open>Registers\<close>

definition ReadReg :: "nat \<Rightarrow> ('z ustate_scheme, uint8) M" where
  "ReadReg r =
     bind (gets (\<lambda>s. uart_regs s LCR AND LCR_BAUD_LATCH \<noteq> 0 \<and> r < 2)) (\<lambda>latch.
     if latch then gets (\<lambda>s. uart_div s r)
     else if r = RHR then
       bind (gets uart_rx) (\<lambda>q. case q of
         [] \<Rightarrow> return 0
       | c # q' \<Rightarrow> bind (modify (\<lambda>s. s\<lparr>uart_rx := q'\<rparr>)) (\<lambda>_. return c))
     else if r = LSR then
       gets (\<lambda>s. (if uart_idle s then LSR_TX_IDLE else 0) OR (if uart_rx s \<noteq> [] then LSR_RX_READY else 0))
     else gets (\<lambda>s. uart_regs s r))"

definition WriteReg :: "nat \<Rightarrow> uint8 \<Rightarrow> ('z ustate_scheme, unit) M" where
  "WriteReg r v =
     bind (gets (\<lambda>s. uart_regs s LCR AND LCR_BAUD_LATCH \<noteq> 0 \<and> r < 2)) (\<lambda>latch.
     if latch then modify (\<lambda>s. s\<lparr>uart_div := (uart_div s)(r := v)\<rparr>)
     else if r = THR then modify (\<lambda>s. s\<lparr>uart_sent := uart_sent s @ [v], uart_idle := False\<rparr>)
     else modify (\<lambda>s. s\<lparr>uart_regs := (uart_regs s)(r := v)\<rparr>))"

subsection \<open>The serial port\<close>

definition uartinit :: "('z ustate_scheme, unit) M" where
  "uartinit =
     bind (WriteReg IER 0) (\<lambda>_.
     bind (WriteReg LCR LCR_BAUD_LATCH) (\<lambda>_.
     bind (WriteReg 0 3) (\<lambda>_.
     bind (WriteReg 1 0) (\<lambda>_.
     bind (WriteReg LCR LCR_EIGHT_BITS) (\<lambda>_.
     bind (WriteReg FCR (FCR_FIFO_ENABLE OR FCR_FIFO_CLEAR)) (\<lambda>_.
     bind (WriteReg IER (IER_TX_ENABLE OR IER_RX_ENABLE)) (\<lambda>_.
     initlock Uart_tx_lock ''uart'')))))))"

definition uartstart :: "('z ustate_scheme, unit) M" where
  "uartstart = while_dec (\<lambda>s. unat (uart_tx_w s - uart_tx_r s))
     (bind (gets (\<lambda>s. uart_tx_w s = uart_tx_r s)) (\<lambda>empty.
      if empty then return (Some ()) else
      bind (ReadReg LSR) (\<lambda>lsr.
      if lsr AND LSR_TX_IDLE = 0 then return (Some ()) else
      bind (gets (\<lambda>s. uart_tx_buf s (unat (uart_tx_r s) mod UART_TX_BUF_SIZE))) (\<lambda>c.
      bind (modify (\<lambda>s. s\<lparr>uart_tx_r := uart_tx_r s + 1\<rparr>)) (\<lambda>_.
      bind (wakeup (Some Chan_uart_tx_r)) (\<lambda>_.
      bind (WriteReg THR c) (\<lambda>_.
      return None)))))))"

definition uartputc :: "uint8 \<Rightarrow> ('z ustate_scheme, unit) M" where
  "uartputc c =
     bind (acquire Uart_tx_lock) (\<lambda>_.
     bind (gets panicked) (\<lambda>pk.
     if pk \<noteq> 0 then diverge else
     while_sleep
       (bind (gets (\<lambda>s. uart_tx_w s = uart_tx_r s + of_nat UART_TX_BUF_SIZE)) (\<lambda>full.
        if full then bind (sleep Chan_uart_tx_r Uart_tx_lock) (\<lambda>_. return None)
        else
          bind (modify (\<lambda>s. s\<lparr>uart_tx_buf := (uart_tx_buf s)(unat (uart_tx_w s) mod UART_TX_BUF_SIZE := c)\<rparr>)) (\<lambda>_.
          bind (modify (\<lambda>s. s\<lparr>uart_tx_w := uart_tx_w s + 1\<rparr>)) (\<lambda>_.
          bind uartstart (\<lambda>_.
          bind (release Uart_tx_lock) (\<lambda>_.
          return (Some ())))))))))"

definition uartputc_sync :: "uint8 \<Rightarrow> ('z ustate_scheme, unit) M" where
  "uartputc_sync c =
     bind push_off (\<lambda>_.
     bind (gets panicked) (\<lambda>pk.
     if pk \<noteq> 0 then diverge else
     bind (while_sleep
       (bind (ReadReg LSR) (\<lambda>lsr.
        if lsr AND LSR_TX_IDLE = 0 then bind await (\<lambda>_. return None)
        else return (Some ())))) (\<lambda>_.
     bind (WriteReg THR c) (\<lambda>_.
     pop_off))))"

definition uartgetc :: "('z ustate_scheme, int) M" where
  "uartgetc =
     bind (ReadReg LSR) (\<lambda>lsr.
     if lsr AND 1 \<noteq> 0 then bind (ReadReg RHR) (\<lambda>c. return (uint c)) else return (- 1))"

subsection \<open>\<open>printf\<close>\<close>

definition consputc :: "int \<Rightarrow> ('z ustate_scheme, unit) M" where
  "consputc c =
     (if c = BACKSPACE then
        bind (uartputc_sync 8) (\<lambda>_.
        bind (uartputc_sync 32) (\<lambda>_.
        uartputc_sync 8))
      else uartputc_sync (of_int c))"

definition digits :: "nat \<Rightarrow> uint8" where
  "digits d = (if d < 10 then 48 + of_nat d else 87 + of_nat d)"

text \<open>The bytes \<open>printint\<close> puts into \<open>buf\<close>, last digit first.\<close>

function int_digits :: "uint32 \<Rightarrow> uint32 \<Rightarrow> uint8 list" where
  "int_digits x base =
     digits (unat (x mod base)) # (if x div base = 0 \<or> base \<le> 1 then [] else int_digits (x div base) base)"
  by pat_completeness auto
termination
proof (relation "measure (\<lambda>(x, base). unat x)", goal_cases)
  case (2 x base)
  then have "1 < unat base" "x \<noteq> 0" by (auto simp: word_le_nat_alt unat_eq_0)
  then have "unat x div unat base < unat x" by (simp add: unat_gt_0 [symmetric] word_gt_0 div_less_dividend)
  then show ?case by (simp add: unat_div_distrib)
qed simp

declare int_digits.simps [simp del]

definition printint_buf :: "int \<Rightarrow> uint32 \<Rightarrow> bool \<Rightarrow> uint8 list" where
  "printint_buf xx base signd =
     (let neg = signd \<and> xx < 0;
          x = (if neg then of_int (- xx) else of_int xx)
      in int_digits x base @ (if neg then [45] else []))"

definition printint :: "int \<Rightarrow> uint32 \<Rightarrow> bool \<Rightarrow> ('z ustate_scheme, unit) M" where
  "printint xx base signd = for_each (rev (printint_buf xx base signd)) (\<lambda>c. consputc (uint c))"

definition printptr :: "uint64 \<Rightarrow> ('z ustate_scheme, unit) M" where
  "printptr x =
     bind (consputc 48) (\<lambda>_.
     bind (consputc 120) (\<lambda>_.
     for_each [0..<16] (\<lambda>i. consputc (uint (digits (unat (drop_bit 60 (push_bit (4 * i) x))))))))"

datatype fmtarg = Arg_int int | Arg_ptr uint64 | Arg_str "uint8 list option"

definition cstr :: "string \<Rightarrow> uint8 list" where
  "cstr = map of_char"

text \<open>
  The loop over the format string; an argument that is missing or of another type than
  \<open>va_arg\<close> asks for is a bad access.
\<close>

fun printf_loop :: "uint8 list \<Rightarrow> fmtarg list \<Rightarrow> ('z ustate_scheme, unit) M" where
  "printf_loop [] args = return ()"
| "printf_loop (c # fmt) args =
     (if c \<noteq> 37 then bind (consputc (uint c)) (\<lambda>_. printf_loop fmt args) else
      case fmt of [] \<Rightarrow> return () | c # fmt' \<Rightarrow>
      if c = 100 then
        (case args of Arg_int x # args' \<Rightarrow> bind (printint x 10 True) (\<lambda>_. printf_loop fmt' args') | _ \<Rightarrow> fault)
      else if c = 120 then
        (case args of Arg_int x # args' \<Rightarrow> bind (printint x 16 True) (\<lambda>_. printf_loop fmt' args') | _ \<Rightarrow> fault)
      else if c = 112 then
        (case args of Arg_ptr x # args' \<Rightarrow> bind (printptr x) (\<lambda>_. printf_loop fmt' args') | _ \<Rightarrow> fault)
      else if c = 115 then
        (case args of Arg_str st # args' \<Rightarrow>
           bind (for_each (case st of None \<Rightarrow> cstr ''(null)'' | Some bs \<Rightarrow> bs) (\<lambda>ch. consputc (uint ch))) (\<lambda>_.
           printf_loop fmt' args') | _ \<Rightarrow> fault)
      else if c = 37 then bind (consputc 37) (\<lambda>_. printf_loop fmt' args)
      else bind (consputc 37) (\<lambda>_. bind (consputc (uint c)) (\<lambda>_. printf_loop fmt' args)))"

definition printf :: "uint8 list option \<Rightarrow> fmtarg list \<Rightarrow> ('z ustate_scheme, unit) M" where
  "printf fmt args =
     bind (gets pr_locking) (\<lambda>locking.
     bind (whenM (locking \<noteq> 0) (acquire Pr_lock)) (\<lambda>_.
     case fmt of None \<Rightarrow> panic ''null fmt'' | Some f \<Rightarrow>
     bind (printf_loop f args) (\<lambda>_.
     whenM (locking \<noteq> 0) (release Pr_lock))))"

text \<open>What \<open>panic()\<close> does with its message before it stops the machine.\<close>

definition panic_stop :: "uint8 list \<Rightarrow> ('z ustate_scheme, unit) M" where
  "panic_stop msg =
     bind (modify (\<lambda>s. s\<lparr>pr_locking := 0\<rparr>)) (\<lambda>_.
     bind (printf (Some (cstr ''panic: '')) []) (\<lambda>_.
     bind (printf (Some msg) []) (\<lambda>_.
     bind (printf (Some [10]) []) (\<lambda>_.
     bind (modify (\<lambda>s. s\<lparr>panicked := 1\<rparr>)) (\<lambda>_.
     diverge)))))"

definition printfinit :: "('z ustate_scheme, unit) M" where
  "printfinit =
     bind (initlock Pr_lock ''pr'') (\<lambda>_.
     modify (\<lambda>s. s\<lparr>pr_locking := 1\<rparr>))"

fun state_name :: "procstate \<Rightarrow> string" where
  "state_name UNUSED = ''unused''"
| "state_name SLEEPING = ''sleep ''"
| "state_name RUNNABLE = ''runble''"
| "state_name RUNNING = ''run   ''"
| "state_name ZOMBIE = ''zombie''"
| "state_name USED = ''???''"

definition procdump :: "('z ustate_scheme, unit) M" where
  "procdump =
     bind (printf (Some [10]) []) (\<lambda>_.
     for_each [0..<NPROC] (\<lambda>p.
       bind (get_proc p id) (\<lambda>q.
       whenM (p_state q \<noteq> UNUSED)
         (bind (printf (Some (cstr ''%d %s %s'')) [Arg_int (p_pid q),
            Arg_str (Some (cstr (state_name (p_state q)))),
            Arg_str (Some (takeWhile (\<lambda>c. c \<noteq> 0) (p_name q)))]) (\<lambda>_.
          printf (Some [10]) [])))))"

subsection \<open>The console\<close>

definition upd_cons :: "(cons \<Rightarrow> cons) \<Rightarrow> ('z ustate_scheme, unit) M" where
  "upd_cons f = modify (\<lambda>s. s\<lparr>cons := f (cons s)\<rparr>)"

definition consolewrite :: "iosrc \<Rightarrow> int \<Rightarrow> ('z ustate_scheme, int) M" where
  "consolewrite src n = loop_env (\<lambda>(i, _) _. nat (n - i)) (\<lambda>(i, src).
     if i < n then
       bind (either_copyin src 1) (\<lambda>(r, bs).
       if r = - 1 then return (Inr i) else
       bind (uartputc (byte bs 0)) (\<lambda>_.
       return (Inl (i + 1, src_add src 1))))
     else return (Inr i)) (0, src)"

text \<open>The wait for input: \<open>False\<close> when the process has been killed.\<close>

definition cons_wait :: "('z ustate_scheme, bool) M" where
  "cons_wait = while_sleep
     (bind (gets cons) (\<lambda>c.
      if cons_r c = cons_w c then
        bind curproc (\<lambda>p.
        bind (get_proc p p_killed) (\<lambda>killed.
        if killed \<noteq> 0 then return (Some False)
        else bind (sleep Chan_cons_r Cons_lock) (\<lambda>_. return None)))
      else return (Some True)))"

definition consoleread :: "iodst \<Rightarrow> int \<Rightarrow> ('z ustate_scheme, int \<times> uint8 list) M" where
  "consoleread dst n0 =
     bind (acquire Cons_lock) (\<lambda>_.
     bind (loop_env (\<lambda>(n, _) _. nat n) (\<lambda>(n, dst, out).
       if n > 0 then
         bind cons_wait (\<lambda>ok.
         if \<not> ok then bind (release Cons_lock) (\<lambda>_. return (Inr None)) else
         bind (gets (\<lambda>s. cons_buf (cons s) (unat (cons_r (cons s)) mod INPUT_BUF))) (\<lambda>c.
         bind (upd_cons (\<lambda>k. k\<lparr>cons_r := cons_r k + 1\<rparr>)) (\<lambda>_.
         if c = 4 then
           bind (whenM (n < n0) (upd_cons (\<lambda>k. k\<lparr>cons_r := cons_r k - 1\<rparr>))) (\<lambda>_.
           return (Inr (Some (n, out))))
         else
           bind (either_copyout dst [c]) (\<lambda>r.
           if r = - 1 then return (Inr (Some (n, out)))
           else if c = 10 then return (Inr (Some (n - 1, out @ [c])))
           else return (Inl (n - 1, dst_add dst 1, out @ [c]))))))
       else return (Inr (Some (n, out)))) (n0, dst, [])) (\<lambda>r. case r of
       None \<Rightarrow> return (- 1, [])
     | Some (n, out) \<Rightarrow>
         bind (release Cons_lock) (\<lambda>_.
         return (n0 - n, out))))"

definition consoleintr :: "int \<Rightarrow> ('z ustate_scheme, unit) M" where
  "consoleintr c =
     bind (acquire Cons_lock) (\<lambda>_.
     bind (if c = 16 then procdump
       else if c = 21 then
         while_dec (\<lambda>s. unat (cons_e (cons s) - cons_w (cons s)))
           (bind (gets cons) (\<lambda>k.
            if cons_e k \<noteq> cons_w k \<and> cons_buf k (unat (cons_e k - 1) mod INPUT_BUF) \<noteq> 10 then
              bind (upd_cons (\<lambda>k. k\<lparr>cons_e := cons_e k - 1\<rparr>)) (\<lambda>_.
              bind (consputc BACKSPACE) (\<lambda>_. return None))
            else return (Some ())))
       else if c = 8 \<or> c = 127 then
         bind (gets cons) (\<lambda>k.
         whenM (cons_e k \<noteq> cons_w k)
           (bind (upd_cons (\<lambda>k. k\<lparr>cons_e := cons_e k - 1\<rparr>)) (\<lambda>_.
            consputc BACKSPACE)))
       else
         bind (gets cons) (\<lambda>k.
         whenM (c \<noteq> 0 \<and> cons_e k - cons_r k < of_nat INPUT_BUF)
           (bind (return (if c = 13 then 10 else c)) (\<lambda>c.
            bind (consputc c) (\<lambda>_.
            bind (upd_cons (\<lambda>k. k\<lparr>cons_buf := (cons_buf k)(unat (cons_e k) mod INPUT_BUF := of_int c),
              cons_e := cons_e k + 1\<rparr>)) (\<lambda>_.
            bind (gets cons) (\<lambda>k.
            whenM (c = 10 \<or> c = 4 \<or> cons_e k = cons_r k + of_nat INPUT_BUF)
              (bind (upd_cons (\<lambda>k. k\<lparr>cons_w := cons_e k\<rparr>)) (\<lambda>_.
               wakeup (Some Chan_cons_r)))))))))) (\<lambda>_.
     release Cons_lock))"

definition uartintr :: "('z ustate_scheme, unit) M" where
  "uartintr =
     bind (while_dec (\<lambda>s. length (uart_rx s))
       (bind uartgetc (\<lambda>c.
        if c = - 1 then return (Some ())
        else bind (consoleintr c) (\<lambda>_. return None)))) (\<lambda>_.
     bind (acquire Uart_tx_lock) (\<lambda>_.
     bind uartstart (\<lambda>_.
     release Uart_tx_lock)))"

end
