(* ===== verification/File.thy ===== *)
theory File
  imports Console
begin

unbundle bit_operations_syntax

section \<open>Open files and pipes: \<open>kernel/file.h\<close>, \<open>kernel/file.c\<close>, \<open>kernel/pipe.c\<close>\<close>

text \<open>
  A pointer to an open file is its index in \<open>ftable.file\<close>. A pipe lives in a page of its
  own and is found by the address of the page, as its lock and its two channels are.
\<close>

definition PIPESIZE :: nat where [layout_defs]: "PIPESIZE = 512"

datatype filetype = FD_NONE | FD_PIPE | FD_INODE | FD_DEVICE

record kfile =
  f_type :: filetype
  f_ref :: int
  f_readable :: bool
  f_writable :: bool
  f_pipe :: uint64
  f_ip :: "nat option"
  f_off :: uint32
  f_major :: uint16

datatype dev_fn = Fn_consoleread | Fn_consolewrite

record devsw =
  dev_read :: "dev_fn option"
  dev_write :: "dev_fn option"

record pipe =
  pi_data :: "nat \<Rightarrow> uint8"
  pi_nread :: uint32
  pi_nwrite :: uint32
  pi_readopen :: int
  pi_writeopen :: int

record flstate = ustate +
  ftable :: "nat \<Rightarrow> kfile"
  devsw :: "nat \<Rightarrow> devsw"
  pipes :: "uint64 \<Rightarrow> pipe"

definition get_file :: "nat \<Rightarrow> (kfile \<Rightarrow> 'a) \<Rightarrow> ('z flstate_scheme, 'a) M" where
  "get_file f g = gets (\<lambda>s. g (ftable s f))"

definition upd_file :: "nat \<Rightarrow> (kfile \<Rightarrow> kfile) \<Rightarrow> ('z flstate_scheme, unit) M" where
  "upd_file f g = modify (\<lambda>s. s\<lparr>ftable := (ftable s)(f := g (ftable s f))\<rparr>)"

definition get_pipe :: "uint64 \<Rightarrow> (pipe \<Rightarrow> 'a) \<Rightarrow> ('z flstate_scheme, 'a) M" where
  "get_pipe pi g = gets (\<lambda>s. g (pipes s pi))"

definition upd_pipe :: "uint64 \<Rightarrow> (pipe \<Rightarrow> pipe) \<Rightarrow> ('z flstate_scheme, unit) M" where
  "upd_pipe pi g = modify (\<lambda>s. s\<lparr>pipes := (pipes s)(pi := g (pipes s pi))\<rparr>)"

definition consoleinit :: "('z flstate_scheme, unit) M" where
  "consoleinit =
     bind (initlock Cons_lock ''cons'') (\<lambda>_.
     bind uartinit (\<lambda>_.
     modify (\<lambda>s. s\<lparr>devsw := (devsw s)(CONSOLE :=
       \<lparr>dev_read = Some Fn_consoleread, dev_write = Some Fn_consolewrite\<rparr>)\<rparr>)))"

subsection \<open>The table of open files\<close>

definition fileinit :: "('z flstate_scheme, unit) M" where
  "fileinit = initlock Ftable_lock ''ftable''"

definition filealloc :: "('z flstate_scheme, nat option) M" where
  "filealloc =
     bind (acquire Ftable_lock) (\<lambda>_.
     bind (for_find [0..<NFILE] (\<lambda>f.
       bind (get_file f f_ref) (\<lambda>r.
       if r = 0 then
         bind (upd_file f (\<lambda>x. x\<lparr>f_ref := 1\<rparr>)) (\<lambda>_.
         bind (release Ftable_lock) (\<lambda>_.
         return (Some f)))
       else return None))) (\<lambda>r. case r of
       Some f \<Rightarrow> return (Some f)
     | None \<Rightarrow> bind (release Ftable_lock) (\<lambda>_. return None)))"

definition filedup :: "nat \<Rightarrow> ('z flstate_scheme, nat) M" where
  "filedup f =
     bind (acquire Ftable_lock) (\<lambda>_.
     bind (get_file f f_ref) (\<lambda>r.
     if r < 1 then panic ''filedup'' else
     bind (upd_file f (\<lambda>x. x\<lparr>f_ref := f_ref x + 1\<rparr>)) (\<lambda>_.
     bind (release Ftable_lock) (\<lambda>_.
     return f))))"

subsection \<open>Pipes\<close>

definition pipeclose :: "uint64 \<Rightarrow> bool \<Rightarrow> ('z flstate_scheme, unit) M" where
  "pipeclose pi writable =
     bind (acquire (Pipe_lock pi)) (\<lambda>_.
     bind (if writable then
         bind (upd_pipe pi (\<lambda>x. x\<lparr>pi_writeopen := 0\<rparr>)) (\<lambda>_.
         wakeup (Some (Chan_nread pi)))
       else
         bind (upd_pipe pi (\<lambda>x. x\<lparr>pi_readopen := 0\<rparr>)) (\<lambda>_.
         wakeup (Some (Chan_nwrite pi)))) (\<lambda>_.
     bind (get_pipe pi (\<lambda>x. pi_readopen x = 0 \<and> pi_writeopen x = 0)) (\<lambda>unused.
     if unused then
       bind (release (Pipe_lock pi)) (\<lambda>_.
       kfree pi)
     else release (Pipe_lock pi))))"

text \<open>
  A round of the loop of \<open>pipewrite\<close>: \<open>Inl i\<close> goes on with \<open>i\<close>, \<open>Inr None\<close> has returned -1,
  \<open>Inr (Some i)\<close> leaves the loop with \<open>i\<close>.
\<close>

definition pipewrite_body :: "nat option \<Rightarrow> uint64 \<Rightarrow> uint64 \<Rightarrow> int \<Rightarrow> int \<Rightarrow> ('z flstate_scheme, int + int option) M" where
  "pipewrite_body me pi addr n i =
     (if i < n then
       bind (deref me) (\<lambda>pr.
       bind (get_pipe pi id) (\<lambda>x.
       bind (get_proc pr p_killed) (\<lambda>killed.
       if pi_readopen x = 0 \<or> killed \<noteq> 0 then
         bind (release (Pipe_lock pi)) (\<lambda>_. return (Inr None))
       else if pi_nwrite x = pi_nread x + of_nat PIPESIZE then
         bind (wakeup (Some (Chan_nread pi))) (\<lambda>_.
         bind (sleep (Chan_nwrite pi) (Pipe_lock pi)) (\<lambda>_.
         return (Inl i)))
       else
         bind (get_proc pr p_pagetable) (\<lambda>pt.
         bind (copyin_obj pt [] (addr + of_int i) 1) (\<lambda>(r, bs).
         if r = - 1 then return (Inr (Some i)) else
         bind (upd_pipe pi (\<lambda>x. x\<lparr>pi_data := (pi_data x)(unat (pi_nwrite x) mod PIPESIZE := byte bs 0),
           pi_nwrite := pi_nwrite x + 1\<rparr>)) (\<lambda>_.
         return (Inl (i + 1))))))))
      else return (Inr (Some i)))"

definition pipewrite_loop :: "nat option \<Rightarrow> uint64 \<Rightarrow> uint64 \<Rightarrow> int \<Rightarrow> ('z flstate_scheme, int option) M" where
  "pipewrite_loop me pi addr n = loop_env (\<lambda>i _. nat (n - i)) (pipewrite_body me pi addr n) 0"

definition pipewrite :: "uint64 \<Rightarrow> uint64 \<Rightarrow> int \<Rightarrow> ('z flstate_scheme, int) M" where
  "pipewrite pi addr n =
     bind myproc (\<lambda>me.
     bind (acquire (Pipe_lock pi)) (\<lambda>_.
     bind (pipewrite_loop me pi addr n) (\<lambda>r. case r of
       None \<Rightarrow> return (- 1)
     | Some i \<Rightarrow>
         bind (wakeup (Some (Chan_nread pi))) (\<lambda>_.
         bind (release (Pipe_lock pi)) (\<lambda>_.
         return i)))))"

text \<open>The wait for data: \<open>False\<close> when the process has been killed and -1 is returned.\<close>

definition pipe_wait :: "nat option \<Rightarrow> uint64 \<Rightarrow> ('z flstate_scheme, bool) M" where
  "pipe_wait me pi = while_sleep
     (bind (get_pipe pi id) (\<lambda>x.
      if pi_nread x = pi_nwrite x \<and> pi_writeopen x \<noteq> 0 then
        bind (deref me) (\<lambda>pr.
        bind (get_proc pr p_killed) (\<lambda>killed.
        if killed \<noteq> 0 then bind (release (Pipe_lock pi)) (\<lambda>_. return (Some False))
        else bind (sleep (Chan_nread pi) (Pipe_lock pi)) (\<lambda>_. return None)))
      else return (Some True)))"

definition piperead_body :: "nat option \<Rightarrow> uint64 \<Rightarrow> uint64 \<Rightarrow> int \<Rightarrow> int \<Rightarrow> ('z flstate_scheme, int + int) M" where
  "piperead_body me pi addr n i =
     (if i < n then
       bind (get_pipe pi id) (\<lambda>x.
       if pi_nread x = pi_nwrite x then return (Inr i) else
       bind (return (pi_data x (unat (pi_nread x) mod PIPESIZE))) (\<lambda>ch.
       bind (upd_pipe pi (\<lambda>x. x\<lparr>pi_nread := pi_nread x + 1\<rparr>)) (\<lambda>_.
       bind (deref me) (\<lambda>pr.
       bind (get_proc pr p_pagetable) (\<lambda>pt.
       bind (copyout_obj pt (addr + of_int i) [ch]) (\<lambda>r.
       if r = - 1 then return (Inr i) else return (Inl (i + 1))))))))
      else return (Inr i))"

definition piperead_loop :: "nat option \<Rightarrow> uint64 \<Rightarrow> uint64 \<Rightarrow> int \<Rightarrow> ('z flstate_scheme, int) M" where
  "piperead_loop me pi addr n = loop_env (\<lambda>i _. nat (n - i)) (piperead_body me pi addr n) 0"

definition piperead :: "uint64 \<Rightarrow> uint64 \<Rightarrow> int \<Rightarrow> ('z flstate_scheme, int) M" where
  "piperead pi addr n =
     bind myproc (\<lambda>me.
     bind (acquire (Pipe_lock pi)) (\<lambda>_.
     bind (pipe_wait me pi) (\<lambda>ok.
     if \<not> ok then return (- 1) else
     bind (piperead_loop me pi addr n) (\<lambda>i.
     bind (wakeup (Some (Chan_nwrite pi))) (\<lambda>_.
     bind (release (Pipe_lock pi)) (\<lambda>_.
     return i))))))"

subsection \<open>Files\<close>

definition fileclose :: "nat \<Rightarrow> ('z flstate_scheme, unit) M" where
  "fileclose f =
     bind (acquire Ftable_lock) (\<lambda>_.
     bind (get_file f f_ref) (\<lambda>r.
     if r < 1 then panic ''fileclose'' else
     bind (upd_file f (\<lambda>x. x\<lparr>f_ref := f_ref x - 1\<rparr>)) (\<lambda>_.
     bind (get_file f id) (\<lambda>ff.
     if f_ref ff > 0 then release Ftable_lock else
     bind (upd_file f (\<lambda>x. x\<lparr>f_ref := 0, f_type := FD_NONE\<rparr>)) (\<lambda>_.
     bind (release Ftable_lock) (\<lambda>_.
     if f_type ff = FD_PIPE then pipeclose (f_pipe ff) (f_writable ff)
     else whenM (f_type ff = FD_INODE \<or> f_type ff = FD_DEVICE)
       (bind begin_op (\<lambda>_.
        bind (deref (f_ip ff)) (\<lambda>ip.
        bind (iput ip) (\<lambda>_.
        end_op))))))))))"

definition pipealloc_undo :: "uint64 \<Rightarrow> nat option \<Rightarrow> nat option \<Rightarrow> ('z flstate_scheme, unit) M" where
  "pipealloc_undo pi f0 f1 =
     bind (whenM (pi \<noteq> 0) (kfree pi)) (\<lambda>_.
     bind (case f0 of None \<Rightarrow> return () | Some f \<Rightarrow> fileclose f) (\<lambda>_.
     case f1 of None \<Rightarrow> return () | Some f \<Rightarrow> fileclose f))"

text \<open>\<open>None\<close> is the return value -1, \<open>Some (f0, f1)\<close> is 0 with the two files.\<close>

definition pipealloc :: "('z flstate_scheme, (nat \<times> nat) option) M" where
  "pipealloc =
     bind filealloc (\<lambda>r0. case r0 of
       None \<Rightarrow> bind (pipealloc_undo 0 None None) (\<lambda>_. return None)
     | Some f0 \<Rightarrow>
     bind filealloc (\<lambda>r1. case r1 of
       None \<Rightarrow> bind (pipealloc_undo 0 (Some f0) None) (\<lambda>_. return None)
     | Some f1 \<Rightarrow>
     bind kalloc (\<lambda>pi.
     if pi = 0 then bind (pipealloc_undo 0 (Some f0) (Some f1)) (\<lambda>_. return None) else
     bind (upd_pipe pi (\<lambda>x. x\<lparr>pi_readopen := 1, pi_writeopen := 1, pi_nwrite := 0, pi_nread := 0\<rparr>)) (\<lambda>_.
     bind (initlock (Pipe_lock pi) ''pipe'') (\<lambda>_.
     bind (upd_file f0 (\<lambda>x. x\<lparr>f_type := FD_PIPE, f_readable := True, f_writable := False, f_pipe := pi\<rparr>)) (\<lambda>_.
     bind (upd_file f1 (\<lambda>x. x\<lparr>f_type := FD_PIPE, f_readable := False, f_writable := True, f_pipe := pi\<rparr>)) (\<lambda>_.
     return (Some (f0, f1)))))))))"

text \<open>The bytes of \<open>struct stat\<close>; the four bytes of padding are taken to be zero.\<close>

definition encode_stat :: "stat \<Rightarrow> uint8 list" where
  "encode_stat st = to_le 4 (st_dev st) @ to_le 4 (st_ino st) @ to_le 2 (st_type st) @
     to_le 2 (st_nlink st) @ replicate 4 0 @ to_le 8 (st_size st)"

definition filestat :: "nat \<Rightarrow> uint64 \<Rightarrow> ('z flstate_scheme, int) M" where
  "filestat f addr =
     bind myproc (\<lambda>me.
     bind (get_file f id) (\<lambda>x.
     if f_type x = FD_INODE \<or> f_type x = FD_DEVICE then
       bind (ilock (f_ip x)) (\<lambda>_.
       bind (deref (f_ip x)) (\<lambda>ip.
       bind (stati ip) (\<lambda>st.
       bind (iunlock (f_ip x)) (\<lambda>_.
       bind (deref me) (\<lambda>p.
       bind (get_proc p p_pagetable) (\<lambda>pt.
       bind (copyout_obj pt addr (encode_stat st)) (\<lambda>r.
       return (if r < 0 then - 1 else 0))))))))
     else return (- 1)))"

definition fileread :: "nat \<Rightarrow> uint64 \<Rightarrow> int \<Rightarrow> ('z flstate_scheme, int) M" where
  "fileread f addr n =
     bind (get_file f id) (\<lambda>x.
     if \<not> f_readable x then return (- 1) else
     case f_type x of
       FD_PIPE \<Rightarrow> piperead (f_pipe x) addr n
     | FD_DEVICE \<Rightarrow>
         if sint (f_major x) < 0 \<or> sint (f_major x) \<ge> int NDEV then return (- 1) else
         bind (gets (\<lambda>s. dev_read (devsw s (unat (f_major x))))) (\<lambda>fn. case fn of
           Some Fn_consoleread \<Rightarrow> bind (consoleread (To_user addr) n) (\<lambda>(r, _). return r)
         | Some Fn_consolewrite \<Rightarrow> consolewrite (From_user addr) n
         | None \<Rightarrow> return (- 1))
     | FD_INODE \<Rightarrow>
         bind (ilock (f_ip x)) (\<lambda>_.
         bind (deref (f_ip x)) (\<lambda>ip.
         bind (get_file f f_off) (\<lambda>off.
         bind (readi ip (To_user addr) off (of_int n)) (\<lambda>(r, _).
         bind (whenM (r > 0) (upd_file f (\<lambda>x. x\<lparr>f_off := f_off x + of_int r\<rparr>))) (\<lambda>_.
         bind (iunlock (f_ip x)) (\<lambda>_.
         return r))))))
     | FD_NONE \<Rightarrow> panic ''fileread'')"

definition FILEWRITE_MAX :: int where
  "FILEWRITE_MAX = int (((MAXOPBLOCKS - 1 - 1 - 2) div 2) * BSIZE)"

definition filewrite_loop :: "nat \<Rightarrow> nat option \<Rightarrow> uint64 \<Rightarrow> int \<Rightarrow> ('z flstate_scheme, int) M" where
  "filewrite_loop f ipo addr n = loop_env (\<lambda>i _. nat (n - i)) (\<lambda>i.
     if i < n then
       bind (return (min (n - i) FILEWRITE_MAX)) (\<lambda>n1.
       bind begin_op (\<lambda>_.
       bind (ilock ipo) (\<lambda>_.
       bind (deref ipo) (\<lambda>ip.
       bind (get_file f f_off) (\<lambda>off.
       bind (writei ip (From_user (addr + of_int i)) off (of_int n1)) (\<lambda>r.
       bind (whenM (r > 0) (upd_file f (\<lambda>x. x\<lparr>f_off := f_off x + of_int r\<rparr>))) (\<lambda>_.
       bind (iunlock ipo) (\<lambda>_.
       bind end_op (\<lambda>_.
       return (if r \<noteq> n1 then Inr i else Inl (i + r)))))))))))
     else return (Inr i)) 0"

definition filewrite :: "nat \<Rightarrow> uint64 \<Rightarrow> int \<Rightarrow> ('z flstate_scheme, int) M" where
  "filewrite f addr n =
     bind (get_file f id) (\<lambda>x.
     if \<not> f_writable x then return (- 1) else
     case f_type x of
       FD_PIPE \<Rightarrow> pipewrite (f_pipe x) addr n
     | FD_DEVICE \<Rightarrow>
         if sint (f_major x) < 0 \<or> sint (f_major x) \<ge> int NDEV then return (- 1) else
         bind (gets (\<lambda>s. dev_write (devsw s (unat (f_major x))))) (\<lambda>fn. case fn of
           Some Fn_consoleread \<Rightarrow> bind (consoleread (To_user addr) n) (\<lambda>(r, _). return r)
         | Some Fn_consolewrite \<Rightarrow> consolewrite (From_user addr) n
         | None \<Rightarrow> return (- 1))
     | FD_INODE \<Rightarrow>
         bind (filewrite_loop f (f_ip x) addr n) (\<lambda>i.
         return (if i = n then n else - 1))
     | FD_NONE \<Rightarrow> panic ''filewrite'')"

end
