(* ===== verification/Process.thy ===== *)
theory Process
  imports File
begin

section \<open>Creating, ending and replacing processes: \<open>kernel/proc.c\<close>, \<open>kernel/exec.c\<close>, \<open>kernel/elf.h\<close>\<close>

text \<open>
  The operations on processes that need the file system. An argument vector is the list
  of the addresses before its null pointer.
\<close>

definition initcode :: "uint8 list" where
  "initcode = [
     0x17, 0x05, 0x00, 0x00, 0x13, 0x05, 0x45, 0x02,
     0x97, 0x05, 0x00, 0x00, 0x93, 0x85, 0x35, 0x02,
     0x93, 0x08, 0x70, 0x00, 0x73, 0x00, 0x00, 0x00,
     0x93, 0x08, 0x20, 0x00, 0x73, 0x00, 0x00, 0x00,
     0xef, 0xf0, 0x9f, 0xff, 0x2f, 0x69, 0x6e, 0x69,
     0x74, 0x00, 0x00, 0x24, 0x00, 0x00, 0x00, 0x00,
     0x00, 0x00, 0x00, 0x00]"

definition set_name :: "uint8 list \<Rightarrow> proc \<Rightarrow> proc" where
  "set_name bs q = q\<lparr>p_name := put_list 0 (safestrcpy_list 15 bs) (p_name q)\<rparr>"

definition userinit :: "('z flstate_scheme, unit) M" where
  "userinit =
     bind allocproc (\<lambda>np.
     bind (modify (\<lambda>s. s\<lparr>initproc := np\<rparr>)) (\<lambda>_.
     bind (deref np) (\<lambda>p.
     bind (get_proc p p_pagetable) (\<lambda>pt.
     bind (uvminit pt initcode (of_nat (length initcode))) (\<lambda>_.
     bind (upd_proc p (\<lambda>q. q\<lparr>p_sz := PGSIZE\<rparr>)) (\<lambda>_.
     bind (upd_tf p (\<lambda>t. t\<lparr>tf_epc := 0\<rparr>)) (\<lambda>_.
     bind (upd_tf p (\<lambda>t. t\<lparr>tf_sp := PGSIZE\<rparr>)) (\<lambda>_.
     bind (upd_proc p (set_name (cstr ''initcode''))) (\<lambda>_.
     bind (namei (cstr ''/'')) (\<lambda>cwd.
     bind (upd_proc p (\<lambda>q. q\<lparr>p_cwd := cwd\<rparr>)) (\<lambda>_.
     bind (upd_proc p (\<lambda>q. q\<lparr>p_state := RUNNABLE\<rparr>)) (\<lambda>_.
     release (Proc_lock p)))))))))))))"

definition fork :: "('z flstate_scheme, int) M" where
  "fork =
     bind curproc (\<lambda>p.
     bind allocproc (\<lambda>r. case r of None \<Rightarrow> return (- 1) | Some np \<Rightarrow>
     bind (get_proc p p_pagetable) (\<lambda>pt.
     bind (get_proc np p_pagetable) (\<lambda>npt.
     bind (get_proc p p_sz) (\<lambda>sz.
     bind (uvmcopy pt npt sz) (\<lambda>r.
     if r < 0 then
       bind (freeproc np) (\<lambda>_.
       bind (release (Proc_lock np)) (\<lambda>_.
       return (- 1)))
     else
     bind (upd_proc np (\<lambda>q. q\<lparr>p_sz := sz\<rparr>)) (\<lambda>_.
     bind (get_tf p id) (\<lambda>tf.
     bind (upd_tf np (\<lambda>_. tf)) (\<lambda>_.
     bind (upd_tf np (\<lambda>t. t\<lparr>tf_a0 := 0\<rparr>)) (\<lambda>_.
     bind (for_each [0..<NOFILE] (\<lambda>i.
       bind (get_proc p (\<lambda>q. p_ofile q i)) (\<lambda>fo. case fo of
         None \<Rightarrow> return ()
       | Some f \<Rightarrow>
           bind (filedup f) (\<lambda>f'.
           upd_proc np (\<lambda>q. q\<lparr>p_ofile := (p_ofile q)(i := Some f')\<rparr>))))) (\<lambda>_.
     bind (get_proc p p_cwd) (\<lambda>cwd.
     bind (bind (deref cwd) idup) (\<lambda>cwd'.
     bind (upd_proc np (\<lambda>q. q\<lparr>p_cwd := Some cwd'\<rparr>)) (\<lambda>_.
     bind (get_proc p p_name) (\<lambda>nm.
     bind (upd_proc np (set_name nm)) (\<lambda>_.
     bind (get_proc p p_trace_mask) (\<lambda>tm.
     bind (upd_proc np (\<lambda>q. q\<lparr>p_trace_mask := tm\<rparr>)) (\<lambda>_.
     bind (get_proc np p_pid) (\<lambda>pid.
     bind (release (Proc_lock np)) (\<lambda>_.
     bind (acquire Wait_lock) (\<lambda>_.
     bind (upd_proc np (\<lambda>q. q\<lparr>p_parent := Some p\<rparr>)) (\<lambda>_.
     bind (release Wait_lock) (\<lambda>_.
     bind (acquire (Proc_lock np)) (\<lambda>_.
     bind (upd_proc np (\<lambda>q. q\<lparr>p_state := RUNNABLE\<rparr>)) (\<lambda>_.
     bind (release (Proc_lock np)) (\<lambda>_.
     return pid))))))))))))))))))))))))))"

text \<open>
  \<open>exit\<close> ends in \<open>sched\<close>. The scheduler never switches back to a zombie; if it did, the
  code would panic.
\<close>

definition exit :: "int \<Rightarrow> ('z flstate_scheme, unit) M" where
  "exit status =
     bind curproc (\<lambda>p.
     bind (gets initproc) (\<lambda>ip.
     if Some p = ip then panic ''init exiting'' else
     bind (for_each [0..<NOFILE] (\<lambda>fd.
       bind (get_proc p (\<lambda>q. p_ofile q fd)) (\<lambda>fo. case fo of
         None \<Rightarrow> return ()
       | Some f \<Rightarrow>
           bind (fileclose f) (\<lambda>_.
           upd_proc p (\<lambda>q. q\<lparr>p_ofile := (p_ofile q)(fd := None)\<rparr>))))) (\<lambda>_.
     bind begin_op (\<lambda>_.
     bind (get_proc p p_cwd) (\<lambda>cwd.
     bind (bind (deref cwd) iput) (\<lambda>_.
     bind end_op (\<lambda>_.
     bind (upd_proc p (\<lambda>q. q\<lparr>p_cwd := None\<rparr>)) (\<lambda>_.
     bind (acquire Wait_lock) (\<lambda>_.
     bind (reparent p) (\<lambda>_.
     bind (get_proc p p_parent) (\<lambda>par.
     bind (wakeup (map_option Chan_proc par)) (\<lambda>_.
     bind (acquire (Proc_lock p)) (\<lambda>_.
     bind (upd_proc p (\<lambda>q. q\<lparr>p_xstate := status\<rparr>)) (\<lambda>_.
     bind (upd_proc p (\<lambda>q. q\<lparr>p_state := ZOMBIE\<rparr>)) (\<lambda>_.
     bind (release Wait_lock) (\<lambda>_.
     bind sched (\<lambda>_.
     panic ''zombie exit'')))))))))))))))))"

subsection \<open>\<open>exec\<close>\<close>

definition ELF_MAGIC :: uint32 where [layout_defs]: "ELF_MAGIC = 0x464C457F"
definition ELF_PROG_LOAD :: uint32 where [layout_defs]: "ELF_PROG_LOAD = 1"
definition ELFHDR_SIZE :: nat where [layout_defs]: "ELFHDR_SIZE = 64"
definition PROGHDR_SIZE :: nat where [layout_defs]: "PROGHDR_SIZE = 56"

text \<open>The fields of the headers that \<open>exec\<close> reads.\<close>

record elfhdr =
  e_magic :: uint32
  e_entry :: uint64
  e_phoff :: uint64
  e_phnum :: uint16

record proghdr =
  ph_type :: uint32
  ph_off :: uint64
  ph_vaddr :: uint64
  ph_filesz :: uint64
  ph_memsz :: uint64

definition get_dword :: "uint8 list \<Rightarrow> nat \<Rightarrow> uint64" where
  "get_dword bs off = of_le (take 8 (drop off bs))"

definition decode_elfhdr :: "uint8 list \<Rightarrow> elfhdr" where
  "decode_elfhdr bs = \<lparr>e_magic = get_word bs 0, e_entry = get_dword bs 24, e_phoff = get_dword bs 32,
     e_phnum = get_half bs 56\<rparr>"

definition decode_proghdr :: "uint8 list \<Rightarrow> proghdr" where
  "decode_proghdr bs = \<lparr>ph_type = get_word bs 0, ph_off = get_dword bs 8, ph_vaddr = get_dword bs 16,
     ph_filesz = get_dword bs 32, ph_memsz = get_dword bs 40\<rparr>"

definition loadseg :: "uint64 \<Rightarrow> uint64 \<Rightarrow> nat \<Rightarrow> uint32 \<Rightarrow> uint32 \<Rightarrow> ('z flstate_scheme, int) M" where
  "loadseg pagetable va ip offset sz = loop_env (\<lambda>i _. unat (- 1 - i)) (\<lambda>i.
     if i < sz then
       bind (walkaddr pagetable (va + ucast i)) (\<lambda>pa.
       if pa = 0 then panic ''loadseg: address should exist'' else
       bind (return (if sz - i < ucast PGSIZE then sz - i else ucast PGSIZE)) (\<lambda>n.
       bind (readi ip (To_mem pa) (offset + i) n) (\<lambda>(r, _).
       return (if (of_int r :: uint32) \<noteq> n then Inr (- 1) else Inl (i + ucast PGSIZE)))))
     else return (Inr 0)) 0"

definition exec_bad :: "uint64 \<Rightarrow> uint64 \<Rightarrow> nat option \<Rightarrow> ('z flstate_scheme, int) M" where
  "exec_bad pagetable sz ipo =
     bind (whenM (pagetable \<noteq> 0) (proc_freepagetable pagetable sz)) (\<lambda>_.
     bind (case ipo of None \<Rightarrow> return () | Some ip \<Rightarrow> bind (iunlockput ip) (\<lambda>_. end_op)) (\<lambda>_.
     return (- 1)))"

text \<open>The loop over the program headers: \<open>Inl (sz, off)\<close> at its end, \<open>Inr sz\<close> for \<open>goto bad\<close>.\<close>

definition exec_load ::
  "uint64 \<Rightarrow> nat \<Rightarrow> elfhdr \<Rightarrow> ('z flstate_scheme, (uint64 \<times> uint32) + uint64) M" where
  "exec_load pagetable ip elf = for_fold [0..<unat (e_phnum elf)] (0, ucast (e_phoff elf)) (\<lambda>i (sz, off).
     bind (readi ip To_obj off (of_nat PROGHDR_SIZE)) (\<lambda>(r, bs).
     if r \<noteq> int PROGHDR_SIZE then return (Inr sz) else
     bind (return (decode_proghdr bs)) (\<lambda>ph.
     if ph_type ph \<noteq> ELF_PROG_LOAD then return (Inl (sz, off + of_nat PROGHDR_SIZE)) else
     if ph_memsz ph < ph_filesz ph then return (Inr sz) else
     if ph_vaddr ph + ph_memsz ph < ph_vaddr ph then return (Inr sz) else
     bind (uvmalloc pagetable sz (ph_vaddr ph + ph_memsz ph)) (\<lambda>sz1.
     if sz1 = 0 then return (Inr sz) else
     if ph_vaddr ph mod PGSIZE \<noteq> 0 then return (Inr sz1) else
     bind (loadseg pagetable (ph_vaddr ph) ip (ucast (ph_off ph)) (ucast (ph_filesz ph))) (\<lambda>r.
     if r < 0 then return (Inr sz1) else return (Inl (sz1, off + of_nat PROGHDR_SIZE)))))))"

text \<open>
  Pushing the argument strings: \<open>Inl (sp, ustack)\<close> after the last one, \<open>Inr\<close> for \<open>goto bad\<close>.
\<close>

definition exec_args ::
  "uint64 \<Rightarrow> uint64 \<Rightarrow> uint64 \<Rightarrow> uint64 list \<Rightarrow> ('z flstate_scheme, (uint64 \<times> uint64 list) + unit) M" where
  "exec_args pagetable stackbase sp0 argv = for_fold argv (sp0, []) (\<lambda>a (sp, ustack).
     if length ustack \<ge> MAXARG then return (Inr ()) else
     bind (gets (\<lambda>s. strlen a (mem s))) (\<lambda>r.
     bind (of_loop r) (\<lambda>n.
     bind (return (let sp = sp - (of_nat n + 1) in sp - sp mod 16)) (\<lambda>sp.
     if sp < stackbase then return (Inr ()) else
     bind (copyout pagetable sp a (of_nat n + 1)) (\<lambda>r.
     if r < 0 then return (Inr ()) else return (Inl (sp, ustack @ [sp])))))))"

definition last_elem :: "uint8 list \<Rightarrow> uint8 list" where
  "last_elem path = rev (takeWhile (\<lambda>c. c \<noteq> SLASH) (rev path))"

text \<open>From the first \<open>end_op\<close> on: the stack, the arguments and the new image.\<close>

definition exec_commit ::
  "nat \<Rightarrow> uint64 \<Rightarrow> elfhdr \<Rightarrow> uint8 list \<Rightarrow> uint64 list \<Rightarrow> uint64 \<Rightarrow> ('z flstate_scheme, int) M" where
  "exec_commit p pagetable elf path argv sz0 =
     bind (get_proc p p_sz) (\<lambda>oldsz.
     bind (return (PGROUNDUP sz0)) (\<lambda>sz.
     bind (uvmalloc pagetable sz (sz + 2 * PGSIZE)) (\<lambda>sz1.
     if sz1 = 0 then exec_bad pagetable sz None else
     bind (uvmclear pagetable (sz1 - 2 * PGSIZE)) (\<lambda>_.
     bind (exec_args pagetable (sz1 - PGSIZE) sz1 argv) (\<lambda>r. case r of
       Inr _ \<Rightarrow> exec_bad pagetable sz1 None
     | Inl (sp, ustack) \<Rightarrow>
     if length ustack \<ge> MAXARG then fault else
     bind (return (let sp = sp - of_nat (length ustack + 1) * 8 in sp - sp mod 16)) (\<lambda>sp.
     if sp < sz1 - PGSIZE then exec_bad pagetable sz1 None else
     bind (copyout_obj pagetable sp (concat (map (to_le 8) (ustack @ [0])))) (\<lambda>r.
     if r < 0 then exec_bad pagetable sz1 None else
     bind (upd_tf p (\<lambda>t. t\<lparr>tf_a1 := sp\<rparr>)) (\<lambda>_.
     bind (upd_proc p (set_name (last_elem path))) (\<lambda>_.
     bind (get_proc p p_pagetable) (\<lambda>oldpagetable.
     bind (upd_proc p (\<lambda>q. q\<lparr>p_pagetable := pagetable, p_sz := sz1\<rparr>)) (\<lambda>_.
     bind (upd_tf p (\<lambda>t. t\<lparr>tf_epc := e_entry elf\<rparr>)) (\<lambda>_.
     bind (upd_tf p (\<lambda>t. t\<lparr>tf_sp := sp\<rparr>)) (\<lambda>_.
     bind (proc_freepagetable oldpagetable oldsz) (\<lambda>_.
     return (int (length ustack))))))))))))))))"

definition exec :: "uint8 list \<Rightarrow> uint64 list \<Rightarrow> ('z flstate_scheme, int) M" where
  "exec path argv =
     bind curproc (\<lambda>p.
     bind begin_op (\<lambda>_.
     bind (namei path) (\<lambda>ipo. case ipo of
       None \<Rightarrow> bind end_op (\<lambda>_. return (- 1))
     | Some ip \<Rightarrow>
     bind (ilock (Some ip)) (\<lambda>_.
     bind (readi ip To_obj 0 (of_nat ELFHDR_SIZE)) (\<lambda>(r, bs).
     if r \<noteq> int ELFHDR_SIZE then exec_bad 0 0 (Some ip) else
     bind (return (decode_elfhdr bs)) (\<lambda>elf.
     if e_magic elf \<noteq> ELF_MAGIC then exec_bad 0 0 (Some ip) else
     bind (proc_pagetable p) (\<lambda>pagetable.
     if pagetable = 0 then exec_bad 0 0 (Some ip) else
     bind (exec_load pagetable ip elf) (\<lambda>r. case r of
       Inr sz \<Rightarrow> exec_bad pagetable sz (Some ip)
     | Inl (sz, _) \<Rightarrow>
     bind (iunlockput ip) (\<lambda>_.
     bind end_op (\<lambda>_.
     bind curproc (\<lambda>p.
     exec_commit p pagetable elf path argv sz)))))))))))"

end
