(* ===== verification/Sysproc.thy ===== *)
theory Sysproc
  imports Process
begin

unbundle bit_operations_syntax

section \<open>System call arguments and the system calls on processes: \<open>kernel/syscall.c\<close>, \<open>kernel/sysproc.c\<close>\<close>

text \<open>
  Arguments come from the registers the trapframe has saved. A function that returns -1
  for an error and stores its result through a pointer returns \<open>None\<close> or the result.
  System calls return the 64-bit value that goes to register \<open>a0\<close>.
\<close>

definition fetchaddr :: "uint64 \<Rightarrow> ('z flstate_scheme, uint64 option) M" where
  "fetchaddr addr =
     bind curproc (\<lambda>p.
     bind (get_proc p id) (\<lambda>q.
     if addr \<ge> p_sz q \<or> addr + 8 > p_sz q then return None else
     bind (copyin_obj (p_pagetable q) [] addr 8) (\<lambda>(r, bs).
     return (if r \<noteq> 0 then None else Some (of_le bs)))))"

text \<open>
  \<open>fetchstr\<close> into an array of the kernel stack, which is kept as a list, and into a page:
  the length of the string, for the array with its bytes before the NUL.
\<close>

definition fetchstr :: "uint64 \<Rightarrow> nat \<Rightarrow> ('z flstate_scheme, (int \<times> uint8 list) option) M" where
  "fetchstr addr mx =
     bind curproc (\<lambda>p.
     bind (get_proc p p_pagetable) (\<lambda>pt.
     bind (copyinstr_obj pt [] addr mx) (\<lambda>(err, buf).
     return (if err < 0 then None
       else let str = takeWhile (\<lambda>c. c \<noteq> 0) buf in Some (int (length str), str)))))"

definition fetchstr_page :: "uint64 \<Rightarrow> uint64 \<Rightarrow> uint64 \<Rightarrow> ('z flstate_scheme, int) M" where
  "fetchstr_page addr buf mx =
     bind curproc (\<lambda>p.
     bind (get_proc p p_pagetable) (\<lambda>pt.
     bind (copyinstr pt buf addr mx) (\<lambda>err.
     if err < 0 then return err else
     bind (gets (\<lambda>s. strlen buf (mem s))) (\<lambda>r.
     bind (of_loop r) (\<lambda>n.
     return (int n))))))"

definition argraw :: "nat \<Rightarrow> ('z flstate_scheme, uint64) M" where
  "argraw n =
     bind curproc (\<lambda>p.
     if n = 0 then get_tf p tf_a0
     else if n = 1 then get_tf p tf_a1
     else if n = 2 then get_tf p tf_a2
     else if n = 3 then get_tf p tf_a3
     else if n = 4 then get_tf p tf_a4
     else if n = 5 then get_tf p tf_a5
     else panic ''argraw'')"

definition argint :: "nat \<Rightarrow> ('z flstate_scheme, int option) M" where
  "argint n = bind (argraw n) (\<lambda>v. return (Some (sint (ucast v :: uint32))))"

definition argaddr :: "nat \<Rightarrow> ('z flstate_scheme, uint64 option) M" where
  "argaddr n = bind (argraw n) (\<lambda>v. return (Some v))"

definition argstr :: "nat \<Rightarrow> nat \<Rightarrow> ('z flstate_scheme, (int \<times> uint8 list) option) M" where
  "argstr n mx = bind (argaddr n) (\<lambda>r. case r of None \<Rightarrow> return None | Some addr \<Rightarrow> fetchstr addr mx)"

subsection \<open>\<open>sysproc.c\<close>\<close>

definition sys_exit :: "('z flstate_scheme, uint64) M" where
  "sys_exit =
     bind (argint 0) (\<lambda>r. case r of None \<Rightarrow> return (- 1) | Some n \<Rightarrow>
     bind (exit n) (\<lambda>_.
     return 0))"

definition sys_getpid :: "('z flstate_scheme, uint64) M" where
  "sys_getpid = bind curproc (\<lambda>p. bind (get_proc p p_pid) (\<lambda>pid. return (of_int pid)))"

definition sys_fork :: "('z flstate_scheme, uint64) M" where
  "sys_fork = bind fork (\<lambda>r. return (of_int r))"

definition sys_wait :: "('z flstate_scheme, uint64) M" where
  "sys_wait =
     bind (argaddr 0) (\<lambda>r. case r of None \<Rightarrow> return (- 1) | Some p \<Rightarrow>
     bind (wait p) (\<lambda>r. return (of_int r)))"

definition sys_sbrk :: "('z flstate_scheme, uint64) M" where
  "sys_sbrk =
     bind (argint 0) (\<lambda>r. case r of None \<Rightarrow> return (- 1) | Some n \<Rightarrow>
     bind curproc (\<lambda>p.
     bind (get_proc p p_sz) (\<lambda>sz.
     bind (return (sint (ucast sz :: uint32))) (\<lambda>addr.
     bind (growproc n) (\<lambda>r.
     if r < 0 then return (- 1) else return (of_int addr))))))"

text \<open>\<open>ticks - ticks0 < n\<close> compares as unsigned.\<close>

definition sys_sleep :: "('z flstate_scheme, uint64) M" where
  "sys_sleep =
     bind (argint 0) (\<lambda>r. case r of None \<Rightarrow> return (- 1) | Some n \<Rightarrow>
     bind (acquire Tickslock) (\<lambda>_.
     bind (gets ticks) (\<lambda>ticks0.
     bind (while_sleep
       (bind (gets ticks) (\<lambda>t.
        if t - ticks0 < of_int n then
          bind curproc (\<lambda>p.
          bind (get_proc p p_killed) (\<lambda>killed.
          if killed \<noteq> 0 then bind (release Tickslock) (\<lambda>_. return (Some False))
          else bind (sleep Chan_ticks Tickslock) (\<lambda>_. return None)))
        else return (Some True)))) (\<lambda>ok.
     if \<not> ok then return (- 1) else
     bind (release Tickslock) (\<lambda>_.
     return 0)))))"

definition sys_kill :: "('z flstate_scheme, uint64) M" where
  "sys_kill =
     bind (argint 0) (\<lambda>r. case r of None \<Rightarrow> return (- 1) | Some pid \<Rightarrow>
     bind (kill pid) (\<lambda>r. return (of_int r)))"

definition sys_uptime :: "('z flstate_scheme, uint64) M" where
  "sys_uptime =
     bind (acquire Tickslock) (\<lambda>_.
     bind (gets ticks) (\<lambda>xticks.
     bind (release Tickslock) (\<lambda>_.
     return (ucast xticks))))"

definition sys_trace :: "('z flstate_scheme, uint64) M" where
  "sys_trace =
     bind (argint 0) (\<lambda>r. case r of None \<Rightarrow> return (- 1) | Some msk \<Rightarrow>
     bind curproc (\<lambda>p.
     bind (upd_proc p (\<lambda>q. q\<lparr>p_trace_mask := msk\<rparr>)) (\<lambda>_.
     return 0)))"

record sysinfo =
  si_freemem :: uint64
  si_nproc :: uint64

definition encode_sysinfo :: "sysinfo \<Rightarrow> uint8 list" where
  "encode_sysinfo i = to_le 8 (si_freemem i) @ to_le 8 (si_nproc i)"

definition sys_sysinfo :: "('z flstate_scheme, uint64) M" where
  "sys_sysinfo =
     bind (argaddr 0) (\<lambda>r. case r of None \<Rightarrow> return (- 1) | Some addr \<Rightarrow>
     bind kfreemem (\<lambda>freemem.
     bind nproc (\<lambda>np.
     bind (return \<lparr>si_freemem = of_int freemem, si_nproc = of_int np\<rparr>) (\<lambda>i.
     bind curproc (\<lambda>p.
     bind (get_proc p p_pagetable) (\<lambda>pt.
     bind (copyout_obj pt addr (encode_sysinfo i)) (\<lambda>r.
     if r < 0 then return (- 1) else return 0)))))))"

end
