(* ===== verification/Sysfile.thy ===== *)
theory Sysfile
  imports Sysproc
begin

unbundle bit_operations_syntax

section \<open>The system calls on files: \<open>kernel/sysfile.c\<close>, \<open>kernel/fcntl.h\<close>\<close>

text \<open>
  Argument checks, transactions and error paths as in the source; a \<open>goto bad\<close> is a call
  of the definition that holds the code after the label.
\<close>

definition O_RDONLY :: uint32 where [layout_defs]: "O_RDONLY = 0x000"
definition O_WRONLY :: uint32 where [layout_defs]: "O_WRONLY = 0x001"
definition O_RDWR :: uint32 where [layout_defs]: "O_RDWR = 0x002"
definition O_CREATE :: uint32 where [layout_defs]: "O_CREATE = 0x200"
definition O_TRUNC :: uint32 where [layout_defs]: "O_TRUNC = 0x400"

definition argfd :: "nat \<Rightarrow> ('z flstate_scheme, (nat \<times> nat) option) M" where
  "argfd n =
     bind (argint n) (\<lambda>r. case r of None \<Rightarrow> return None | Some fd \<Rightarrow>
     if fd < 0 \<or> fd \<ge> int NOFILE then return None else
     bind curproc (\<lambda>p.
     bind (get_proc p (\<lambda>q. p_ofile q (nat fd))) (\<lambda>fo. case fo of
       None \<Rightarrow> return None
     | Some f \<Rightarrow> return (Some (nat fd, f)))))"

definition fdalloc :: "nat \<Rightarrow> ('z flstate_scheme, nat option) M" where
  "fdalloc f =
     bind curproc (\<lambda>p.
     for_find [0..<NOFILE] (\<lambda>fd.
       bind (get_proc p (\<lambda>q. p_ofile q fd)) (\<lambda>fo.
       if fo = None then
         bind (upd_proc p (\<lambda>q. q\<lparr>p_ofile := (p_ofile q)(fd := Some f)\<rparr>)) (\<lambda>_.
         return (Some fd))
       else return None)))"

definition sys_dup :: "('z flstate_scheme, uint64) M" where
  "sys_dup =
     bind (argfd 0) (\<lambda>r. case r of None \<Rightarrow> return (- 1) | Some (_, f) \<Rightarrow>
     bind (fdalloc f) (\<lambda>r. case r of None \<Rightarrow> return (- 1) | Some fd \<Rightarrow>
     bind (filedup f) (\<lambda>_.
     return (of_nat fd))))"

text \<open>\<open>argfd(0, 0, &f) < 0 || argint(2, &n) < 0 || argaddr(1, &p) < 0\<close>.\<close>

definition rw_args :: "('z flstate_scheme, (nat \<times> int \<times> uint64) option) M" where
  "rw_args =
     bind (argfd 0) (\<lambda>r. case r of None \<Rightarrow> return None | Some (_, f) \<Rightarrow>
     bind (argint 2) (\<lambda>r. case r of None \<Rightarrow> return None | Some n \<Rightarrow>
     bind (argaddr 1) (\<lambda>r. case r of None \<Rightarrow> return None | Some p \<Rightarrow>
     return (Some (f, n, p)))))"

definition sys_read :: "('z flstate_scheme, uint64) M" where
  "sys_read =
     bind rw_args (\<lambda>r. case r of None \<Rightarrow> return (- 1) | Some (f, n, p) \<Rightarrow>
     bind (fileread f p n) (\<lambda>r. return (of_int r)))"

definition sys_write :: "('z flstate_scheme, uint64) M" where
  "sys_write =
     bind rw_args (\<lambda>r. case r of None \<Rightarrow> return (- 1) | Some (f, n, p) \<Rightarrow>
     bind (filewrite f p n) (\<lambda>r. return (of_int r)))"

definition sys_close :: "('z flstate_scheme, uint64) M" where
  "sys_close =
     bind (argfd 0) (\<lambda>r. case r of None \<Rightarrow> return (- 1) | Some (fd, f) \<Rightarrow>
     bind curproc (\<lambda>p.
     bind (upd_proc p (\<lambda>q. q\<lparr>p_ofile := (p_ofile q)(fd := None)\<rparr>)) (\<lambda>_.
     bind (fileclose f) (\<lambda>_.
     return 0))))"

definition sys_fstat :: "('z flstate_scheme, uint64) M" where
  "sys_fstat =
     bind (argfd 0) (\<lambda>r. case r of None \<Rightarrow> return (- 1) | Some (_, f) \<Rightarrow>
     bind (argaddr 1) (\<lambda>r. case r of None \<Rightarrow> return (- 1) | Some st \<Rightarrow>
     bind (filestat f st) (\<lambda>r. return (of_int r))))"

definition link_bad :: "nat \<Rightarrow> ('z flstate_scheme, uint64) M" where
  "link_bad ip =
     bind (ilock (Some ip)) (\<lambda>_.
     bind (upd_inode ip (\<lambda>x. x\<lparr>i_nlink := i_nlink x - 1\<rparr>)) (\<lambda>_.
     bind (iupdate ip) (\<lambda>_.
     bind (iunlockput ip) (\<lambda>_.
     bind end_op (\<lambda>_.
     return (- 1))))))"

definition sys_link :: "('z flstate_scheme, uint64) M" where
  "sys_link =
     bind (argstr 0 MAXPATH) (\<lambda>r. case r of None \<Rightarrow> return (- 1) | Some (_, old) \<Rightarrow>
     bind (argstr 1 MAXPATH) (\<lambda>r. case r of None \<Rightarrow> return (- 1) | Some (_, new) \<Rightarrow>
     bind begin_op (\<lambda>_.
     bind (namei old) (\<lambda>r. case r of None \<Rightarrow> bind end_op (\<lambda>_. return (- 1)) | Some ip \<Rightarrow>
     bind (ilock (Some ip)) (\<lambda>_.
     bind (get_inode ip i_type) (\<lambda>ty.
     if ty = T_DIR then
       bind (iunlockput ip) (\<lambda>_. bind end_op (\<lambda>_. return (- 1)))
     else
     bind (upd_inode ip (\<lambda>x. x\<lparr>i_nlink := i_nlink x + 1\<rparr>)) (\<lambda>_.
     bind (iupdate ip) (\<lambda>_.
     bind (iunlock (Some ip)) (\<lambda>_.
     bind (nameiparent new (replicate DIRSIZ 0)) (\<lambda>(r, name). case r of None \<Rightarrow> link_bad ip | Some dp \<Rightarrow>
     bind (ilock (Some dp)) (\<lambda>_.
     bind (get_inode dp i_dev) (\<lambda>ddev.
     bind (get_inode ip id) (\<lambda>x.
     bind (if ddev \<noteq> i_dev x then return (- 1) else dirlink dp name (i_inum x)) (\<lambda>r.
     if r < 0 then bind (iunlockput dp) (\<lambda>_. link_bad ip) else
     bind (iunlockput dp) (\<lambda>_.
     bind (iput ip) (\<lambda>_.
     bind end_op (\<lambda>_.
     return 0)))))))))))))))))"

definition isdirempty :: "nat \<Rightarrow> ('z flstate_scheme, bool) M" where
  "isdirempty dp = loop_env (\<lambda>off _. unat (- 1 - off)) (\<lambda>off.
     bind (get_inode dp i_size) (\<lambda>sz.
     if off < sz then
       bind (readi dp To_obj off (of_nat DIRENT_SIZE)) (\<lambda>(r, bs).
       if r \<noteq> int DIRENT_SIZE then panic ''isdirempty: readi'' else
       if de_inum (decode_dirent bs) \<noteq> 0 then return (Inr False)
       else return (Inl (off + of_nat DIRENT_SIZE)))
     else return (Inr True))) (of_nat (2 * DIRENT_SIZE))"

definition unlink_bad :: "nat \<Rightarrow> ('z flstate_scheme, uint64) M" where
  "unlink_bad dp =
     bind (iunlockput dp) (\<lambda>_.
     bind end_op (\<lambda>_.
     return (- 1)))"

definition sys_unlink :: "('z flstate_scheme, uint64) M" where
  "sys_unlink =
     bind (argstr 0 MAXPATH) (\<lambda>r. case r of None \<Rightarrow> return (- 1) | Some (_, path) \<Rightarrow>
     bind begin_op (\<lambda>_.
     bind (nameiparent path (replicate DIRSIZ 0)) (\<lambda>(r, name). case r of
       None \<Rightarrow> bind end_op (\<lambda>_. return (- 1))
     | Some dp \<Rightarrow>
     bind (ilock (Some dp)) (\<lambda>_.
     if namecmp name (cstr ''.'') = 0 \<or> namecmp name (cstr ''..'') = 0 then unlink_bad dp else
     bind (dirlookup dp name) (\<lambda>r. case r of None \<Rightarrow> unlink_bad dp | Some (ip, off) \<Rightarrow>
     bind (ilock (Some ip)) (\<lambda>_.
     bind (get_inode ip id) (\<lambda>x.
     if sint (i_nlink x) < 1 then panic ''unlink: nlink < 1'' else
     bind (if i_type x = T_DIR then isdirempty ip else return True) (\<lambda>empty.
     if \<not> empty then bind (iunlockput ip) (\<lambda>_. unlink_bad dp) else
     bind (writei dp (From_obj (replicate DIRENT_SIZE 0)) off (of_nat DIRENT_SIZE)) (\<lambda>r.
     if r \<noteq> int DIRENT_SIZE then panic ''unlink: writei'' else
     bind (get_inode ip i_type) (\<lambda>ty.
     bind (whenM (ty = T_DIR)
       (bind (upd_inode dp (\<lambda>x. x\<lparr>i_nlink := i_nlink x - 1\<rparr>)) (\<lambda>_.
        iupdate dp))) (\<lambda>_.
     bind (iunlockput dp) (\<lambda>_.
     bind (upd_inode ip (\<lambda>x. x\<lparr>i_nlink := i_nlink x - 1\<rparr>)) (\<lambda>_.
     bind (iupdate ip) (\<lambda>_.
     bind (iunlockput ip) (\<lambda>_.
     bind end_op (\<lambda>_.
     return 0))))))))))))))))"

definition create :: "uint8 list \<Rightarrow> uint16 \<Rightarrow> uint16 \<Rightarrow> uint16 \<Rightarrow> ('z flstate_scheme, nat option) M" where
  "create path type major minor =
     bind (nameiparent path (replicate DIRSIZ 0)) (\<lambda>(r, name). case r of None \<Rightarrow> return None | Some dp \<Rightarrow>
     bind (ilock (Some dp)) (\<lambda>_.
     bind (dirlookup dp name) (\<lambda>r. case r of
       Some (ip, _) \<Rightarrow>
         bind (iunlockput dp) (\<lambda>_.
         bind (ilock (Some ip)) (\<lambda>_.
         bind (get_inode ip i_type) (\<lambda>ty.
         if type = T_FILE \<and> (ty = T_FILE \<or> ty = T_DEVICE) then return (Some ip) else
         bind (iunlockput ip) (\<lambda>_.
         return None))))
     | None \<Rightarrow>
         bind (get_inode dp i_dev) (\<lambda>dev.
         bind (ialloc dev type) (\<lambda>ip.
         bind (ilock (Some ip)) (\<lambda>_.
         bind (upd_inode ip (\<lambda>x. x\<lparr>i_major := major, i_minor := minor, i_nlink := 1\<rparr>)) (\<lambda>_.
         bind (iupdate ip) (\<lambda>_.
         bind (whenM (type = T_DIR)
           (bind (upd_inode dp (\<lambda>x. x\<lparr>i_nlink := i_nlink x + 1\<rparr>)) (\<lambda>_.
            bind (iupdate dp) (\<lambda>_.
            bind (get_inode ip i_inum) (\<lambda>inum.
            bind (dirlink ip (cstr ''.'') inum) (\<lambda>r.
            if r < 0 then panic ''create dots'' else
            bind (get_inode dp i_inum) (\<lambda>dinum.
            bind (dirlink ip (cstr ''..'') dinum) (\<lambda>r.
            if r < 0 then panic ''create dots'' else return ())))))))) (\<lambda>_.
         bind (get_inode ip i_inum) (\<lambda>inum.
         bind (dirlink dp name inum) (\<lambda>r.
         if r < 0 then panic ''create: dirlink'' else
         bind (iunlockput dp) (\<lambda>_.
         return (Some ip)))))))))))))"

text \<open>The code of \<open>sys_open\<close> once \<open>ip\<close> is locked.\<close>

definition open_inode :: "nat \<Rightarrow> int \<Rightarrow> ('z flstate_scheme, uint64) M" where
  "open_inode ip omode =
     bind (get_inode ip id) (\<lambda>x.
     if i_type x = T_DEVICE \<and> (sint (i_major x) < 0 \<or> sint (i_major x) \<ge> int NDEV) then
       bind (iunlockput ip) (\<lambda>_. bind end_op (\<lambda>_. return (- 1)))
     else
     bind filealloc (\<lambda>fo. case fo of
       None \<Rightarrow> bind (iunlockput ip) (\<lambda>_. bind end_op (\<lambda>_. return (- 1)))
     | Some f \<Rightarrow>
     bind (fdalloc f) (\<lambda>r. case r of
       None \<Rightarrow>
         bind (fileclose f) (\<lambda>_.
         bind (iunlockput ip) (\<lambda>_. bind end_op (\<lambda>_. return (- 1))))
     | Some fd \<Rightarrow>
     bind (get_inode ip id) (\<lambda>x.
     bind (upd_file f (\<lambda>y. if i_type x = T_DEVICE then y\<lparr>f_type := FD_DEVICE, f_major := i_major x\<rparr>
        else y\<lparr>f_type := FD_INODE, f_off := 0\<rparr>)) (\<lambda>_.
     bind (return (of_int omode :: uint32)) (\<lambda>om.
     bind (upd_file f (\<lambda>y. y\<lparr>f_ip := Some ip, f_readable := (om AND O_WRONLY = 0),
        f_writable := (om AND O_WRONLY \<noteq> 0 \<or> om AND O_RDWR \<noteq> 0)\<rparr>)) (\<lambda>_.
     bind (whenM (om AND O_TRUNC \<noteq> 0 \<and> i_type x = T_FILE) (itrunc ip)) (\<lambda>_.
     bind (iunlock (Some ip)) (\<lambda>_.
     bind end_op (\<lambda>_.
     return (of_nat fd)))))))))))"

definition sys_open :: "('z flstate_scheme, uint64) M" where
  "sys_open =
     bind (argstr 0 MAXPATH) (\<lambda>r. case r of None \<Rightarrow> return (- 1) | Some (_, path) \<Rightarrow>
     bind (argint 1) (\<lambda>r. case r of None \<Rightarrow> return (- 1) | Some omode \<Rightarrow>
     bind begin_op (\<lambda>_.
     if (of_int omode :: uint32) AND O_CREATE \<noteq> 0 then
       bind (create path T_FILE 0 0) (\<lambda>r. case r of
         None \<Rightarrow> bind end_op (\<lambda>_. return (- 1))
       | Some ip \<Rightarrow> open_inode ip omode)
     else
       bind (namei path) (\<lambda>r. case r of
         None \<Rightarrow> bind end_op (\<lambda>_. return (- 1))
       | Some ip \<Rightarrow>
           bind (ilock (Some ip)) (\<lambda>_.
           bind (get_inode ip i_type) (\<lambda>ty.
           if ty = T_DIR \<and> (of_int omode :: uint32) \<noteq> O_RDONLY then
             bind (iunlockput ip) (\<lambda>_. bind end_op (\<lambda>_. return (- 1)))
           else open_inode ip omode))))))"

definition sys_mkdir :: "('z flstate_scheme, uint64) M" where
  "sys_mkdir =
     bind begin_op (\<lambda>_.
     bind (argstr 0 MAXPATH) (\<lambda>r. case r of None \<Rightarrow> bind end_op (\<lambda>_. return (- 1)) | Some (_, path) \<Rightarrow>
     bind (create path T_DIR 0 0) (\<lambda>r. case r of None \<Rightarrow> bind end_op (\<lambda>_. return (- 1)) | Some ip \<Rightarrow>
     bind (iunlockput ip) (\<lambda>_.
     bind end_op (\<lambda>_.
     return 0)))))"

definition sys_mknod :: "('z flstate_scheme, uint64) M" where
  "sys_mknod =
     bind begin_op (\<lambda>_.
     bind (argstr 0 MAXPATH) (\<lambda>r. case r of None \<Rightarrow> bind end_op (\<lambda>_. return (- 1)) | Some (_, path) \<Rightarrow>
     bind (argint 1) (\<lambda>r. case r of None \<Rightarrow> bind end_op (\<lambda>_. return (- 1)) | Some major \<Rightarrow>
     bind (argint 2) (\<lambda>r. case r of None \<Rightarrow> bind end_op (\<lambda>_. return (- 1)) | Some minor \<Rightarrow>
     bind (create path T_DEVICE (of_int major) (of_int minor)) (\<lambda>r. case r of
       None \<Rightarrow> bind end_op (\<lambda>_. return (- 1))
     | Some ip \<Rightarrow>
     bind (iunlockput ip) (\<lambda>_.
     bind end_op (\<lambda>_.
     return 0)))))))"

definition sys_chdir :: "('z flstate_scheme, uint64) M" where
  "sys_chdir =
     bind curproc (\<lambda>p.
     bind begin_op (\<lambda>_.
     bind (argstr 0 MAXPATH) (\<lambda>r. case r of None \<Rightarrow> bind end_op (\<lambda>_. return (- 1)) | Some (_, path) \<Rightarrow>
     bind (namei path) (\<lambda>r. case r of None \<Rightarrow> bind end_op (\<lambda>_. return (- 1)) | Some ip \<Rightarrow>
     bind (ilock (Some ip)) (\<lambda>_.
     bind (get_inode ip i_type) (\<lambda>ty.
     if ty \<noteq> T_DIR then
       bind (iunlockput ip) (\<lambda>_. bind end_op (\<lambda>_. return (- 1)))
     else
     bind (iunlock (Some ip)) (\<lambda>_.
     bind (get_proc p p_cwd) (\<lambda>cwd.
     bind (bind (deref cwd) iput) (\<lambda>_.
     bind end_op (\<lambda>_.
     bind (upd_proc p (\<lambda>q. q\<lparr>p_cwd := Some ip\<rparr>)) (\<lambda>_.
     return 0)))))))))))"

text \<open>
  The loop of \<open>sys_exec\<close> over the argument vector. \<open>Inr (argv, True)\<close> is the \<open>break\<close> at
  its null pointer, everything else is \<open>goto bad\<close> with the pages allocated so far.
\<close>

definition exec_argv :: "uint64 \<Rightarrow> ('z flstate_scheme, uint64 list + uint64 list \<times> bool) M" where
  "exec_argv uargv = for_fold [0..<MAXARG] [] (\<lambda>i argv.
     bind (fetchaddr (uargv + 8 * of_nat i)) (\<lambda>r. case r of
       None \<Rightarrow> return (Inr (argv, False))
     | Some uarg \<Rightarrow>
         if uarg = 0 then return (Inr (argv, True)) else
         bind kalloc (\<lambda>page.
         if page = 0 then return (Inr (argv, False)) else
         bind (fetchstr_page uarg page PGSIZE) (\<lambda>r.
         return (if r < 0 then Inr (argv @ [page], False) else Inl (argv @ [page]))))))"

definition sys_exec :: "('z flstate_scheme, uint64) M" where
  "sys_exec =
     bind (argstr 0 MAXPATH) (\<lambda>r. case r of None \<Rightarrow> return (- 1) | Some (_, path) \<Rightarrow>
     bind (argaddr 1) (\<lambda>r. case r of None \<Rightarrow> return (- 1) | Some uargv \<Rightarrow>
     bind (exec_argv uargv) (\<lambda>r. case r of
       Inr (argv, True) \<Rightarrow>
         bind (exec path argv) (\<lambda>ret.
         bind (for_each argv kfree) (\<lambda>_.
         return (of_int ret)))
     | Inr (argv, False) \<Rightarrow> bind (for_each argv kfree) (\<lambda>_. return (- 1))
     | Inl argv \<Rightarrow> bind (for_each argv kfree) (\<lambda>_. return (- 1)))))"

definition clear_fd :: "nat \<Rightarrow> nat \<Rightarrow> ('z flstate_scheme, unit) M" where
  "clear_fd p fd = upd_proc p (\<lambda>q. q\<lparr>p_ofile := (p_ofile q)(fd := None)\<rparr>)"

definition sys_pipe :: "('z flstate_scheme, uint64) M" where
  "sys_pipe =
     bind curproc (\<lambda>p.
     bind (argaddr 0) (\<lambda>r. case r of None \<Rightarrow> return (- 1) | Some fdarray \<Rightarrow>
     bind pipealloc (\<lambda>r. case r of None \<Rightarrow> return (- 1) | Some (f0, f1) \<Rightarrow>
     bind (fdalloc f0) (\<lambda>r0. case r0 of
       None \<Rightarrow> bind (fileclose f0) (\<lambda>_. bind (fileclose f1) (\<lambda>_. return (- 1)))
     | Some fd0 \<Rightarrow>
     bind (fdalloc f1) (\<lambda>r1. case r1 of
       None \<Rightarrow>
         bind (clear_fd p fd0) (\<lambda>_.
         bind (fileclose f0) (\<lambda>_.
         bind (fileclose f1) (\<lambda>_.
         return (- 1))))
     | Some fd1 \<Rightarrow>
     bind (get_proc p p_pagetable) (\<lambda>pt.
     bind (copyout_obj pt fdarray (to_le 4 (of_nat fd0 :: uint32))) (\<lambda>r.
     bind (if r < 0 then return r
       else copyout_obj pt (fdarray + 4) (to_le 4 (of_nat fd1 :: uint32))) (\<lambda>r.
     if r < 0 then
       bind (clear_fd p fd0) (\<lambda>_.
       bind (clear_fd p fd1) (\<lambda>_.
       bind (fileclose f0) (\<lambda>_.
       bind (fileclose f1) (\<lambda>_.
       return (- 1)))))
     else return 0))))))))"

end
