(* ===== verification/Trap.thy ===== *)
theory Trap
  imports Sysfile
begin

unbundle bit_operations_syntax

section \<open>System call dispatch, traps and interrupts: \<open>kernel/syscall.c\<close>, \<open>kernel/trap.c\<close>, \<open>kernel/plic.c\<close>\<close>

text \<open>
  The addresses of \<open>kernelvec\<close>, \<open>usertrap\<close>, \<open>uservec\<close> and \<open>userret\<close> come from the linker
  and are part of the state, as the registers of the interrupt controller are: a cell
  each, except that a claim register holds the interrupt the controller hands out next.
  The jump to user space ends the C code, \<open>NoReturn\<close>, and leaves in \<open>user_jump\<close> the
  function it calls and the two arguments.
\<close>

record tstate = flstate +
  kernelvec_addr :: uint64
  usertrap_addr :: uint64
  uservec_addr :: uint64
  userret_addr :: uint64
  plic_regs :: "uint64 \<Rightarrow> uint32"
  forkret_first :: int
  user_jump :: "(uint64 \<times> uint64 \<times> uint64) option"

definition SYS_fork :: int where [layout_defs]: "SYS_fork = 1"
definition SYS_exit :: int where [layout_defs]: "SYS_exit = 2"
definition SYS_wait :: int where [layout_defs]: "SYS_wait = 3"
definition SYS_pipe :: int where [layout_defs]: "SYS_pipe = 4"
definition SYS_read :: int where [layout_defs]: "SYS_read = 5"
definition SYS_kill :: int where [layout_defs]: "SYS_kill = 6"
definition SYS_exec :: int where [layout_defs]: "SYS_exec = 7"
definition SYS_fstat :: int where [layout_defs]: "SYS_fstat = 8"
definition SYS_chdir :: int where [layout_defs]: "SYS_chdir = 9"
definition SYS_dup :: int where [layout_defs]: "SYS_dup = 10"
definition SYS_getpid :: int where [layout_defs]: "SYS_getpid = 11"
definition SYS_sbrk :: int where [layout_defs]: "SYS_sbrk = 12"
definition SYS_sleep :: int where [layout_defs]: "SYS_sleep = 13"
definition SYS_uptime :: int where [layout_defs]: "SYS_uptime = 14"
definition SYS_open :: int where [layout_defs]: "SYS_open = 15"
definition SYS_write :: int where [layout_defs]: "SYS_write = 16"
definition SYS_mknod :: int where [layout_defs]: "SYS_mknod = 17"
definition SYS_unlink :: int where [layout_defs]: "SYS_unlink = 18"
definition SYS_link :: int where [layout_defs]: "SYS_link = 19"
definition SYS_mkdir :: int where [layout_defs]: "SYS_mkdir = 20"
definition SYS_close :: int where [layout_defs]: "SYS_close = 21"
definition SYS_trace :: int where [layout_defs]: "SYS_trace = 22"
definition SYS_sysinfo :: int where [layout_defs]: "SYS_sysinfo = 23"

subsection \<open>System calls\<close>

definition syscall_names :: "(int \<times> string) list" where
  "syscall_names = [(SYS_fork, ''fork''), (SYS_exit, ''exit''), (SYS_wait, ''wait''), (SYS_pipe, ''pipe''),
     (SYS_read, ''read''), (SYS_kill, ''kill''), (SYS_exec, ''exec''), (SYS_fstat, ''fstat''),
     (SYS_chdir, ''chdir''), (SYS_dup, ''dup''), (SYS_getpid, ''getpid''), (SYS_sbrk, ''sbrk''),
     (SYS_sleep, ''sleep''), (SYS_uptime, ''uptime''), (SYS_open, ''open''), (SYS_write, ''write''),
     (SYS_mknod, ''mknod''), (SYS_unlink, ''unlink''), (SYS_link, ''link''), (SYS_mkdir, ''mkdir''),
     (SYS_close, ''close''), (SYS_trace, ''trace''), (SYS_sysinfo, ''sysinfo'')]"

definition syscalls :: "int \<Rightarrow> ('z flstate_scheme, uint64) M option" where
  "syscalls num = map_of [(SYS_fork, sys_fork), (SYS_exit, sys_exit), (SYS_wait, sys_wait), (SYS_pipe, sys_pipe),
     (SYS_read, sys_read), (SYS_kill, sys_kill), (SYS_exec, sys_exec), (SYS_fstat, sys_fstat),
     (SYS_chdir, sys_chdir), (SYS_dup, sys_dup), (SYS_getpid, sys_getpid), (SYS_sbrk, sys_sbrk),
     (SYS_sleep, sys_sleep), (SYS_uptime, sys_uptime), (SYS_open, sys_open), (SYS_write, sys_write),
     (SYS_mknod, sys_mknod), (SYS_unlink, sys_unlink), (SYS_link, sys_link), (SYS_mkdir, sys_mkdir),
     (SYS_close, sys_close), (SYS_trace, sys_trace), (SYS_sysinfo, sys_sysinfo)] num"

text \<open>\<open>mask & (1 << num)\<close>, and the two lines printed for a traced call.\<close>

definition traced :: "int \<Rightarrow> int \<Rightarrow> bool" where
  "traced msk num \<longleftrightarrow> (of_int msk :: uint32) AND push_bit (nat num) 1 \<noteq> 0"

definition trace_call :: "nat \<Rightarrow> int \<Rightarrow> ('z flstate_scheme, unit) M" where
  "trace_call p num =
     bind (get_proc p p_pid) (\<lambda>pid.
     printf (Some (cstr ''%d: syscall %s -> '')) [Arg_int pid, Arg_str (map_option cstr (map_of syscall_names num))])"

definition trace_ret :: "nat \<Rightarrow> ('z flstate_scheme, unit) M" where
  "trace_ret p =
     bind (get_tf p tf_a0) (\<lambda>a0.
     printf (Some (cstr ''%d'' @ [10])) [Arg_int (sint (ucast a0 :: uint32))])"

definition syscall :: "('z flstate_scheme, unit) M" where
  "syscall =
     bind curproc (\<lambda>p.
     bind (get_tf p tf_a7) (\<lambda>a7.
     bind (return (sint (ucast a7 :: uint32))) (\<lambda>num.
     case (if 0 < num \<and> num < 24 then syscalls num else None) of
       Some call \<Rightarrow>
         if num = SYS_trace then
           bind (argint 0) (\<lambda>r. case r of
             None \<Rightarrow> upd_tf p (\<lambda>t. t\<lparr>tf_a0 := - 1\<rparr>)
           | Some msk \<Rightarrow>
               bind (whenM (traced msk SYS_trace) (trace_call p num)) (\<lambda>_.
               bind call (\<lambda>r.
               bind (upd_tf p (\<lambda>t. t\<lparr>tf_a0 := r\<rparr>)) (\<lambda>_.
               whenM (traced msk SYS_trace) (trace_ret p)))))
         else
           bind (get_proc p p_trace_mask) (\<lambda>msk.
           bind (whenM (traced msk num) (trace_call p num)) (\<lambda>_.
           bind call (\<lambda>r.
           bind (upd_tf p (\<lambda>t. t\<lparr>tf_a0 := r\<rparr>)) (\<lambda>_.
           bind (get_proc p p_trace_mask) (\<lambda>msk.
           whenM (traced msk num) (trace_ret p))))))
     | None \<Rightarrow>
         bind (get_proc p id) (\<lambda>q.
         bind (printf (Some (cstr ''%d %s: unknown sys call %d'' @ [10]))
           [Arg_int (p_pid q), Arg_str (Some (takeWhile (\<lambda>c. c \<noteq> 0) (p_name q))), Arg_int num]) (\<lambda>_.
         upd_tf p (\<lambda>t. t\<lparr>tf_a0 := - 1\<rparr>))))))"

subsection \<open>The interrupt controller\<close>

definition plic_write :: "uint64 \<Rightarrow> uint32 \<Rightarrow> ('z tstate_scheme, unit) M" where
  "plic_write a v = modify (\<lambda>s. s\<lparr>plic_regs := (plic_regs s)(a := v)\<rparr>)"

definition plicinit :: "('z tstate_scheme, unit) M" where
  "plicinit =
     bind (plic_write (PLIC + ucast UART0_IRQ * 4) 1) (\<lambda>_.
     plic_write (PLIC + ucast VIRTIO0_IRQ * 4) 1)"

definition plicinithart :: "('z tstate_scheme, unit) M" where
  "plicinithart =
     bind cpuid (\<lambda>hart.
     bind (plic_write (PLIC_SENABLE (of_nat hart)) (push_bit (unat UART0_IRQ) 1 OR push_bit (unat VIRTIO0_IRQ) 1)) (\<lambda>_.
     plic_write (PLIC_SPRIORITY (of_nat hart)) 0))"

definition plic_claim :: "('z tstate_scheme, int) M" where
  "plic_claim =
     bind cpuid (\<lambda>hart.
     gets (\<lambda>s. sint (plic_regs s (PLIC_SCLAIM (of_nat hart)))))"

definition plic_complete :: "int \<Rightarrow> ('z tstate_scheme, unit) M" where
  "plic_complete irq =
     bind cpuid (\<lambda>hart.
     plic_write (PLIC_SCLAIM (of_nat hart)) (of_int irq))"

subsection \<open>Traps\<close>

definition trapinit :: "('z tstate_scheme, unit) M" where
  "trapinit = initlock Tickslock ''time''"

definition trapinithart :: "('z tstate_scheme, unit) M" where
  "trapinithart = bind (gets kernelvec_addr) (\<lambda>a. upd_hart (w_stvec a))"

definition clockintr :: "('z pstate_scheme, unit) M" where
  "clockintr =
     bind (acquire Tickslock) (\<lambda>_.
     bind (modify (\<lambda>s. s\<lparr>ticks := ticks s + 1\<rparr>)) (\<lambda>_.
     bind (wakeup (Some Chan_ticks)) (\<lambda>_.
     release Tickslock)))"

definition devintr :: "('z tstate_scheme, int) M" where
  "devintr =
     bind (gets (\<lambda>s. r_scause (this_hart s))) (\<lambda>scause.
     if scause AND 0x8000000000000000 \<noteq> 0 \<and> scause AND 0xff = 9 then
       bind plic_claim (\<lambda>irq.
       bind (if irq = uint UART0_IRQ then uartintr
         else if irq = uint VIRTIO0_IRQ then virtio_disk_intr
         else whenM (irq \<noteq> 0) (printf (Some (cstr ''unexpected interrupt irq=%d'' @ [10])) [Arg_int irq])) (\<lambda>_.
       bind (whenM (irq \<noteq> 0) (plic_complete irq)) (\<lambda>_.
       return 1)))
     else if scause = 0x8000000000000001 then
       bind cpuid (\<lambda>id.
       bind (whenM (id = 0) clockintr) (\<lambda>_.
       bind (upd_hart (\<lambda>h. w_sip (r_sip h AND NOT 2) h)) (\<lambda>_.
       return 2)))
     else return 0)"

definition usertrapret :: "('z tstate_scheme, unit) M" where
  "usertrapret =
     bind curproc (\<lambda>p.
     bind (upd_hart intr_off) (\<lambda>_.
     bind (gets id) (\<lambda>s.
     bind (upd_hart (w_stvec (TRAMPOLINE + (uservec_addr s - trampoline s)))) (\<lambda>_.
     bind (gets this_hart) (\<lambda>h.
     bind (upd_tf p (\<lambda>t. t\<lparr>tf_kernel_satp := r_satp h\<rparr>)) (\<lambda>_.
     bind (get_proc p p_kstack) (\<lambda>ks.
     bind (upd_tf p (\<lambda>t. t\<lparr>tf_kernel_sp := ks + PGSIZE, tf_kernel_trap := usertrap_addr s,
        tf_kernel_hartid := r_tp h\<rparr>)) (\<lambda>_.
     bind (upd_hart (\<lambda>h. w_sstatus ((r_sstatus h AND NOT SSTATUS_SPP) OR SSTATUS_SPIE) h)) (\<lambda>_.
     bind (get_tf p tf_epc) (\<lambda>epc.
     bind (upd_hart (w_sepc epc)) (\<lambda>_.
     bind (get_proc p p_pagetable) (\<lambda>pt.
     bind (modify (\<lambda>s. s\<lparr>user_jump :=
       Some (TRAMPOLINE + (userret_addr s - trampoline s), TRAPFRAME, MAKE_SATP pt)\<rparr>)) (\<lambda>_.
     noreturn)))))))))))))"

definition forkret :: "('z tstate_scheme, unit) M" where
  "forkret =
     bind curproc (\<lambda>p.
     bind (release (Proc_lock p)) (\<lambda>_.
     bind (gets forkret_first) (\<lambda>first.
     bind (whenM (first \<noteq> 0)
       (bind (modify (\<lambda>s. s\<lparr>forkret_first := 0\<rparr>)) (\<lambda>_.
        fsinit (int ROOTDEV)))) (\<lambda>_.
     usertrapret))))"

definition unexpected_trap :: "nat \<Rightarrow> ('z tstate_scheme, unit) M" where
  "unexpected_trap p =
     bind (get_proc p p_pid) (\<lambda>pid.
     bind (gets this_hart) (\<lambda>h.
     bind (printf (Some (cstr ''usertrap(): unexpected scause %p pid=%d'' @ [10]))
       [Arg_ptr (r_scause h), Arg_int pid]) (\<lambda>_.
     bind (gets this_hart) (\<lambda>h.
     bind (printf (Some (cstr ''            sepc=%p stval=%p'' @ [10]))
       [Arg_ptr (r_sepc h), Arg_ptr (r_stval h)]) (\<lambda>_.
     upd_proc p (\<lambda>q. q\<lparr>p_killed := 1\<rparr>))))))"

definition usertrap :: "('z tstate_scheme, unit) M" where
  "usertrap =
     bind (gets this_hart) (\<lambda>h.
     if r_sstatus h AND SSTATUS_SPP \<noteq> 0 then panic ''usertrap: not from user mode'' else
     bind (gets kernelvec_addr) (\<lambda>kv.
     bind (upd_hart (w_stvec kv)) (\<lambda>_.
     bind curproc (\<lambda>p.
     bind (gets this_hart) (\<lambda>h.
     bind (upd_tf p (\<lambda>t. t\<lparr>tf_epc := r_sepc h\<rparr>)) (\<lambda>_.
     bind (if r_scause h = 8 then
         bind (get_proc p p_killed) (\<lambda>killed.
         bind (whenM (killed \<noteq> 0) (exit (- 1))) (\<lambda>_.
         bind (upd_tf p (\<lambda>t. t\<lparr>tf_epc := tf_epc t + 4\<rparr>)) (\<lambda>_.
         bind (upd_hart intr_on) (\<lambda>_.
         bind syscall (\<lambda>_.
         return 0)))))
       else
         bind devintr (\<lambda>which_dev.
         bind (whenM (which_dev = 0) (unexpected_trap p)) (\<lambda>_.
         return which_dev))) (\<lambda>which_dev.
     bind (get_proc p p_killed) (\<lambda>killed.
     bind (whenM (killed \<noteq> 0) (exit (- 1))) (\<lambda>_.
     bind (whenM (which_dev = 2) yield) (\<lambda>_.
     usertrapret))))))))))"

definition kerneltrap :: "('z tstate_scheme, unit) M" where
  "kerneltrap =
     bind (gets this_hart) (\<lambda>h.
     if r_sstatus h AND SSTATUS_SPP = 0 then panic ''kerneltrap: not from supervisor mode'' else
     if intr_get h then panic ''kerneltrap: interrupts enabled'' else
     bind devintr (\<lambda>which_dev.
     bind (if which_dev = 0 then
         bind (printf (Some (cstr ''scause %p'' @ [10])) [Arg_ptr (r_scause h)]) (\<lambda>_.
         bind (gets this_hart) (\<lambda>h'.
         bind (printf (Some (cstr ''sepc=%p stval=%p'' @ [10])) [Arg_ptr (r_sepc h'), Arg_ptr (r_stval h')]) (\<lambda>_.
         panic ''kerneltrap'')))
       else return ()) (\<lambda>_.
     bind (if which_dev = 2 then
         bind myproc (\<lambda>me.
         if me = None then return False
         else bind curproc (\<lambda>p. get_proc p (\<lambda>q. p_state q = RUNNING)))
       else return False) (\<lambda>preempt.
     bind (whenM preempt yield) (\<lambda>_.
     bind (upd_hart (w_sepc (r_sepc h))) (\<lambda>_.
     upd_hart (w_sstatus (r_sstatus h))))))))"

end
