(* ===== verification/Boot.thy ===== *)
theory Boot
  imports Trap
begin

unbundle bit_operations_syntax

section \<open>Start-up: \<open>kernel/start.c\<close>, \<open>kernel/main.c\<close>\<close>

text \<open>
  What every hart runs after \<open>entry.S\<close>: \<open>start()\<close> in machine mode, which ends with the
  \<open>mret\<close> to \<open>main()\<close>, and \<open>main()\<close>, which ends in the scheduler. The registers of the CLINT
  timer are cells; \<open>timer_scratch\<close> is the area of \<open>timervec\<close>.
\<close>

record bstate = tstate +
  started :: int
  clint :: "uint64 \<Rightarrow> uint64"
  timer_scratch :: "nat \<Rightarrow> nat \<Rightarrow> uint64"
  timer_scratch_addr :: uint64
  timervec_addr :: uint64
  main_addr :: uint64

definition timerinit :: "('z bstate_scheme, unit) M" where
  "timerinit =
     bind (gets (\<lambda>s. r_mhartid (this_hart s))) (\<lambda>id.
     bind (return 1000000) (\<lambda>interval.
     bind (modify (\<lambda>s. s\<lparr>clint := (clint s)(CLINT_MTIMECMP id := clint s CLINT_MTIME + interval)\<rparr>)) (\<lambda>_.
     bind (modify (\<lambda>s. s\<lparr>timer_scratch := (timer_scratch s)(unat id :=
       (timer_scratch s (unat id))(3 := CLINT_MTIMECMP id, 4 := interval))\<rparr>)) (\<lambda>_.
     bind (gets (\<lambda>s. timer_scratch_addr s + id * 40)) (\<lambda>scratch.
     bind (upd_hart (w_mscratch scratch)) (\<lambda>_.
     bind (gets timervec_addr) (\<lambda>tv.
     bind (upd_hart (w_mtvec tv)) (\<lambda>_.
     bind (upd_hart (\<lambda>h. w_mstatus (r_mstatus h OR MSTATUS_MIE) h)) (\<lambda>_.
     upd_hart (\<lambda>h. w_mie (r_mie h OR MIE_MTIE) h))))))))))"

definition start :: "('z bstate_scheme, unit) M" where
  "start =
     bind (upd_hart (\<lambda>h. w_mstatus ((r_mstatus h AND NOT MSTATUS_MPP_MASK) OR MSTATUS_MPP_S) h)) (\<lambda>_.
     bind (gets main_addr) (\<lambda>m.
     bind (upd_hart (w_mepc m)) (\<lambda>_.
     bind (upd_hart (w_satp 0)) (\<lambda>_.
     bind (upd_hart (w_medeleg 0xffff)) (\<lambda>_.
     bind (upd_hart (w_mideleg 0xffff)) (\<lambda>_.
     bind (upd_hart (\<lambda>h. w_sie (r_sie h OR SIE_SEIE OR SIE_STIE OR SIE_SSIE) h)) (\<lambda>_.
     bind (upd_hart (w_pmpaddr0 0x3fffffffffffff)) (\<lambda>_.
     bind (upd_hart (w_pmpcfg0 0xf)) (\<lambda>_.
     bind timerinit (\<lambda>_.
     upd_hart (\<lambda>h. w_tp (scast (ucast (r_mhartid h) :: uint32)) h)))))))))))"

text \<open>The boot hart initializes the kernel, the others wait for it.\<close>

definition main_init :: "('z bstate_scheme, unit) M" where
  "main_init =
     bind cpuid (\<lambda>id.
     if id = 0 then
       bind consoleinit (\<lambda>_.
       bind printfinit (\<lambda>_.
       bind (printf (Some [10]) []) (\<lambda>_.
       bind (printf (Some (cstr ''xv6 kernel is booting'' @ [10])) []) (\<lambda>_.
       bind (printf (Some [10]) []) (\<lambda>_.
       bind kinit (\<lambda>_.
       bind kvminit (\<lambda>_.
       bind kvminithart (\<lambda>_.
       bind procinit (\<lambda>_.
       bind trapinit (\<lambda>_.
       bind trapinithart (\<lambda>_.
       bind plicinit (\<lambda>_.
       bind plicinithart (\<lambda>_.
       bind binit (\<lambda>_.
       bind iinit (\<lambda>_.
       bind fileinit (\<lambda>_.
       bind virtio_disk_init (\<lambda>_.
       bind userinit (\<lambda>_.
       modify (\<lambda>s. s\<lparr>started := 1\<rparr>)))))))))))))))))))
     else
       bind (while_sleep
         (bind (gets started) (\<lambda>st.
          if st = 0 then bind await (\<lambda>_. return None) else return (Some ())))) (\<lambda>_.
       bind cpuid (\<lambda>id.
       bind (printf (Some (cstr ''hart %d starting'' @ [10])) [Arg_int (int id)]) (\<lambda>_.
       bind kvminithart (\<lambda>_.
       bind trapinithart (\<lambda>_.
       plicinithart))))))"

definition main :: "nat \<Rightarrow> ('z bstate_scheme, unit) M" where
  "main rounds = bind main_init (\<lambda>_. scheduler rounds)"

end
