(* ===== verification/Asm.thy ===== *)
theory Asm
  imports Riscv Kstring
begin

section \<open>The assembly code: \<open>kernel/trampoline.S\<close>, \<open>kernelvec.S\<close>, \<open>swtch.S\<close>, \<open>entry.S\<close>\<close>

text \<open>
  The instructions the kernel's assembly files use, their effect on registers, control
  registers and memory, and the routines as lists of instructions. Memory is reached
  through the address translation that \<open>satp\<close> selects. A routine is straight-line code up
  to its last instruction, which sets \<open>target\<close>, where control goes. What is called from
  assembly code, and where the linker puts a symbol, are parameters.
\<close>

datatype reg = Ra | Sp | Gp | Tp | T0 | T1 | T2 | S0 | S1 | A0 | A1 | A2 | A3 | A4 | A5 | A6 | A7
  | S2 | S3 | S4 | S5 | S6 | S7 | S8 | S9 | S10 | S11 | T3 | T4 | T5 | T6

datatype csr = Sscratch | Satp | Sepc | Sip | Mscratch | Mepc | Mhartid

datatype instr =
    Sd reg nat reg
  | Ld reg nat reg
  | Csrrw reg csr reg
  | Csrr reg csr
  | Csrw csr reg
  | Addi reg reg int
  | Add reg reg reg
  | Mul reg reg reg
  | Li reg int
  | La reg string
  | Call string
  | Sfence_vma
  | Jr reg
  | Ret_ra
  | Sret
  | Mret

record astate =
  regs :: "reg \<Rightarrow> uint64"
  csrs :: "csr \<Rightarrow> uint64"
  amem :: memory
  xlate :: "uint64 \<Rightarrow> uint64 \<Rightarrow> uint64"
  target :: "uint64 option"

definition set_reg :: "reg \<Rightarrow> uint64 \<Rightarrow> astate \<Rightarrow> astate" where
  "set_reg r v s = s\<lparr>regs := (regs s)(r := v)\<rparr>"

definition set_csr :: "csr \<Rightarrow> uint64 \<Rightarrow> astate \<Rightarrow> astate" where
  "set_csr c v s = s\<lparr>csrs := (csrs s)(c := v)\<rparr>"

definition phys :: "astate \<Rightarrow> uint64 \<Rightarrow> uint64" where
  "phys s a = xlate s (csrs s Satp) a"

fun step :: "(string \<Rightarrow> uint64) \<Rightarrow> (string \<Rightarrow> astate \<Rightarrow> astate) \<Rightarrow> instr \<Rightarrow> astate \<Rightarrow> astate" where
  "step lab fn (Sd r off b) s = s\<lparr>amem := store64 (phys s (regs s b + of_nat off)) (regs s r) (amem s)\<rparr>"
| "step lab fn (Ld r off b) s = set_reg r (load64 (amem s) (phys s (regs s b + of_nat off))) s"
| "step lab fn (Csrrw rd c rs) s = set_reg rd (csrs s c) (set_csr c (regs s rs) s)"
| "step lab fn (Csrr rd c) s = set_reg rd (csrs s c) s"
| "step lab fn (Csrw c rs) s = set_csr c (regs s rs) s"
| "step lab fn (Addi rd rs i) s = set_reg rd (regs s rs + of_int i) s"
| "step lab fn (Add rd r1 r2) s = set_reg rd (regs s r1 + regs s r2) s"
| "step lab fn (Mul rd r1 r2) s = set_reg rd (regs s r1 * regs s r2) s"
| "step lab fn (Li rd i) s = set_reg rd (of_int i) s"
| "step lab fn (La rd l) s = set_reg rd (lab l) s"
| "step lab fn (Call l) s = fn l s"
| "step lab fn Sfence_vma s = s"
| "step lab fn (Jr r) s = s\<lparr>target := Some (regs s r)\<rparr>"
| "step lab fn Ret_ra s = s\<lparr>target := Some (regs s Ra)\<rparr>"
| "step lab fn Sret s = s\<lparr>target := Some (csrs s Sepc)\<rparr>"
| "step lab fn Mret s = s\<lparr>target := Some (csrs s Mepc)\<rparr>"

definition run :: "(string \<Rightarrow> uint64) \<Rightarrow> (string \<Rightarrow> astate \<Rightarrow> astate) \<Rightarrow> instr list \<Rightarrow> astate \<Rightarrow> astate" where
  "run lab fn code s = fold (step lab fn) code s"

definition uservec_code :: "instr list" where
  "uservec_code = [
     Csrrw A0 Sscratch A0, Sd Ra 40 A0, Sd Sp 48 A0, Sd Gp 56 A0, Sd Tp 64 A0, Sd T0 72 A0,
     Sd T1 80 A0, Sd T2 88 A0, Sd S0 96 A0, Sd S1 104 A0, Sd A1 120 A0, Sd A2 128 A0, Sd A3 136 A0,
     Sd A4 144 A0, Sd A5 152 A0, Sd A6 160 A0, Sd A7 168 A0, Sd S2 176 A0, Sd S3 184 A0,
     Sd S4 192 A0, Sd S5 200 A0, Sd S6 208 A0, Sd S7 216 A0, Sd S8 224 A0, Sd S9 232 A0,
     Sd S10 240 A0, Sd S11 248 A0, Sd T3 256 A0, Sd T4 264 A0, Sd T5 272 A0, Sd T6 280 A0,
     Csrr T0 Sscratch, Sd T0 112 A0, Ld Sp 8 A0, Ld Tp 32 A0, Ld T0 16 A0, Ld T1 0 A0,
     Csrw Satp T1, Sfence_vma, Jr T0]"

definition userret_code :: "instr list" where
  "userret_code = [
     Csrw Satp A1, Sfence_vma, Ld T0 112 A0, Csrw Sscratch T0, Ld Ra 40 A0, Ld Sp 48 A0,
     Ld Gp 56 A0, Ld Tp 64 A0, Ld T0 72 A0, Ld T1 80 A0, Ld T2 88 A0, Ld S0 96 A0, Ld S1 104 A0,
     Ld A1 120 A0, Ld A2 128 A0, Ld A3 136 A0, Ld A4 144 A0, Ld A5 152 A0, Ld A6 160 A0,
     Ld A7 168 A0, Ld S2 176 A0, Ld S3 184 A0, Ld S4 192 A0, Ld S5 200 A0, Ld S6 208 A0,
     Ld S7 216 A0, Ld S8 224 A0, Ld S9 232 A0, Ld S10 240 A0, Ld S11 248 A0, Ld T3 256 A0,
     Ld T4 264 A0, Ld T5 272 A0, Ld T6 280 A0, Csrrw A0 Sscratch A0, Sret]"

definition kernelvec_code :: "instr list" where
  "kernelvec_code = [
     Addi Sp Sp (-256), Sd Ra 0 Sp, Sd Sp 8 Sp, Sd Gp 16 Sp, Sd Tp 24 Sp, Sd T0 32 Sp, Sd T1 40 Sp,
     Sd T2 48 Sp, Sd S0 56 Sp, Sd S1 64 Sp, Sd A0 72 Sp, Sd A1 80 Sp, Sd A2 88 Sp, Sd A3 96 Sp,
     Sd A4 104 Sp, Sd A5 112 Sp, Sd A6 120 Sp, Sd A7 128 Sp, Sd S2 136 Sp, Sd S3 144 Sp,
     Sd S4 152 Sp, Sd S5 160 Sp, Sd S6 168 Sp, Sd S7 176 Sp, Sd S8 184 Sp, Sd S9 192 Sp,
     Sd S10 200 Sp, Sd S11 208 Sp, Sd T3 216 Sp, Sd T4 224 Sp, Sd T5 232 Sp, Sd T6 240 Sp,
     Call ''kerneltrap'', Ld Ra 0 Sp, Ld Sp 8 Sp, Ld Gp 16 Sp, Ld T0 32 Sp, Ld T1 40 Sp,
     Ld T2 48 Sp, Ld S0 56 Sp, Ld S1 64 Sp, Ld A0 72 Sp, Ld A1 80 Sp, Ld A2 88 Sp, Ld A3 96 Sp,
     Ld A4 104 Sp, Ld A5 112 Sp, Ld A6 120 Sp, Ld A7 128 Sp, Ld S2 136 Sp, Ld S3 144 Sp,
     Ld S4 152 Sp, Ld S5 160 Sp, Ld S6 168 Sp, Ld S7 176 Sp, Ld S8 184 Sp, Ld S9 192 Sp,
     Ld S10 200 Sp, Ld S11 208 Sp, Ld T3 216 Sp, Ld T4 224 Sp, Ld T5 232 Sp, Ld T6 240 Sp,
     Addi Sp Sp 256, Sret]"

definition timervec_code :: "instr list" where
  "timervec_code = [
     Csrrw A0 Mscratch A0, Sd A1 0 A0, Sd A2 8 A0, Sd A3 16 A0, Ld A1 24 A0, Ld A2 32 A0,
     Ld A3 0 A1, Add A3 A3 A2, Sd A3 0 A1, Li A1 2, Csrw Sip A1, Ld A3 16 A0, Ld A2 8 A0,
     Ld A1 0 A0, Csrrw A0 Mscratch A0, Mret]"

definition swtch_code :: "instr list" where
  "swtch_code = [
     Sd Ra 0 A0, Sd Sp 8 A0, Sd S0 16 A0, Sd S1 24 A0, Sd S2 32 A0, Sd S3 40 A0, Sd S4 48 A0,
     Sd S5 56 A0, Sd S6 64 A0, Sd S7 72 A0, Sd S8 80 A0, Sd S9 88 A0, Sd S10 96 A0, Sd S11 104 A0,
     Ld Ra 0 A1, Ld Sp 8 A1, Ld S0 16 A1, Ld S1 24 A1, Ld S2 32 A1, Ld S3 40 A1, Ld S4 48 A1,
     Ld S5 56 A1, Ld S6 64 A1, Ld S7 72 A1, Ld S8 80 A1, Ld S9 88 A1, Ld S10 96 A1, Ld S11 104 A1,
     Ret_ra]"

definition entry_code :: "instr list" where
  "entry_code = [
     La Sp ''stack0'', Li A0 (1024*4), Csrr A1 Mhartid, Addi A1 A1 1, Mul A0 A0 A1, Add Sp Sp A0,
     Call ''start'']"

subsection \<open>Saving and loading blocks of registers\<close>

abbreviation saves :: "reg \<Rightarrow> (reg \<times> nat) list \<Rightarrow> instr list" where
  "saves b l \<equiv> map (\<lambda>(r, off). Sd r off b) l"

abbreviation loads :: "reg \<Rightarrow> (reg \<times> nat) list \<Rightarrow> instr list" where
  "loads b l \<equiv> map (\<lambda>(r, off). Ld r off b) l"

text \<open>The area of \<open>n\<close> bytes at \<open>base\<close> is reached at \<open>pa\<close>, whatever the page table says elsewhere.\<close>

definition mapped :: "astate \<Rightarrow> uint64 \<Rightarrow> nat \<Rightarrow> uint64 \<Rightarrow> bool" where
  "mapped s base n pa \<longleftrightarrow> n < 2 ^ 12 \<and> (\<forall>off < n. phys s (base + of_nat off) = pa + of_nat off)"

definition slots :: "nat \<Rightarrow> (reg \<times> nat) list \<Rightarrow> bool" where
  "slots n l \<longleftrightarrow> distinct (map snd l) \<and> (\<forall>(r, off) \<in> set l. off mod 8 = 0 \<and> off < n)"

definition put_slots :: "uint64 \<Rightarrow> (reg \<Rightarrow> uint64) \<Rightarrow> (reg \<times> nat) list \<Rightarrow> memory \<Rightarrow> memory" where
  "put_slots pa rs l m = fold (\<lambda>(r, off). store64 (pa + of_nat off) (rs r)) l m"

lemma run_saves:
  assumes "mapped s (regs s b) n pa" "\<forall>(r, off) \<in> set l. off < n"
  shows "run lab fn (saves b l) s = s\<lparr>amem := put_slots pa (regs s) l (amem s)\<rparr>"
  using assms
proof (induction l arbitrary: s)
  case Nil
  then show ?case by (simp add: run_def put_slots_def)
next
  case (Cons x l)
  obtain r off where x: "x = (r, off)" by force
  let ?s = "s\<lparr>amem := store64 (pa + of_nat off) (regs s r) (amem s)\<rparr>"
  have "phys s (regs s b + of_nat off) = pa + of_nat off"
    using Cons.prems x by (simp add: mapped_def)
  then have 1: "step lab fn (Sd r off b) s = ?s" by simp
  have m: "mapped ?s (regs ?s b) n pa" using Cons.prems(1) by (simp add: mapped_def phys_def)
  from Cons.IH [OF m] Cons.prems(2) have
    "run lab fn (saves b l) ?s = ?s\<lparr>amem := put_slots pa (regs s) l (amem ?s)\<rparr>" by simp
  then show ?case using 1 x by (simp add: run_def put_slots_def)
qed

definition get_slots :: "uint64 \<Rightarrow> memory \<Rightarrow> (reg \<times> nat) list \<Rightarrow> (reg \<Rightarrow> uint64) \<Rightarrow> reg \<Rightarrow> uint64" where
  "get_slots pa m l f = fold (\<lambda>(r, off) f. f(r := load64 m (pa + of_nat off))) l f"

lemma run_loads:
  assumes "mapped s (regs s b) n pa" "\<forall>(r, off) \<in> set l. off < n" "b \<notin> fst ` set l"
  shows "run lab fn (loads b l) s = s\<lparr>regs := get_slots pa (amem s) l (regs s)\<rparr>"
  using assms
proof (induction l arbitrary: s)
  case Nil
  then show ?case by (simp add: run_def get_slots_def)
next
  case (Cons x l)
  obtain r off where x: "x = (r, off)" by force
  let ?s = "set_reg r (load64 (amem s) (pa + of_nat off)) s"
  have "phys s (regs s b + of_nat off) = pa + of_nat off"
    using Cons.prems x by (simp add: mapped_def)
  then have 1: "step lab fn (Ld r off b) s = ?s" by simp
  have m: "mapped ?s (regs ?s b) n pa"
    using Cons.prems x by (auto simp: mapped_def phys_def set_reg_def)
  have "run lab fn (loads b l) ?s = ?s\<lparr>regs := get_slots pa (amem ?s) l (regs ?s)\<rparr>"
    by (rule Cons.IH [OF m]) (use Cons.prems in auto)
  moreover have "get_slots pa (amem s) (x # l) (regs s) = get_slots pa (amem ?s) l (regs ?s)"
    by (simp add: get_slots_def x set_reg_def)
  ultimately show ?case using 1 x by (simp add: run_def) (simp add: set_reg_def)
qed

lemma run_append: "run lab fn (c @ d) s = run lab fn d (run lab fn c s)"
  by (simp add: run_def)

lemma run_Cons: "run lab fn (i # c) s = run lab fn c (step lab fn i s)"
  by (simp add: run_def)

lemma run_Nil [simp]: "run lab fn [] s = s"
  by (simp add: run_def)

lemma get_slots_nth:
  "distinct (map fst l) \<Longrightarrow>
     get_slots pa m l f r = (case map_of l r of Some off \<Rightarrow> load64 m (pa + of_nat off) | None \<Rightarrow> f r)"
proof (induction l arbitrary: f)
  case Nil
  then show ?case by (simp add: get_slots_def)
next
  case (Cons x l)
  obtain q off where x: "x = (q, off)" by force
  have "get_slots pa m (x # l) f r = get_slots pa m l (f(q := load64 m (pa + of_nat off))) r"
    by (simp add: get_slots_def x)
  moreover have "map_of l q = None" using Cons.prems x by (simp add: map_of_eq_None_iff)
  ultimately show ?case using Cons x by (auto split: option.split)
qed

lemma unat_neg: "x \<noteq> 0 \<Longrightarrow> unat (- x :: uint64) = 2 ^ 64 - unat x"
  using unat_diff_mod [of 0 x] by (simp add: unat_eq_zero)

lemma aligned_gap: "o1 mod 8 = 0 \<Longrightarrow> o2 mod 8 = 0 \<Longrightarrow> o1 < o2 \<Longrightarrow> \<exists>d \<ge> 8. o2 = o1 + (d :: nat)"
  by (rule exI [of _ "o2 - o1"]) presburger

lemma far_slots:
  assumes "o1 mod 8 = 0" "o2 mod 8 = 0" "o1 < 2 ^ 12" "o2 < 2 ^ 12" "o1 \<noteq> (o2 :: nat)" "k < 8"
  shows "\<not> unat (of_nat o2 + (of_nat k - of_nat o1) :: uint64) < 8"
proof (cases "o1 < o2")
  case True
  obtain d where d: "o2 = o1 + d" "8 \<le> d" using aligned_gap [OF assms(1,2) True] by auto
  have "(of_nat o2 + (of_nat k - of_nat o1) :: uint64) = of_nat (d + k)" using d by simp
  moreover have "unat (of_nat (d + k) :: uint64) = d + k"
    using assms d by (simp add: unat_of_nat take_bit_nat_eq_self del: of_nat_add)
  ultimately show ?thesis using d by simp
next
  case False
  with assms(5) have "o2 < o1" by simp
  then obtain d where d: "o1 = o2 + d" "8 \<le> d" using aligned_gap [OF assms(2,1)] by auto
  have eq: "(of_nat o2 + (of_nat k - of_nat o1) :: uint64) = - of_nat (d - k)"
    using d assms(6) by (simp add: of_nat_diff)
  have u: "unat (of_nat (d - k) :: uint64) = d - k" "0 < d - k" "d - k < 2 ^ 12"
    using assms d by (simp_all add: unat_of_nat take_bit_nat_eq_self del: of_nat_diff)
  then have "(of_nat (d - k) :: uint64) \<noteq> 0" using unat_eq_zero by (metis less_numeral_extra(3) unat_0)
  then have "unat (- of_nat (d - k) :: uint64) = 2 ^ 64 - (d - k)"
    using unat_neg [of "of_nat (d - k)"] u(1) by simp
  then show ?thesis unfolding eq using u by simp
qed

lemma load_store_far:
  assumes "o1 mod 8 = 0" "o2 mod 8 = 0" "o1 < 2 ^ 12" "o2 < 2 ^ 12" "o1 \<noteq> o2"
  shows "load64 (store64 (pa + of_nat o1) v m) (pa + of_nat o2) = load64 m (pa + of_nat o2)"
  by (rule load64_cong) (simp add: store64_def put_bytes_def far_slots [OF assms])

text \<open>Two areas of \<open>n\<close> bytes that do not overlap.\<close>

definition apart :: "nat \<Rightarrow> uint64 \<Rightarrow> uint64 \<Rightarrow> bool" where
  "apart n a b \<longleftrightarrow> n \<le> unat (a - b) \<and> n \<le> unat (b - a)"

lemma apart_far:
  assumes "apart n a b" "n < 2 ^ 12" "o1 + 8 \<le> n" "o2 + k < n"
  shows "\<not> unat (a + of_nat o2 + of_nat k - (b + of_nat o1)) < 8"
proof -
  define d where "d = unat (a - b)"
  have a: "a = b + of_nat d" by (simp add: d_def)
  have "n \<le> d" using assms(1) by (simp add: apart_def d_def)
  have "a - b \<noteq> 0" using \<open>n \<le> d\<close> assms(3) by (auto simp: d_def)
  then have "unat (b - a) = 2 ^ 64 - d" using unat_neg [of "a - b"] by (simp add: d_def)
  then have up: "d + n \<le> 2 ^ 64" using assms(1,3) unfolding apart_def by linarith
  have eq: "a + of_nat o2 + of_nat k - (b + of_nat o1) = of_nat (d + o2 + k - o1)"
    using \<open>n \<le> d\<close> assms(3) by (simp add: a of_nat_diff)
  have u: "unat (of_nat (d + o2 + k - o1) :: uint64) = d + o2 + k - o1"
    using up assms by (simp add: unat_of_nat take_bit_nat_eq_self del: of_nat_diff)
  show ?thesis unfolding eq u using \<open>n \<le> d\<close> assms(3) by simp
qed

lemma load_put_slots_apart:
  assumes "apart n a b" "n < 2 ^ 12" "\<forall>(r, off) \<in> set l. off + 8 \<le> n" "o2 + 8 \<le> n"
  shows "load64 (put_slots b rs l m) (a + of_nat o2) = load64 m (a + of_nat o2)"
  using assms(3)
proof (induction l arbitrary: m)
  case Nil
  then show ?case by (simp add: put_slots_def)
next
  case (Cons x l)
  obtain r o1 where x: "x = (r, o1)" by force
  have "\<not> unat (a + of_nat o2 + of_nat k - (b + of_nat o1)) < 8" if "k < 8" for k
    by (rule apart_far [OF assms(1,2)]) (use Cons.prems x that assms(4) in auto)
  then have "load64 (store64 (b + of_nat o1) (rs r) m) (a + of_nat o2) = load64 m (a + of_nat o2)"
    by (intro load64_cong) (simp add: store64_def put_bytes_def)
  moreover have "put_slots b rs (x # l) m = put_slots b rs l (store64 (b + of_nat o1) (rs r) m)"
    by (simp add: put_slots_def x)
  ultimately show ?case using Cons by simp
qed

lemma load_put_slots_other:
  assumes "slots n l" "n < 2 ^ 12" "off mod 8 = 0" "off < n" "off \<notin> snd ` set l"
  shows "load64 (put_slots pa rs l m) (pa + of_nat off) = load64 m (pa + of_nat off)"
  using assms
proof (induction l arbitrary: m)
  case Nil
  then show ?case by (simp add: put_slots_def)
next
  case (Cons x l)
  obtain r o1 where x: "x = (r, o1)" by force
  have "slots n l" using Cons.prems(1) by (auto simp: slots_def)
  then have "load64 (put_slots pa rs (x # l) m) (pa + of_nat off) = load64 (store64 (pa + of_nat o1) (rs r) m) (pa + of_nat off)"
    using Cons.IH [of "store64 (pa + of_nat o1) (rs r) m"] Cons.prems x by (simp add: put_slots_def)
  also have "\<dots> = load64 m (pa + of_nat off)"
    by (rule load_store_far) (use Cons.prems x in \<open>auto simp: slots_def\<close>)
  finally show ?case .
qed

lemma load_put_slots:
  assumes "slots n l" "n < 2 ^ 12" "(r, off) \<in> set l"
  shows "load64 (put_slots pa rs l m) (pa + of_nat off) = rs r"
  using assms
proof (induction l arbitrary: m)
  case Nil
  then show ?case by simp
next
  case (Cons x l)
  obtain q o1 where x: "x = (q, o1)" by force
  have sl: "slots n l" using Cons.prems(1) by (auto simp: slots_def)
  have eq: "put_slots pa rs (x # l) m = put_slots pa rs l (store64 (pa + of_nat o1) (rs q) m)"
    by (simp add: put_slots_def x)
  show ?case
  proof (cases "(r, off) \<in> set l")
    case True
    with Cons.IH [OF sl Cons.prems(2)] show ?thesis by (simp add: eq)
  next
    case False
    with Cons.prems(3) x have "q = r" "o1 = off" by auto
    moreover have "off \<notin> snd ` set l" "off mod 8 = 0" "off < n"
      using Cons.prems(1) x calculation by (auto simp: slots_def)
    ultimately show ?thesis using load_put_slots_other [OF sl Cons.prems(2)] by (simp add: eq)
  qed
qed

subsection \<open>What the routines do\<close>

definition context_slots :: "(reg \<times> nat) list" where
  "context_slots = [(Ra, 0), (Sp, 8), (S0, 16), (S1, 24), (S2, 32), (S3, 40), (S4, 48), (S5, 56), (S6, 64),
     (S7, 72), (S8, 80), (S9, 88), (S10, 96), (S11, 104)]"

definition user_slots :: "(reg \<times> nat) list" where
  "user_slots = [(Ra, 40), (Sp, 48), (Gp, 56), (Tp, 64), (T0, 72), (T1, 80), (T2, 88), (S0, 96), (S1, 104),
     (A1, 120), (A2, 128), (A3, 136), (A4, 144), (A5, 152), (A6, 160), (A7, 168), (S2, 176), (S3, 184),
     (S4, 192), (S5, 200), (S6, 208), (S7, 216), (S8, 224), (S9, 232), (S10, 240), (S11, 248), (T3, 256),
     (T4, 264), (T5, 272), (T6, 280)]"

lemma slots_context: "slots 112 context_slots" "distinct (map fst context_slots)"
  "A0 \<notin> fst ` set context_slots" "A1 \<notin> fst ` set context_slots" "\<forall>(r, off) \<in> set context_slots. off < 112"
  "\<forall>(r, off) \<in> set context_slots. off + 8 \<le> 112"
  by (simp_all add: slots_def context_slots_def)

lemma slots_user: "slots 288 user_slots" "distinct (map fst user_slots)" "A0 \<notin> fst ` set user_slots"
  "\<forall>(r, off) \<in> set user_slots. off < 288" "112 \<notin> snd ` set user_slots"
  by (simp_all add: slots_def user_slots_def)

lemma user_slots_all: "r = A0 \<or> (\<exists>off. (r, off) \<in> set user_slots)"
  by (cases r) (auto simp: user_slots_def)

lemma swtch_code_eq: "swtch_code = saves A0 context_slots @ loads A1 context_slots @ [Ret_ra]"
  by (simp add: swtch_code_def context_slots_def)

lemma uservec_code_eq:
  "uservec_code = Csrrw A0 Sscratch A0 # saves A0 user_slots @
     [Csrr T0 Sscratch, Sd T0 112 A0, Ld Sp 8 A0, Ld Tp 32 A0, Ld T0 16 A0, Ld T1 0 A0,
      Csrw Satp T1, Sfence_vma, Jr T0]"
  by (simp add: uservec_code_def user_slots_def)

lemma userret_code_eq:
  "userret_code = [Csrw Satp A1, Sfence_vma, Ld T0 112 A0, Csrw Sscratch T0] @ loads A0 user_slots @
     [Csrrw A0 Sscratch A0, Sret]"
  by (simp add: userret_code_def user_slots_def)

lemma get_slots_in:
  "distinct (map fst l) \<Longrightarrow> (r, off) \<in> set l \<Longrightarrow> get_slots pa m l f r = load64 m (pa + of_nat off)"
  by (simp add: get_slots_nth map_of_is_SomeI)

lemma get_slots_out:
  "distinct (map fst l) \<Longrightarrow> r \<notin> fst ` set l \<Longrightarrow> get_slots pa m l f r = f r"
  by (simp add: get_slots_nth map_of_eq_None_iff split: option.split) force

lemma run_swtch:
  assumes "mapped s (regs s A0) 112 old" "mapped s (regs s A1) 112 new"
  shows "run lab fn swtch_code s =
     (let m = put_slots old (regs s) context_slots (amem s);
          f = get_slots new m context_slots (regs s)
      in s\<lparr>amem := m, regs := f, target := Some (f Ra)\<rparr>)"
proof -
  let ?m = "put_slots old (regs s) context_slots (amem s)"
  have 1: "run lab fn (saves A0 context_slots) s = s\<lparr>amem := ?m\<rparr>"
    by (rule run_saves [OF assms(1)]) (rule slots_context(5))
  have m: "mapped (s\<lparr>amem := ?m\<rparr>) (regs (s\<lparr>amem := ?m\<rparr>) A1) 112 new"
    using assms(2) by (simp add: mapped_def phys_def)
  have 2: "run lab fn (loads A1 context_slots) (s\<lparr>amem := ?m\<rparr>) =
      s\<lparr>amem := ?m, regs := get_slots new ?m context_slots (regs s)\<rparr>"
    using run_loads [OF m slots_context(5,4)] by simp
  show ?thesis unfolding swtch_code_eq run_append 1 2 by (simp add: run_Cons Let_def)
qed

text \<open>
  C32. A thread that gives up the cpu with \<open>swtch(old, new)\<close> and is switched back to by a
  later \<open>swtch\<close> from \<open>old\<close>, run by anyone in any state in which its context is still in
  place, goes on behind its call with its return address, stack pointer and all
  callee-saved registers.
\<close>

theorem swtch_resumes:
  assumes "mapped s (regs s A0) 112 old" "mapped s (regs s A1) 112 new"
    and "mapped u (regs u A0) 112 other" "mapped u (regs u A1) 112 old"
    and "apart 112 old other"
    and "\<And>off. off + 8 \<le> 112 \<Longrightarrow>
      load64 (amem u) (old + of_nat off) = load64 (amem (run lab fn swtch_code s)) (old + of_nat off)"
  shows "target (run lab fn swtch_code u) = Some (regs s Ra) \<and>
     (\<forall>r \<in> {Ra, Sp, S0, S1, S2, S3, S4, S5, S6, S7, S8, S9, S10, S11}.
        regs (run lab fn swtch_code u) r = regs s r)"
proof -
  have at: "regs (run lab fn swtch_code u) r = regs s r" if "(r, off) \<in> set context_slots" for r off
  proof -
    have "regs (run lab fn swtch_code u) r =
        load64 (put_slots other (regs u) context_slots (amem u)) (old + of_nat off)"
      using get_slots_in [OF slots_context(2) that]
      by (simp add: run_swtch [OF assms(3,4)] Let_def)
    also have "\<dots> = load64 (amem u) (old + of_nat off)"
      by (rule load_put_slots_apart [OF assms(5)]) (use slots_context(6) that in auto)
    also have "\<dots> = load64 (put_slots old (regs s) context_slots (amem s)) (old + of_nat off)"
      using assms(6) [of off] slots_context(6) that by (auto simp: run_swtch [OF assms(1,2)] Let_def)
    also have "\<dots> = regs s r"
      by (rule load_put_slots [OF slots_context(1) _ that]) simp
    finally show ?thesis .
  qed
  have "\<exists>off. (r, off) \<in> set context_slots"
    if "r \<in> {Ra, Sp, S0, S1, S2, S3, S4, S5, S6, S7, S8, S9, S10, S11}" for r
    using that by (auto simp: context_slots_def)
  with at have all: "\<forall>r \<in> {Ra, Sp, S0, S1, S2, S3, S4, S5, S6, S7, S8, S9, S10, S11}.
      regs (run lab fn swtch_code u) r = regs s r" by metis
  moreover have "target (run lab fn swtch_code u) = Some (regs (run lab fn swtch_code u) Ra)"
    by (simp add: run_swtch [OF assms(3,4)] Let_def)
  ultimately show ?thesis by simp
qed

definition astate0 :: astate where
  "astate0 = \<lparr>regs = (\<lambda>_. 0)(A0 := 0x1000, A1 := 0x2000, Ra := 0x80001234, S0 := 9), csrs = (\<lambda>_. 0),
     amem = (\<lambda>_. 0), xlate = (\<lambda>_ a. a), target = None\<rparr>"

lemma mapped0:
  "xlate s = (\<lambda>_ a. a) \<Longrightarrow> n < 2 ^ 12 \<Longrightarrow> mapped s a n a"
  by (simp add: mapped_def phys_def)

theorem swtch_resumes_witness:
  "let t = run (\<lambda>_. 0) (\<lambda>_ s. s) swtch_code astate0;
       u = astate0\<lparr>regs := (\<lambda>_. 3)(A0 := 0x2000, A1 := 0x1000), amem := amem t\<rparr>
   in target (run (\<lambda>_. 0) (\<lambda>_ s. s) swtch_code u) = Some 0x80001234 \<and>
      regs (run (\<lambda>_. 0) (\<lambda>_ s. s) swtch_code u) S0 = 9"
proof -
  define t where "t = run (\<lambda>_. 0) (\<lambda>_ s. s) swtch_code astate0"
  define u where "u = astate0\<lparr>regs := (\<lambda>_. 3)(A0 := 0x2000, A1 := 0x1000), amem := amem t\<rparr>"
  have r: "regs astate0 A0 = 0x1000" "regs astate0 A1 = 0x2000" "regs u A0 = 0x2000" "regs u A1 = 0x1000"
    "regs astate0 Ra = 0x80001234" "regs astate0 S0 = 9" "amem u = amem t"
    by (simp_all add: u_def astate0_def)
  have m: "mapped astate0 a 112 a" "mapped u a 112 a" for a
    by (rule mapped0; simp add: u_def astate0_def)+
  have "apart 112 0x1000 0x2000" by (simp add: apart_def)
  from swtch_resumes [where s = astate0 and u = u, unfolded r, OF m(1) m(1) m(2) m(2) this, folded t_def]
  show ?thesis unfolding Let_def t_def [symmetric] u_def [symmetric] by (simp add: r t_def)
qed

lemma put_slots_cong:
  "\<forall>(r, off) \<in> set l. rs r = rs' r \<Longrightarrow> put_slots pa rs l m = put_slots pa rs' l m"
  by (induction l arbitrary: m) (auto simp: put_slots_def)

definition trap_mem :: "uint64 \<Rightarrow> (reg \<Rightarrow> uint64) \<Rightarrow> memory \<Rightarrow> memory" where
  "trap_mem pa rs m = store64 (pa + 112) (rs A0) (put_slots pa rs user_slots m)"

lemma load_trap_mem:
  assumes "off mod 8 = 0" "off < 288"
  shows "load64 (trap_mem pa rs m) (pa + of_nat off) =
     (if off = 112 then rs A0 else load64 (put_slots pa rs user_slots m) (pa + of_nat off))"
proof (cases "off = 112")
  case False
  then show ?thesis
    using load_store_far [of 112 off pa "rs A0"] assms by (simp add: trap_mem_def)
qed (simp add: trap_mem_def)

lemma load_trap_kernel:
  assumes "off mod 8 = 0" "off < 40"
  shows "load64 (trap_mem pa rs m) (pa + of_nat off) = load64 m (pa + of_nat off)"
proof -
  have "off \<notin> snd ` set user_slots" using assms(2) by (auto simp: user_slots_def)
  then have "load64 (put_slots pa rs user_slots m) (pa + of_nat off) = load64 m (pa + of_nat off)"
    using assms by (intro load_put_slots_other [OF slots_user(1)]) auto
  with assms show ?thesis by (simp add: load_trap_mem)
qed

lemma run_uservec:
  assumes "mapped s (csrs s Sscratch) 288 pa"
  defines "m \<equiv> trap_mem pa (regs s) (amem s)"
  shows "run lab fn uservec_code s = s\<lparr>amem := m,
     regs := (regs s)(A0 := csrs s Sscratch, Sp := load64 m (pa + 8), Tp := load64 m (pa + 32),
       T0 := load64 m (pa + 16), T1 := load64 m pa),
     csrs := (csrs s)(Sscratch := regs s A0, Satp := load64 m pa), target := Some (load64 m (pa + 16))\<rparr>"
proof -
  define s1 where "s1 = step lab fn (Csrrw A0 Sscratch A0) s"
  have s1: "s1 = s\<lparr>regs := (regs s)(A0 := csrs s Sscratch), csrs := (csrs s)(Sscratch := regs s A0)\<rparr>"
    by (simp add: s1_def set_reg_def set_csr_def)
  have ph: "phys s1 a = phys s a" for a by (simp add: s1 phys_def)
  have map1: "mapped s1 (regs s1 A0) 288 pa" using assms(1) by (simp add: mapped_def ph) (simp add: s1)
  have at: "phys s (csrs s Sscratch + of_nat off) = pa + of_nat off" if "off < 288" for off
    using assms(1) that by (simp add: mapped_def)
  have ps: "put_slots pa (regs s1) user_slots (amem s) = put_slots pa (regs s) user_slots (amem s)"
    by (rule put_slots_cong) (use slots_user(3) in \<open>auto simp: s1 image_iff\<close>)
  have 2: "run lab fn (saves A0 user_slots) s1 = s1\<lparr>amem := put_slots pa (regs s) user_slots (amem s)\<rparr>"
    using run_saves [OF map1 slots_user(4)] ps by (simp add: s1)
  show ?thesis
    unfolding uservec_code_eq run_Cons run_append s1_def [symmetric] 2
    using at [of 112] at [of 8] at [of 32] at [of 16] at [of 0]
    by (simp add: run_Cons s1 set_reg_def set_csr_def phys_def m_def trap_mem_def)
qed

lemma run_userret:
  assumes "mapped (set_csr Satp (regs u A1) u) (regs u A0) 288 pa"
  shows "run lab fn userret_code u = u\<lparr>
     regs := (get_slots pa (amem u) user_slots (regs u))(A0 := load64 (amem u) (pa + 112)),
     csrs := (csrs u)(Satp := regs u A1, Sscratch := regs u A0), target := Some (csrs u Sepc)\<rparr>"
proof -
  define v where "v = run lab fn [Csrw Satp A1, Sfence_vma, Ld T0 112 A0, Csrw Sscratch T0] u"
  have "phys (set_csr Satp (regs u A1) u) (regs u A0 + of_nat off) = pa + of_nat off" if "off < 288" for off
    using assms that by (simp add: mapped_def)
  from this [of 112] have at: "phys (set_csr Satp (regs u A1) u) (regs u A0 + 112) = pa + 112" by simp
  have v: "v = u\<lparr>regs := (regs u)(T0 := load64 (amem u) (pa + 112)),
      csrs := (csrs u)(Satp := regs u A1, Sscratch := load64 (amem u) (pa + 112))\<rparr>"
    unfolding v_def run_Cons using at by (simp add: set_reg_def set_csr_def)
  have "phys v a = phys (set_csr Satp (regs u A1) u) a" for a by (simp add: v phys_def set_csr_def)
  with assms have map: "mapped v (regs v A0) 288 pa" by (simp add: mapped_def) (simp add: v)
  have l: "run lab fn (loads A0 user_slots) v = v\<lparr>regs := get_slots pa (amem u) user_slots (regs v)\<rparr>"
    using run_loads [OF map slots_user(4,3)] by (simp add: v)
  have t0: "map_of user_slots T0 = Some 72" by (simp add: user_slots_def)
  have g: "get_slots pa (amem u) user_slots (regs v) = get_slots pa (amem u) user_slots (regs u)"
    by (rule ext) (auto simp: get_slots_nth [OF slots_user(2)] v t0 split: option.split)
  have a0: "get_slots pa (amem u) user_slots (regs u) A0 = regs u A0"
    by (rule get_slots_out [OF slots_user(2,3)])
  show ?thesis
    unfolding userret_code_eq run_append v_def [symmetric] l g
    by (simp add: run_Cons set_reg_def set_csr_def a0) (simp add: v)
qed

text \<open>
  C31. A trap from user space and the return from it. \<open>uservec\<close> enters \<open>usertrap\<close> on the
  process's kernel stack, with its hart number and the kernel page table, all taken from
  the trapframe. When \<open>userret\<close> later finds the trapframe as \<open>uservec\<close> left it, the saved
  \<open>a0\<close> apart, the user program goes on with every register as it was before the trap,
  \<open>a0\<close> with what the kernel put into the trapframe, and \<open>sscratch\<close> is ready for the
  next trap.
\<close>

theorem trap_roundtrip:
  fixes s u :: astate and lab :: "string \<Rightarrow> uint64" and fn :: "string \<Rightarrow> astate \<Rightarrow> astate" and pa :: uint64
  assumes "mapped s (csrs s Sscratch) 288 pa"
  defines "t \<equiv> run lab fn uservec_code s"
  assumes "mapped (set_csr Satp (regs u A1) u) (regs u A0) 288 pa"
    and "\<And>off. 40 \<le> off \<Longrightarrow> off + 8 \<le> 288 \<Longrightarrow> off \<noteq> 112 \<Longrightarrow>
      load64 (amem u) (pa + of_nat off) = load64 (amem t) (pa + of_nat off)"
  shows "target t = Some (load64 (amem s) (pa + 16)) \<and> regs t Sp = load64 (amem s) (pa + 8) \<and>
     regs t Tp = load64 (amem s) (pa + 32) \<and> csrs t Satp = load64 (amem s) pa \<and>
     load64 (amem t) (pa + 112) = regs s A0 \<and>
     regs (run lab fn userret_code u) = (regs s)(A0 := load64 (amem u) (pa + 112)) \<and>
     csrs (run lab fn userret_code u) Sscratch = regs u A0 \<and>
     csrs (run lab fn userret_code u) Satp = regs u A1 \<and>
     target (run lab fn userret_code u) = Some (csrs u Sepc)"
proof -
  note t = run_uservec [OF assms(1), of lab fn, folded t_def]
  note ret = run_userret [OF assms(3), of lab fn]
  have k: "load64 (amem t) (pa + of_nat off) = load64 (amem s) (pa + of_nat off)"
    if "off mod 8 = 0" "off < 40" for off
    using load_trap_kernel [OF that] by (simp add: t)
  have a0: "load64 (amem t) (pa + 112) = regs s A0"
    using load_trap_mem [of 112 pa "regs s" "amem s"] by (simp add: t)
  have "get_slots pa (amem u) user_slots (regs u) r = regs s r" if "(r, off) \<in> set user_slots" for r off
  proof -
    have off: "40 \<le> off" "off + 8 \<le> 288" "off \<noteq> 112" "off mod 8 = 0"
      using that by (auto simp: user_slots_def)
    have "get_slots pa (amem u) user_slots (regs u) r = load64 (amem t) (pa + of_nat off)"
      using get_slots_in [OF slots_user(2) that] assms(4) [OF off(1-3)] by simp
    also have "\<dots> = load64 (put_slots pa (regs s) user_slots (amem s)) (pa + of_nat off)"
      using load_trap_mem [OF off(4)] off by (simp add: t)
    also have "\<dots> = regs s r" by (rule load_put_slots [OF slots_user(1) _ that]) simp
    finally show ?thesis .
  qed
  then have regs: "regs (run lab fn userret_code u) = (regs s)(A0 := load64 (amem u) (pa + 112))"
    using user_slots_all by (fastforce simp: ret)
  show ?thesis
    using k [of 16] k [of 8] k [of 32] k [of 0] a0 regs by (simp add: t ret)
qed

theorem trap_roundtrip_witness:
  "let s = astate0\<lparr>csrs := (\<lambda>_. 0)(Sscratch := 0x3000)\<rparr>;
       t = run (\<lambda>_. 0) (\<lambda>_ s. s) uservec_code s;
       u = t\<lparr>regs := (\<lambda>_. 3)(A0 := 0x3000)\<rparr>
   in regs (run (\<lambda>_. 0) (\<lambda>_ s. s) userret_code u) = regs s"
proof -
  define s where "s = astate0\<lparr>csrs := (\<lambda>_. 0)(Sscratch := 0x3000)\<rparr>"
  define t where "t = run (\<lambda>_. 0) (\<lambda>_ s. s) uservec_code s"
  define u where "u = t\<lparr>regs := (\<lambda>_. 3)(A0 := 0x3000)\<rparr>"
  have sc: "csrs s Sscratch = 0x3000" "xlate s = (\<lambda>_ a. a)" by (simp_all add: s_def astate0_def)
  have ms: "mapped s (csrs s Sscratch) 288 0x3000" unfolding sc(1) by (rule mapped0 [OF sc(2)]) simp
  have "xlate t = xlate s" by (simp add: t_def run_uservec [OF ms])
  then have xu: "xlate (set_csr Satp (regs u A1) u) = (\<lambda>_ a. a)" "regs u A0 = 0x3000" "amem u = amem t"
    by (simp_all add: u_def set_csr_def sc)
  have mu: "mapped (set_csr Satp (regs u A1) u) (regs u A0) 288 0x3000"
    unfolding xu(2) by (rule mapped0 [OF xu(1)]) simp
  from trap_roundtrip [OF ms mu, of "\<lambda>_. 0" "\<lambda>_ s. s", folded t_def] xu(3)
  have "regs (run (\<lambda>_. 0) (\<lambda>_ s. s) userret_code u) = regs s" by auto
  then show ?thesis unfolding Let_def s_def [symmetric] t_def [symmetric] u_def [symmetric] .
qed

definition kernel_slots :: "(reg \<times> nat) list" where
  "kernel_slots = [(Ra, 0), (Sp, 8), (Gp, 16), (Tp, 24), (T0, 32), (T1, 40), (T2, 48), (S0, 56), (S1, 64), (A0, 72),
     (A1, 80), (A2, 88), (A3, 96), (A4, 104), (A5, 112), (A6, 120), (A7, 128), (S2, 136), (S3, 144), (S4, 152),
     (S5, 160), (S6, 168), (S7, 176), (S8, 184), (S9, 192), (S10, 200), (S11, 208), (T3, 216), (T4, 224),
     (T5, 232), (T6, 240)]"

definition restored_slots :: "(reg \<times> nat) list" where
  "restored_slots = filter (\<lambda>(r, _). r \<noteq> Ra \<and> r \<noteq> Sp \<and> r \<noteq> Tp) kernel_slots"

lemma kernelvec_code_eq:
  "kernelvec_code = Addi Sp Sp (-256) # saves Sp kernel_slots @ [Call ''kerneltrap'', Ld Ra 0 Sp, Ld Sp 8 Sp] @
     loads Sp restored_slots @ [Addi Sp Sp 256, Sret]"
  by (simp add: kernelvec_code_def kernel_slots_def restored_slots_def)

lemma slots_kernel: "slots 256 kernel_slots" "\<forall>(r, off) \<in> set kernel_slots. off < 256"
  "distinct (map fst restored_slots)" "\<forall>(r, off) \<in> set restored_slots. off < 256"
  "Sp \<notin> fst ` set restored_slots" "Ra \<notin> fst ` set restored_slots" "Tp \<notin> fst ` set restored_slots"
  by (simp_all add: slots_def kernel_slots_def restored_slots_def)

lemma kernel_slots_all: "r = Ra \<or> r = Sp \<or> r = Tp \<or> (\<exists>off. (r, off) \<in> set restored_slots)"
  by (cases r) (auto simp: restored_slots_def kernel_slots_def)

lemma restored_sub: "(r, off) \<in> set restored_slots \<Longrightarrow> (r, off) \<in> set kernel_slots"
  by (simp add: restored_slots_def)

text \<open>The state in which \<open>kernelvec\<close> calls \<open>kerneltrap()\<close>.\<close>

definition saved_frame :: "uint64 \<Rightarrow> astate \<Rightarrow> astate" where
  "saved_frame pa s = (let f = (regs s)(Sp := regs s Sp - 256)
     in s\<lparr>regs := f, amem := put_slots pa f kernel_slots (amem s)\<rparr>)"

lemma saved_frame_load:
  "(r, off) \<in> set kernel_slots \<Longrightarrow>
     load64 (amem (saved_frame pa s)) (pa + of_nat off) = ((regs s)(Sp := regs s Sp - 256)) r"
  using load_put_slots [OF slots_kernel(1)] by (simp add: saved_frame_def Let_def del: fun_upd_apply)

lemma run_kernelvec_save:
  assumes "mapped s (regs s Sp - 256) 256 pa"
  shows "run lab fn (Addi Sp Sp (- 256) # saves Sp kernel_slots) s = saved_frame pa s"
proof -
  let ?s = "s\<lparr>regs := (regs s)(Sp := regs s Sp - 256)\<rparr>"
  have "step lab fn (Addi Sp Sp (- 256)) s = ?s" by (simp add: set_reg_def)
  moreover have "mapped ?s (regs ?s Sp) 256 pa" using assms by (simp add: mapped_def phys_def)
  from run_saves [OF this slots_kernel(2)] have "run lab fn (saves Sp kernel_slots) ?s = saved_frame pa s"
    by (simp add: saved_frame_def Let_def)
  ultimately show ?thesis by (simp only: run_Cons)
qed

lemma restored_regs:
  assumes "\<And>r off. (r, off) \<in> set kernel_slots \<Longrightarrow> load64 m (pa + of_nat off) = (f(Sp := sp)) r"
  shows "(get_slots pa m restored_slots (g(Ra := f Ra)))(Sp := f Sp) = f(Tp := g Tp)"
proof
  fix r
  show "((get_slots pa m restored_slots (g(Ra := f Ra)))(Sp := f Sp)) r = (f(Tp := g Tp)) r"
    using kernel_slots_all [of r]
  proof (elim disjE exE)
    fix off
    assume r: "(r, off) \<in> set restored_slots"
    then have "r \<noteq> Sp" "r \<noteq> Tp" by (auto simp: restored_slots_def)
    then show ?thesis
      using get_slots_in [OF slots_kernel(3) r] assms [OF restored_sub [OF r]] by simp
  qed (simp_all add: get_slots_out [OF slots_kernel(3)] slots_kernel)
qed

text \<open>
  C33. An interrupt in the kernel is transparent: if \<open>kerneltrap()\<close> returns with the stack
  pointer it was called with, the 256 bytes above it and the page table unchanged, the
  interrupted code goes on with every register as it was, except \<open>tp\<close>, which keeps the
  number of the hart the thread runs on now.
\<close>

theorem kernelvec_transparent:
  fixes s :: astate and lab :: "string \<Rightarrow> uint64" and fn :: "string \<Rightarrow> astate \<Rightarrow> astate" and pa :: uint64
  assumes "mapped s (regs s Sp - 256) 256 pa"
  defines "k \<equiv> fn ''kerneltrap'' (saved_frame pa s)"
  assumes "regs k Sp = regs s Sp - 256" "mapped k (regs s Sp - 256) 256 pa"
    and "\<And>off. off + 8 \<le> 256 \<Longrightarrow>
      load64 (amem k) (pa + of_nat off) = load64 (amem (saved_frame pa s)) (pa + of_nat off)"
  shows "run lab fn kernelvec_code s =
     k\<lparr>regs := (regs s)(Tp := regs k Tp), target := Some (csrs k Sepc)\<rparr>"
proof -
  let ?f = "(regs s)(Sp := regs s Sp - 256)"
  have at: "load64 (amem k) (pa + of_nat off) = ?f r" if "(r, off) \<in> set kernel_slots" for r off
    using that assms(5) [of off] saved_frame_load [OF that] by (auto simp: kernel_slots_def)
  have ph: "phys k (regs s Sp - 256 + of_nat off) = pa + of_nat off" if "off < 256" for off
    using assms(4) that by (simp add: mapped_def)
  have "load64 (amem k) (phys k (regs s Sp - 256)) = regs s Ra"
    "load64 (amem k) (phys k (regs s Sp - 256 + 8)) = regs s Sp - 256"
    using at [of Ra 0] at [of Sp 8] ph [of 0] ph [of 8] by (simp_all add: kernel_slots_def)
  then have 3: "run lab fn [Call ''kerneltrap'', Ld Ra 0 Sp, Ld Sp 8 Sp] (saved_frame pa s) =
      k\<lparr>regs := (regs k)(Ra := regs s Ra)\<rparr>" (is "_ = ?k")
    unfolding run_Cons using assms(3)
    by (simp add: k_def [symmetric] set_reg_def phys_def fun_upd_idem)
  have m3: "mapped ?k (regs ?k Sp) 256 pa" using assms(3,4) by (simp add: mapped_def phys_def)
  have 4: "run lab fn (loads Sp restored_slots) ?k = ?k\<lparr>regs := get_slots pa (amem k) restored_slots (regs ?k)\<rparr>"
    using run_loads [OF m3 slots_kernel(4,5)] by simp
  have s5: "get_slots pa (amem k) restored_slots (regs ?k) Sp = regs s Sp - 256"
    using get_slots_out [OF slots_kernel(3,5)] assms(3) by simp
  have "run lab fn kernelvec_code s = run lab fn [Addi Sp Sp 256, Sret]
      (?k\<lparr>regs := get_slots pa (amem k) restored_slots (regs ?k)\<rparr>)"
    unfolding kernelvec_code_eq append_Cons [symmetric] run_append run_kernelvec_save [OF assms(1)] 3 4 ..
  then show ?thesis
    using restored_regs [OF at, where g = "regs k"] s5 by (simp add: run_Cons set_reg_def)
qed

theorem kernelvec_transparent_witness:
  "let s = astate0\<lparr>regs := (regs astate0)(Sp := 0x5100, Tp := 1)\<rparr>;
       fn = (\<lambda>_ c. c\<lparr>regs := (\<lambda>_. 77)(Sp := regs c Sp, Tp := 2), csrs := (csrs c)(Sepc := 0x80005678)\<rparr>)
   in regs (run (\<lambda>_. 0) fn kernelvec_code s) = (regs s)(Tp := 2) \<and>
      target (run (\<lambda>_. 0) fn kernelvec_code s) = Some 0x80005678"
proof -
  define s where "s = astate0\<lparr>regs := (regs astate0)(Sp := 0x5100, Tp := 1)\<rparr>"
  define fn :: "string \<Rightarrow> astate \<Rightarrow> astate" where
    "fn = (\<lambda>_ c. c\<lparr>regs := (\<lambda>_. 77)(Sp := regs c Sp, Tp := 2), csrs := (csrs c)(Sepc := 0x80005678)\<rparr>)"
  have x: "xlate s = (\<lambda>_ a. a)" "regs s Sp - 256 = 0x5000" by (simp_all add: s_def astate0_def)
  let ?c = "saved_frame 0x5000 s"
  have k: "regs (fn ''kerneltrap'' ?c) Sp = regs s Sp - 256" "xlate (fn ''kerneltrap'' ?c) = (\<lambda>_ a. a)"
    "amem (fn ''kerneltrap'' ?c) = amem ?c"
    using x by (simp_all add: fn_def saved_frame_def Let_def)
  have m: "mapped s (regs s Sp - 256) 256 0x5000" "mapped (fn ''kerneltrap'' ?c) (regs s Sp - 256) 256 0x5000"
    unfolding x(2) by (rule mapped0 [OF x(1)], simp) (rule mapped0 [OF k(2)], simp)
  have "run (\<lambda>_. 0) fn kernelvec_code s = (fn ''kerneltrap'' ?c)\<lparr>regs := (regs s)(Tp := 2), target := Some 0x80005678\<rparr>"
    using kernelvec_transparent [where s = s and fn = fn and pa = "0x5000" and lab = "\<lambda>_. 0", OF m(1) k(1) m(2)] k(3) by (simp add: fn_def)
  then show ?thesis unfolding Let_def s_def [symmetric] fn_def [symmetric] by simp
qed

text \<open>
  C34. The machine-mode timer interrupt changes no register of the interrupted code. It
  adds the interval to the hart's \<open>mtimecmp\<close>, raises a supervisor software interrupt and
  leaves \<open>mscratch\<close> ready for the next one.
\<close>

theorem timervec_transparent:
  fixes s :: astate
  assumes "mapped s (csrs s Mscratch) 40 pa"
    and "phys s (load64 (amem s) (pa + 24)) = cmp" "apart 40 pa cmp"
  shows "regs (run lab fn timervec_code s) = regs s \<and>
     load64 (amem (run lab fn timervec_code s)) cmp = load64 (amem s) cmp + load64 (amem s) (pa + 32) \<and>
     csrs (run lab fn timervec_code s) = (csrs s)(Sip := 2) \<and>
     target (run lab fn timervec_code s) = Some (csrs s Mepc)"
proof -
  have at: "phys s (csrs s Mscratch + of_nat off) = pa + of_nat off" if "off < 40" for off
    using assms(1) that by (simp add: mapped_def)
  note at = at [of 0, simplified] at [of 8, simplified] at [of 16, simplified] at [of 24, simplified] at [of 32, simplified]
  define l where "l = [(A1, 0), (A2, 8), (A3, 16 :: nat)]"
  define m where "m = put_slots pa (regs s) l (amem s)"
  have sl: "slots 40 l" by (simp add: slots_def l_def)
  have m_eq: "m = store64 (pa + 16) (regs s A3) (store64 (pa + 8) (regs s A2) (store64 pa (regs s A1) (amem s)))"
    by (simp add: m_def put_slots_def l_def)
  have keep: "load64 m (pa + 24) = load64 (amem s) (pa + 24)" "load64 m (pa + 32) = load64 (amem s) (pa + 32)"
    using load_put_slots_other [OF sl, of 24 pa "regs s" "amem s"] load_put_slots_other [OF sl, of 32 pa "regs s" "amem s"]
    by (simp_all add: m_def l_def)
  have cm: "load64 m cmp = load64 (amem s) cmp"
    using load_put_slots_apart [of 40 cmp pa l 0 "regs s" "amem s"] assms(3)
    by (simp add: m_def l_def apart_def)
  define v where "v = load64 (amem s) cmp + load64 (amem s) (pa + 32)"
  have old: "load64 (store64 cmp v m) (pa + of_nat off) = regs s r" if "(r, off) \<in> set l" for r off
  proof -
    have "store64 cmp v m = put_slots cmp (\<lambda>_. v) [(A0, 0)] m" by (simp add: put_slots_def)
    then have "load64 (store64 cmp v m) (pa + of_nat off) = load64 m (pa + of_nat off)"
      using load_put_slots_apart [OF assms(3), of "[(A0, 0)]" off "\<lambda>_. v" m] that by (auto simp: l_def)
    then show ?thesis using load_put_slots [OF sl _ that] by (simp add: m_def)
  qed
  note old = old [of A1 0, simplified] old [of A2 8, simplified] old [of A3 16, simplified]
  have "run lab fn timervec_code s = s\<lparr>amem := store64 cmp v m, csrs := (csrs s)(Sip := 2), target := Some (csrs s Mepc)\<rparr>"
    unfolding timervec_code_def run_Cons run_Nil
    using at [unfolded phys_def] old keep cm assms(2) [unfolded phys_def] m_eq [symmetric]
    by (simp add: set_reg_def set_csr_def phys_def l_def v_def [symmetric] fun_upd_idem)
  then show ?thesis by (simp add: v_def)
qed

theorem timervec_transparent_witness:
  "let m = store64 0x6018 0x2004000 (store64 0x6020 1000000 (\<lambda>_. 0));
       s = astate0\<lparr>csrs := (\<lambda>_. 0)(Mscratch := 0x6000), amem := m\<rparr>
   in load64 (amem (run (\<lambda>_. 0) (\<lambda>_ s. s) timervec_code s)) 0x2004000 = load64 m 0x2004000 + 1000000 \<and>
      regs (run (\<lambda>_. 0) (\<lambda>_ s. s) timervec_code s) = regs astate0"
proof -
  define m where "m = store64 0x6018 0x2004000 (store64 0x6020 1000000 (\<lambda>_. 0))"
  define s where "s = astate0\<lparr>csrs := (\<lambda>_. 0)(Mscratch := 0x6000), amem := m\<rparr>"
  have s: "xlate s = (\<lambda>_ a. a)" "csrs s Mscratch = 0x6000" "amem s = m" "regs s = regs astate0"
    by (simp_all add: s_def astate0_def)
  have l: "load64 m 0x6018 = 0x2004000" by (simp add: m_def)
  have l': "load64 m 0x6020 = 1000000"
    using load_store_far [of "0x18" "0x20" "0x6000" "0x2004000" "store64 0x6020 1000000 (\<lambda>_. 0)"]
    by (simp add: m_def)
  have map: "mapped s (csrs s Mscratch) 40 0x6000" unfolding s(2) by (rule mapped0 [OF s(1)]) simp
  have ph: "phys s (load64 (amem s) (0x6000 + 24)) = 0x2004000" by (simp add: phys_def s l)
  have "apart 40 0x6000 0x2004000" by (simp add: apart_def)
  from timervec_transparent [OF map ph this, of "\<lambda>_. 0" "\<lambda>_ s. s"] s l' have
    "load64 (amem (run (\<lambda>_. 0) (\<lambda>_ s. s) timervec_code s)) 0x2004000 = load64 m 0x2004000 + 1000000 \<and>
      regs (run (\<lambda>_. 0) (\<lambda>_ s. s) timervec_code s) = regs astate0" by simp
  then show ?thesis unfolding Let_def m_def [symmetric] s_def [symmetric] .
qed

end
