(* ===== verification/Calm.thy ===== *)
theory Calm
  imports Sched
begin

section \<open>Sequential runs of kernel code\<close>

text \<open>
  The rules by which kernel code of one process is executed while no other process
  competes with it. \<open>on p L s\<close> says that process \<open>p\<close> runs on the current hart and holds
  exactly the spinlocks in \<open>L\<close>; \<open>psim\<close> compares states up to what locking and scheduling
  leave behind. \<open>ok\<close> is a Hoare logic for code that may wait: every wait is answered by
  the same step \<open>f\<close> of the rest of the machine, at most \<open>k\<close> of them are needed, and when
  they run out the state at that point satisfies the last argument.
\<close>

subsection \<open>Comparing states\<close>

definition pstrip :: "'z pstate_scheme \<Rightarrow> 'z pstate_scheme" where
  "pstrip s = s\<lparr>harts := hart0, cpus := (\<lambda>_. cpu0), locks := (\<lambda>_. spinlock0),
     procs := (\<lambda>q. (procs s q)\<lparr>p_state := UNUSED, p_chan := None\<rparr>)\<rparr>"

definition psim :: "'z pstate_scheme \<Rightarrow> 'z pstate_scheme \<Rightarrow> bool" where
  "psim s t \<longleftrightarrow> pstrip s = pstrip t"

lemma psim_refl [simp]: "psim s s"
  by (simp add: psim_def)

lemma psim_sym: "psim s t \<Longrightarrow> psim t s"
  by (simp add: psim_def)

lemma psim_trans [trans]: "psim s t \<Longrightarrow> psim t u \<Longrightarrow> psim s u"
  by (simp add: psim_def)

lemma psim_mach: "psim (s\<lparr>harts := h, cpus := c, locks := k\<rparr>) s"
  by (simp add: psim_def pstrip_def)

lemma psim_acquired [simp]: "psim (acquired l s) s"
  by (simp add: acquired_def psim_mach)

lemma psim_released [simp]: "psim (released l s) s"
proof -
  have "released l s = s\<lparr>harts := harts (released l s), cpus := cpus (released l s), locks := locks (released l s)\<rparr>"
    by (simp add: released_def Let_def)
  then show ?thesis using psim_mach by metis
qed

lemma psim_intena [simp]: "psim (intena_saved s) s"
proof -
  have "intena_saved s = s\<lparr>harts := harts s, cpus := cpus (intena_saved s), locks := locks s\<rparr>"
    by (simp add: intena_saved_def)
  then show ?thesis using psim_mach by metis
qed

lemma psim_procs:
  assumes "\<And>q. (g q)\<lparr>p_state := UNUSED, p_chan := None\<rparr> = (procs s q)\<lparr>p_state := UNUSED, p_chan := None\<rparr>"
  shows "psim (s\<lparr>procs := g\<rparr>) s"
  using assms by (simp add: psim_def pstrip_def)

lemma psim_cur: "psim s t \<Longrightarrow> cur s = cur t"
  unfolding psim_def pstrip_def by (drule arg_cong [where f = cur]) simp

lemma psim_proc:
  assumes "psim s t"
  shows "p_pid (procs s q) = p_pid (procs t q)" "p_killed (procs s q) = p_killed (procs t q)"
    "p_pagetable (procs s q) = p_pagetable (procs t q)" "p_cwd (procs s q) = p_cwd (procs t q)"
    "p_ofile (procs s q) = p_ofile (procs t q)"
proof -
  have "procs (pstrip s) q = procs (pstrip t) q" using assms by (simp add: psim_def)
  then have *: "(procs s q)\<lparr>p_state := UNUSED, p_chan := None\<rparr> = (procs t q)\<lparr>p_state := UNUSED, p_chan := None\<rparr>"
    by (simp add: pstrip_def)
  from * show "p_pid (procs s q) = p_pid (procs t q)" by (drule_tac arg_cong [where f = p_pid]) simp
  from * show "p_killed (procs s q) = p_killed (procs t q)" by (drule_tac arg_cong [where f = p_killed]) simp
  from * show "p_pagetable (procs s q) = p_pagetable (procs t q)"
    by (drule_tac arg_cong [where f = p_pagetable]) simp
  from * show "p_cwd (procs s q) = p_cwd (procs t q)" by (drule_tac arg_cong [where f = p_cwd]) simp
  from * show "p_ofile (procs s q) = p_ofile (procs t q)" by (drule_tac arg_cong [where f = p_ofile]) simp
qed

subsection \<open>A hart and the locks it holds\<close>

definition lh :: "lockid set \<Rightarrow> 'z mach_scheme \<Rightarrow> bool" where
  "lh L s \<longleftrightarrow> finite L \<and> c_noff (cpus s (myid s)) = int (card L) \<and>
     (L \<noteq> {} \<longrightarrow> \<not> intr_get (harts s (cur s))) \<and>
     (\<forall>l \<in> L. locked (locks s l) \<noteq> 0 \<and> lk_cpu (locks s l) = Some (myid s)) \<and> (\<forall>l. l \<notin> L \<longrightarrow> lock_free l s)"

lemma lh_cpu_ok: "lh L s \<Longrightarrow> cpu_ok s"
  by (auto simp: lh_def cpu_ok_def)

lemma lh_free: "lh L s \<Longrightarrow> l \<notin> L \<Longrightarrow> lock_free l s"
  unfolding lh_def by metis

lemma lh_acquired:
  assumes "lh L s" "l \<notin> L"
  shows "lh (insert l L) (acquired l s)" "acquire l e s = Ret () e (acquired l s)"
proof -
  have n: "c_noff (cpus (acquired l s) (myid s)) = c_noff (cpus s (myid s)) + 1"
    by (simp add: acquired_def saved_intena_def Let_def)
  have "locks (acquired l s) k = (if k = l then (locks s l)\<lparr>locked := 1, lk_cpu := Some (myid s)\<rparr> else locks s k)" for k
    by (simp add: acquired_def)
  moreover have "cur (acquired l s) = cur s" by (simp_all add: acquired_def)
  ultimately show "lh (insert l L) (acquired l s)"
    using assms held_acquired [OF lh_cpu_ok [OF assms(1)], of l] n by (simp add: lh_def lock_free_def)
  show "acquire l e s = Ret () e (acquired l s)"
    using assms by (simp add: acquire_exec lh_free)
qed

lemma myid_rel [simp]: "myid (released l s) = myid s"
  by (simp add: myid_def released_def Let_def)

lemma lh_released:
  assumes "lh L s" "l \<in> L"
  shows "lh (L - {l}) (released l s)" "release l e s = Ret () e (released l s)"
proof -
  let ?c = "cpus s (myid s)"
  have held: "locked (locks s l) \<noteq> 0" "lk_cpu (locks s l) = Some (myid s)" "\<not> intr_get (harts s (cur s))"
    and fin: "finite L" "c_noff ?c = int (card L)"
    using assms by (auto simp: lh_def)
  have pos: "0 < card L" using fin assms(2) card_gt_0_iff by blast
  then show "release l e s = Ret () e (released l s)"
    using held fin by (intro release_exec) auto
  have r: "c_noff (cpus (released l s) (myid s)) = c_noff ?c - 1" "cur (released l s) = cur s"
    "locks (released l s) k = (if k = l then (locks s l)\<lparr>lk_cpu := None, locked := 0\<rparr> else locks s k)" for k
    by (simp_all add: released_def Let_def)
  have h: "\<not> intr_get (harts (released l s) (cur s))" if "L - {l} \<noteq> {}"
  proof -
    have "card L \<noteq> 1" using that assms(2) by (auto simp: card_1_singleton_iff)
    then have "c_noff ?c \<noteq> 1" using fin by simp
    then show ?thesis using held(3) by (simp add: released_def Let_def)
  qed
  show "lh (L - {l}) (released l s)"
    using assms h fin r pos by (auto simp: lh_def lock_free_def int_ops)
qed

lemma lh_intena [simp]: "lh L (intena_saved s) = lh L s"
  by (simp add: lh_def)

lemma lh_cong:
  assumes "lh L s" "cur t = cur s" "harts t = harts s" "locks t = locks s"
    "c_noff (cpus t (myid s)) = c_noff (cpus s (myid s))"
  shows "lh L t"
proof -
  have "myid t = myid s" using assms(2,3) by (simp add: myid_def)
  with assms show ?thesis by (simp add: lh_def lock_free_def)
qed

lemma c_proc_lock [simp]:
  "c_proc (cpus (acquired l s) c) = c_proc (cpus s c)" "c_proc (cpus (released l s) c) = c_proc (cpus s c)"
  "procs (acquired l s) = procs s" "procs (released l s) = procs s"
  "cur (acquired l s) = cur s" "cur (released l s) = cur s"
  by (simp_all add: acquired_def released_def saved_intena_def Let_def)

subsection \<open>A process and the locks it holds\<close>

definition on :: "nat \<Rightarrow> lockid set \<Rightarrow> 'z pstate_scheme \<Rightarrow> bool" where
  "on p L s \<longleftrightarrow> lh L s \<and> c_proc (cpus s (myid s)) = Some p \<and> p < NPROC \<and> p_state (procs s p) = RUNNING"

lemma on_lh: "on p L s \<Longrightarrow> lh L s"
  by (simp add: on_def)

lemma on_proc: "on p L s \<Longrightarrow> c_proc (cpus s (myid s)) = Some p"
  by (simp add: on_def)

lemma on_acquired:
  assumes "on p L s" "l \<notin> L"
  shows "on p (insert l L) (acquired l s)" "acquire l e s = Ret () e (acquired l s)"
  using assms lh_acquired [OF on_lh [OF assms(1)] assms(2)] by (simp_all add: on_def)

lemma on_released:
  assumes "on p L s" "l \<in> L"
  shows "on p (L - {l}) (released l s)" "release l e s = Ret () e (released l s)"
  using assms lh_released [OF on_lh [OF assms(1)] assms(2)] by (simp_all add: on_def)

lemma on_intena: "on p L s \<Longrightarrow> on p L (intena_saved s)"
  by (simp add: on_def)

lemma on_curproc: "on p L s \<Longrightarrow> curproc e s = Ret p e (intena_saved s)"
  using curproc_exec [OF lh_cpu_ok [OF on_lh] on_proc] .

lemma on_myproc: "on p L s \<Longrightarrow> myproc e s = Ret (Some p) e (intena_saved s)"
  using myproc_exec [OF lh_cpu_ok [OF on_lh]] on_proc by metis

text \<open>Changes outside harts, cpus, locks and the running process keep \<open>on\<close>.\<close>

lemma on_cong:
  assumes "on p L s" "cur t = cur s" "harts t = harts s" "cpus t = cpus s" "locks t = locks s"
    "p_state (procs t p) = RUNNING"
  shows "on p L t"
  using assms lh_cong [of L s t] by (simp add: on_def myid_def)

definition woken_all :: "chan option \<Rightarrow> nat option \<Rightarrow> 'z pstate_scheme \<Rightarrow> 'z pstate_scheme" where
  "woken_all ch me s = (intena_saved s)\<lparr>procs := (\<lambda>q. if q < NPROC then woken ch me q (procs s q) else procs s q)\<rparr>"

lemma psim_woken [simp]: "psim (woken_all ch me s) s"
proof -
  have "psim (woken_all ch me s) (intena_saved s)"
    unfolding woken_all_def by (rule psim_procs) (simp add: woken_def)
  then show ?thesis by (rule psim_trans) simp
qed

lemma lh_wakeup:
  assumes "lh L s" "\<And>q. Proc_lock q \<notin> L" "c_proc (cpus s (myid s)) = me"
  shows "wakeup ch e s = Ret () e (woken_all ch me s)" "lh L (woken_all ch me s)"
proof -
  have pl: "proc_locks_free s" using assms by (simp add: proc_locks_free_def lh_free)
  show "wakeup ch e s = Ret () e (woken_all ch me s)"
    unfolding woken_all_def assms(3) [symmetric] by (rule wakeup_exec [OF lh_cpu_ok [OF assms(1)] pl])
  have "lh L (intena_saved s)" using assms(1) by simp
  then show "lh L (woken_all ch me s)" by (rule lh_cong) (simp_all add: woken_all_def)
qed

lemma on_wakeup:
  assumes "on p L s" "\<And>q. Proc_lock q \<notin> L"
  shows "wakeup ch e s = Ret () e (woken_all ch (Some p) s)" "on p L (woken_all ch (Some p) s)"
proof -
  note w = lh_wakeup [OF on_lh [OF assms(1)] assms(2) on_proc [OF assms(1)]]
  show "wakeup ch e s = Ret () e (woken_all ch (Some p) s)" by (rule w)
  have "p_state (procs (woken_all ch (Some p) s) p) = RUNNING"
    using assms(1) by (simp add: woken_all_def woken_def on_def)
  then show "on p L (woken_all ch (Some p) s)"
    by (intro on_cong [OF on_intena [OF assms(1)]]) (simp_all add: woken_all_def)
qed

subsection \<open>A Hoare logic with crashes\<close>

definition ok ::
  "('s \<Rightarrow> 's) \<Rightarrow> nat \<Rightarrow> ('s \<Rightarrow> bool) \<Rightarrow> ('s, 'a) M \<Rightarrow> ('a \<Rightarrow> 's \<Rightarrow> bool) \<Rightarrow> ('s \<Rightarrow> bool) \<Rightarrow> bool" where
  "ok f k P m Q C \<longleftrightarrow> (\<forall>n s. P s \<longrightarrow> (case m (replicate n f) s of
      Ret x e s' \<Rightarrow> (\<exists>n'. e = replicate n' f \<and> n' \<le> n \<and> n \<le> n' + k) \<and> Q x s'
    | Block t \<Rightarrow> n < k \<and> C t
    | _ \<Rightarrow> False))"

lemma okD:
  assumes "ok f k P m Q C" "P s"
  shows "(\<exists>x n' s'. m (replicate n f) s = Ret x (replicate n' f) s' \<and> n' \<le> n \<and> n \<le> n' + k \<and> Q x s') \<or>
     (\<exists>t. m (replicate n f) s = Block t \<and> n < k \<and> C t)"
proof -
  have "case m (replicate n f) s of
      Ret x e s' \<Rightarrow> (\<exists>n'. e = replicate n' f \<and> n' \<le> n \<and> n \<le> n' + k) \<and> Q x s'
    | Block t \<Rightarrow> n < k \<and> C t | _ \<Rightarrow> False"
    using assms unfolding ok_def by blast
  then show ?thesis by (cases "m (replicate n f) s") auto
qed

lemma okI:
  assumes "\<And>n s. P s \<Longrightarrow>
     (\<exists>x n' s'. m (replicate n f) s = Ret x (replicate n' f) s' \<and> n' \<le> n \<and> n \<le> n' + k \<and> Q x s') \<or>
     (\<exists>t. m (replicate n f) s = Block t \<and> n < k \<and> C t)"
  shows "ok f k P m Q C"
  unfolding ok_def
proof (intro allI impI)
  fix n s
  assume "P s"
  from assms [OF this, of n] show "case m (replicate n f) s of
      Ret x e s' \<Rightarrow> (\<exists>n'. e = replicate n' f \<and> n' \<le> n \<and> n \<le> n' + k) \<and> Q x s'
    | Block t \<Rightarrow> n < k \<and> C t | _ \<Rightarrow> False" by auto
qed

lemma ok_bind:
  assumes "ok f k P m R C" "\<And>x. ok f l (R x) (g x) Q C"
  shows "ok f (k + l) P (bind m g) Q C"
proof (rule okI)
  fix n s
  assume "P s"
  from okD [OF assms(1) this, of n]
  show "(\<exists>x n' s'. bind m g (replicate n f) s = Ret x (replicate n' f) s' \<and> n' \<le> n \<and> n \<le> n' + (k + l) \<and> Q x s') \<or>
     (\<exists>t. bind m g (replicate n f) s = Block t \<and> n < k + l \<and> C t)"
  proof (elim disjE exE conjE)
    fix x n1 s1
    assume 1: "m (replicate n f) s = Ret x (replicate n1 f) s1" "n1 \<le> n" "n \<le> n1 + k" "R x s1"
    from okD [OF assms(2) 1(4), of n1] show ?thesis
      using 1 by (fastforce simp: exec_bind)
  qed auto
qed

lemma ok_conseq:
  assumes "ok f k P' m Q' C'" "\<And>s. P s \<Longrightarrow> P' s" "\<And>x s. Q' x s \<Longrightarrow> Q x s" "\<And>t. C' t \<Longrightarrow> C t" "k \<le> l"
  shows "ok f l P m Q C"
proof (rule okI)
  fix n s
  assume "P s"
  from okD [OF assms(1) assms(2) [OF this], of n] assms(3-5)
  show "(\<exists>x n' s'. m (replicate n f) s = Ret x (replicate n' f) s' \<and> n' \<le> n \<and> n \<le> n' + l \<and> Q x s') \<or>
     (\<exists>t. m (replicate n f) s = Block t \<and> n < l \<and> C t)"
    by (meson add_left_mono le_trans less_le_trans)
qed

text \<open>Code that does not wait.\<close>

lemma ok_nowait:
  assumes "\<And>e s. P s \<Longrightarrow> \<exists>x s'. m e s = Ret x e s' \<and> Q x s'"
  shows "ok f 0 P m Q C"
proof (rule okI)
  fix n s
  assume "P s"
  from assms [OF this, of "replicate n f"]
  show "(\<exists>x n' s'. m (replicate n f) s = Ret x (replicate n' f) s' \<and> n' \<le> n \<and> n \<le> n' + 0 \<and> Q x s') \<or>
     (\<exists>t. m (replicate n f) s = Block t \<and> n < 0 \<and> C t)" by auto
qed

lemma ok_for_each:
  assumes "\<And>i. i < length xs \<Longrightarrow> ok f k (I i) (body (xs ! i)) (\<lambda>_. I (Suc i)) C"
  shows "ok f (k * length xs) (I 0) (for_each xs body) (\<lambda>_. I (length xs)) C"
  using assms
proof (induction xs arbitrary: I)
  case Nil
  show ?case by simp (rule ok_nowait, simp)
next
  case (Cons x xs)
  have 1: "ok f k (I 0) (body x) (\<lambda>_. I (Suc 0)) C" using Cons.prems [of 0] by simp
  have 2: "ok f (k * length xs) (I (Suc 0)) (for_each xs body) (\<lambda>_. I (Suc (length xs))) C"
    using Cons.IH [of "\<lambda>i. I (Suc i)"] Cons.prems by fastforce
  have "ok f (k + k * length xs) (I 0) (bind (body x) (\<lambda>_. for_each xs body)) (\<lambda>_. I (Suc (length xs))) C"
    by (rule ok_bind [OF 1]) (rule 2)
  then show ?case by (simp only: for_each.simps list.size One_nat_def add_Suc_right add_0_right mult_Suc_right)
qed

end
