(* ===== verification/Diskio.thy ===== *)
theory Diskio
  imports Virtio Calm
begin

unbundle bit_operations_syntax

section \<open>What a disk request does\<close>

text \<open>
  The device, with which the driver communicates through the rings and descriptors, is a
  parameter: a function on states of which \<open>virtio_device\<close> states what the virtio
  specification documents for one pending request. While a process waits for its request,
  the rest of the machine takes one step, \<open>disk_turn\<close>: the scheduler lets go of the
  process, the device completes the request, the interrupt handler runs, and the scheduler
  picks the process again. \<open>virtio_disk_rw\<close> then reads or writes exactly one block.
\<close>

subsection \<open>Blocks of the disk\<close>

definition disk_block :: "(nat \<Rightarrow> uint8) \<Rightarrow> nat \<Rightarrow> uint8 list" where
  "disk_block img n = map (\<lambda>i. img (BSIZE * n + i)) [0..<BSIZE]"

definition put_block :: "nat \<Rightarrow> uint8 list \<Rightarrow> (nat \<Rightarrow> uint8) \<Rightarrow> nat \<Rightarrow> uint8" where
  "put_block n bs img = (\<lambda>a. if a div BSIZE = n then bs ! (a mod BSIZE) else img a)"

lemma BSIZE_pos [simp]: "0 < BSIZE"
  by (simp add: BSIZE_def)

lemma length_disk_block [simp]: "length (disk_block img n) = BSIZE"
  by (simp add: disk_block_def)

lemma disk_block_put:
  "length bs = BSIZE \<Longrightarrow> disk_block (put_block n bs img) m = (if m = n then bs else disk_block img m)"
  by (auto simp: disk_block_def put_block_def intro!: nth_equalityI)

subsection \<open>The device\<close>

definition disk0 :: disk where
  "disk0 = \<lparr>desc = (\<lambda>_. desc0), avail = avail0, used = used0, free = (\<lambda>_. True), used_idx = 0,
     info = (\<lambda>_. \<lparr>in_b = None, in_status = 0\<rparr>),
     ops = (\<lambda>_. \<lparr>req_type = 0, req_reserved = 0, req_sector = 0\<rparr>), disk_pages = 0\<rparr>"

text \<open>The chain of descriptors of a request for block \<open>bno\<close>, and that it is the one pending request.\<close>

definition chain_at :: "nat \<Rightarrow> nat \<Rightarrow> nat \<Rightarrow> nat \<Rightarrow> bool \<Rightarrow> disk \<Rightarrow> bool" where
  "chain_at h i1 i2 b wr d \<longleftrightarrow> h < NUM \<and> i1 < NUM \<and> i2 < NUM \<and> distinct [h, i1, i2] \<and>
     desc d h = \<lparr>d_addr = Dma_op h, d_len = 16, d_flags = VRING_DESC_F_NEXT, d_next = of_nat i1\<rparr> \<and>
     desc d i1 = \<lparr>d_addr = Dma_data b, d_len = of_nat BSIZE,
       d_flags = (if wr then 0 else VRING_DESC_F_WRITE) OR VRING_DESC_F_NEXT, d_next = of_nat i2\<rparr> \<and>
     desc d i2 = \<lparr>d_addr = Dma_status h, d_len = 1, d_flags = VRING_DESC_F_WRITE, d_next = 0\<rparr>"

definition pending :: "nat \<Rightarrow> nat \<Rightarrow> bool \<Rightarrow> nat \<Rightarrow> disk \<Rightarrow> bool" where
  "pending h b wr bno d \<longleftrightarrow>
     av_idx (avail d) = us_idx (used d) + 1 \<and>
     av_ring (avail d) (unat (us_idx (used d)) mod NUM) = of_nat h \<and>
     (\<exists>i1 i2. chain_at h i1 i2 b wr d) \<and>
     req_type (ops d h) = (if wr then VIRTIO_BLK_T_OUT else VIRTIO_BLK_T_IN) \<and>
     unat (req_sector (ops d h)) = 2 * bno"

text \<open>The request done: the data moved, the status byte zero, the chain in the used ring.\<close>

definition used_put :: "nat \<Rightarrow> uint32 \<Rightarrow> disk \<Rightarrow> disk" where
  "used_put h len d = d\<lparr>info := (info d)(h := (info d h)\<lparr>in_status := 0\<rparr>),
     used := (used d)\<lparr>us_ring := (us_ring (used d))(unat (us_idx (used d)) mod NUM := \<lparr>ue_id = of_nat h, ue_len = len\<rparr>),
       us_idx := us_idx (used d) + 1\<rparr>\<rparr>"

definition completed ::
  "nat \<Rightarrow> nat \<Rightarrow> bool \<Rightarrow> nat \<Rightarrow> uint32 \<Rightarrow> (uint64 \<Rightarrow> uint32) \<Rightarrow> 'z vstate_scheme \<Rightarrow> 'z vstate_scheme" where
  "completed h b wr bno len mm s = s\<lparr>
     bufs := (if wr then bufs s else (bufs s)(b := (bufs s b)\<lparr>b_data := disk_block (image s) bno\<rparr>)),
     image := (if wr then put_block bno (b_data (bufs s b)) (image s) else image s),
     vdisk := used_put h len (vdisk s), vmmio := mm\<rparr>"

definition virtio_device :: "('z vstate_scheme \<Rightarrow> 'z vstate_scheme) \<Rightarrow> bool" where
  "virtio_device dev \<longleftrightarrow> (\<forall>h b wr bno s. pending h b wr bno (vdisk s) \<longrightarrow>
     (\<exists>len mm. dev s = completed h b wr bno len mm s))"

text \<open>A device that does just that.\<close>

definition blk_device :: "'z vstate_scheme \<Rightarrow> 'z vstate_scheme" where
  "blk_device s = (let d = vdisk s; h = unat (av_ring (avail d) (unat (us_idx (used d)) mod NUM)) in
     case d_addr (desc d (unat (d_next (desc d h)))) of
       Dma_data b \<Rightarrow> completed h b (req_type (ops d h) = VIRTIO_BLK_T_OUT) (unat (req_sector (ops d h)) div 2) 1 (vmmio s) s
     | _ \<Rightarrow> s)"

lemma small_NUM: "h < NUM \<Longrightarrow> unat (of_nat h :: uint16) = h" "h < NUM \<Longrightarrow> unat (of_nat h :: uint32) = h"
  by (simp_all add: NUM_def unat_of_nat take_bit_nat_eq_self)

lemma virtio_device_blk: "virtio_device blk_device"
  unfolding virtio_device_def
proof (intro allI impI)
  fix h b wr bno and s :: "'z vstate_scheme"
  assume "pending h b wr bno (vdisk s)"
  then obtain i1 i2 where p: "av_ring (avail (vdisk s)) (unat (us_idx (used (vdisk s))) mod NUM) = of_nat h"
    "chain_at h i1 i2 b wr (vdisk s)"
    "req_type (ops (vdisk s) h) = (if wr then VIRTIO_BLK_T_OUT else VIRTIO_BLK_T_IN)"
    "unat (req_sector (ops (vdisk s) h)) = 2 * bno"
    unfolding pending_def by blast
  then have "blk_device s = completed h b wr bno 1 (vmmio s) s"
    by (simp add: blk_device_def Let_def chain_at_def small_NUM VIRTIO_BLK_T_OUT_def VIRTIO_BLK_T_IN_def)
  then show "\<exists>len mm. blk_device s = completed h b wr bno len mm s" by blast
qed

subsection \<open>States up to the driver's own\<close>

definition vstrip :: "'z vstate_scheme \<Rightarrow> 'z vstate_scheme" where
  "vstrip s = (pstrip s)\<lparr>vdisk := disk0, vmmio := (\<lambda>_. 0)\<rparr>"

definition vsim :: "'z vstate_scheme \<Rightarrow> 'z vstate_scheme \<Rightarrow> bool" where
  "vsim s t \<longleftrightarrow> vstrip s = vstrip t"

lemma psim_vsim: "psim s t \<Longrightarrow> vsim s t"
  by (simp add: psim_def vsim_def vstrip_def)

lemma vsim_refl [simp]: "vsim s s"
  by (simp add: vsim_def)

lemma vsim_sym: "vsim s t \<Longrightarrow> vsim t s"
  by (simp add: vsim_def)

lemma vsim_trans [trans]: "vsim s t \<Longrightarrow> vsim t u \<Longrightarrow> vsim s u"
  by (simp add: vsim_def)

lemma vsim_vdisk: "vsim (s\<lparr>vdisk := d, vmmio := m\<rparr>) s" "vsim (s\<lparr>vdisk := d\<rparr>) s" "vsim (s\<lparr>vmmio := m\<rparr>) s"
  by (simp_all add: vsim_def vstrip_def pstrip_def)

lemma vsim_upd:
  assumes "vsim s t"
  shows "vsim (s\<lparr>bufs := x\<rparr>) (t\<lparr>bufs := x\<rparr>)" "vsim (s\<lparr>slocks := y\<rparr>) (t\<lparr>slocks := y\<rparr>)"
    "vsim (s\<lparr>image := z\<rparr>) (t\<lparr>image := z\<rparr>)" "vsim (s\<lparr>bufs := x, image := z\<rparr>) (t\<lparr>bufs := x, image := z\<rparr>)"
proof -
  have 1: "vstrip (u\<lparr>bufs := x\<rparr>) = (vstrip u)\<lparr>bufs := x\<rparr>" "vstrip (u\<lparr>slocks := y\<rparr>) = (vstrip u)\<lparr>slocks := y\<rparr>"
    "vstrip (u\<lparr>image := z\<rparr>) = (vstrip u)\<lparr>image := z\<rparr>"
    "vstrip (u\<lparr>bufs := x, image := z\<rparr>) = (vstrip u)\<lparr>bufs := x, image := z\<rparr>" for u :: "'a vstate_scheme"
    by (simp_all add: vstrip_def pstrip_def)
  show "vsim (s\<lparr>bufs := x\<rparr>) (t\<lparr>bufs := x\<rparr>)" "vsim (s\<lparr>slocks := y\<rparr>) (t\<lparr>slocks := y\<rparr>)"
    "vsim (s\<lparr>image := z\<rparr>) (t\<lparr>image := z\<rparr>)" "vsim (s\<lparr>bufs := x, image := z\<rparr>) (t\<lparr>bufs := x, image := z\<rparr>)"
    using assms unfolding vsim_def 1 by simp_all
qed

lemma vsim_fields:
  assumes "vsim s t"
  shows "bufs s = bufs t" "slocks s = slocks t" "image s = image t" "cur s = cur t"
    "vstate.more s = vstate.more t" "mem s = mem t"
proof -
  have *: "vstrip s = vstrip t" using assms by (simp add: vsim_def)
  from * show "bufs s = bufs t" by (drule_tac arg_cong [where f = bufs]) (simp add: vstrip_def pstrip_def)
  from * show "slocks s = slocks t" by (drule_tac arg_cong [where f = slocks]) (simp add: vstrip_def pstrip_def)
  from * show "image s = image t" by (drule_tac arg_cong [where f = image]) (simp add: vstrip_def pstrip_def)
  from * show "cur s = cur t" by (drule_tac arg_cong [where f = cur]) (simp add: vstrip_def pstrip_def)
  from * show "vstate.more s = vstate.more t"
    by (drule_tac arg_cong [where f = vstate.more]) (simp add: vstrip_def pstrip_def)
  from * show "mem s = mem t" by (drule_tac arg_cong [where f = mem]) (simp add: vstrip_def pstrip_def)
qed

lemma vsim_proc:
  assumes "vsim s t"
  shows "p_pid (procs s q) = p_pid (procs t q)" "p_killed (procs s q) = p_killed (procs t q)"
    "p_pagetable (procs s q) = p_pagetable (procs t q)" "p_cwd (procs s q) = p_cwd (procs t q)"
    "p_ofile (procs s q) = p_ofile (procs t q)"
proof -
  have "pstrip (u\<lparr>vdisk := disk0, vmmio := (\<lambda>_. 0)\<rparr>) = vstrip u" for u :: "'a vstate_scheme"
    by (cases u) (simp add: vstrip_def pstrip_def)
  then have "psim (s\<lparr>vdisk := disk0, vmmio := (\<lambda>_. 0)\<rparr>) (t\<lparr>vdisk := disk0, vmmio := (\<lambda>_. 0)\<rparr>)"
    using assms by (simp add: vsim_def psim_def)
  note * = psim_proc [OF this, of q]
  from * show "p_pid (procs s q) = p_pid (procs t q)" "p_killed (procs s q) = p_killed (procs t q)"
    "p_pagetable (procs s q) = p_pagetable (procs t q)" "p_cwd (procs s q) = p_cwd (procs t q)"
    "p_ofile (procs s q) = p_ofile (procs t q)" by simp_all
qed


lemma vstate_lock [simp]:
  "vdisk (acquired l s) = vdisk s" "vdisk (released l s) = vdisk s" "vdisk (intena_saved s) = vdisk s"
  "vdisk (woken_all ch me s) = vdisk s"
  by (simp_all add: acquired_def released_def intena_saved_def woken_all_def Let_def)

lemma lh_vstate [simp]:
  "lh L (s\<lparr>bufs := x\<rparr>) = lh L s" "lh L (s\<lparr>vdisk := d\<rparr>) = lh L s" "lh L (s\<lparr>vmmio := m\<rparr>) = lh L s"
  "lh L (s\<lparr>image := y\<rparr>) = lh L s" "lh L (s\<lparr>slocks := k\<rparr>) = lh L s" "lh L (s\<lparr>procs := q\<rparr>) = lh L s"
  by (simp_all add: lh_def lock_free_def myid_def)

lemma myid_vstate [simp]:
  "myid (s\<lparr>bufs := x\<rparr>) = myid s" "myid (s\<lparr>vdisk := d\<rparr>) = myid s" "myid (s\<lparr>vmmio := m\<rparr>) = myid s"
  "myid (s\<lparr>image := y\<rparr>) = myid s" "myid (s\<lparr>slocks := k\<rparr>) = myid s" "myid (woken_all ch me s) = myid s"
  by (simp_all add: myid_def woken_all_def intena_saved_def)

lemma vsim_left:
  assumes "vsim s' s"
  shows "vsim s' t = vsim s t"
  using assms by (simp add: vsim_def)

lemma vsim_simps [simp]:
  "vsim (acquired l s) t = vsim s t" "vsim (released l s) t = vsim s t" "vsim (intena_saved s) t = vsim s t"
  "vsim (woken_all ch me s) t = vsim s t" "vsim (s\<lparr>vdisk := d\<rparr>) t = vsim s t" "vsim (s\<lparr>vmmio := m\<rparr>) t = vsim s t"
  by (rule vsim_left; simp add: psim_vsim vsim_vdisk)+

lemma c_proc_intena [simp]: "c_proc (cpus (intena_saved s) c) = c_proc (cpus s c)"
  by (simp add: intena_saved_def saved_intena_def Let_def)

subsection \<open>One turn of the rest of the machine\<close>

definition turn_code :: "('z vstate_scheme \<Rightarrow> 'z vstate_scheme) \<Rightarrow> nat \<Rightarrow> ('z vstate_scheme, unit) M" where
  "turn_code dev p =
     bind mycpu (\<lambda>c.
     bind (upd_cpu c (\<lambda>k. k\<lparr>c_proc := None\<rparr>)) (\<lambda>_.
     bind (release (Proc_lock p)) (\<lambda>_.
     bind (modify dev) (\<lambda>_.
     bind virtio_disk_intr (\<lambda>_.
     bind (acquire (Proc_lock p)) (\<lambda>_.
     bind (get_proc p p_state) (\<lambda>st.
     whenM (st = RUNNABLE)
       (bind (upd_proc p (\<lambda>q. q\<lparr>p_state := RUNNING\<rparr>)) (\<lambda>_.
        bind mycpu (\<lambda>c. upd_cpu c (\<lambda>k. k\<lparr>c_proc := Some p\<rparr>)))))))))))"

definition disk_turn :: "('z vstate_scheme \<Rightarrow> 'z vstate_scheme) \<Rightarrow> nat \<Rightarrow> 'z vstate_scheme \<Rightarrow> 'z vstate_scheme" where
  "disk_turn dev p s = (case turn_code dev p [] s of Ret _ _ t \<Rightarrow> t | _ \<Rightarrow> s)"

text \<open>A hart with its locks and process, process \<open>p\<close>, the driver, and the rest of the state.\<close>

definition dcfg ::
  "lockid set \<Rightarrow> nat option \<Rightarrow> nat \<Rightarrow> procstate \<times> chan option \<Rightarrow> disk \<Rightarrow> 'z vstate_scheme \<Rightarrow> 'z vstate_scheme \<Rightarrow> bool" where
  "dcfg L c p st d S s \<longleftrightarrow> lh L s \<and> c_proc (cpus s (myid s)) = c \<and> p < NPROC \<and>
     (p_state (procs s p), p_chan (procs s p)) = st \<and> vdisk s = d \<and> vsim s S"

lemma dcfg_acq:
  assumes "dcfg L c p st d S s" "l \<notin> L"
  shows "acquire l e s = Ret () e (acquired l s)" "dcfg (insert l L) c p st d S (acquired l s)"
  using assms lh_acquired [of L s l] by (simp_all add: dcfg_def)

lemma dcfg_rel:
  assumes "dcfg L c p st d S s" "l \<in> L"
  shows "release l e s = Ret () e (released l s)" "dcfg (L - {l}) c p st d S (released l s)"
  using assms lh_released [of L s l] by (simp_all add: dcfg_def)

lemma dcfg_upd:
  assumes "dcfg L c p st d S s"
  shows "dcfg L c p st d (S\<lparr>bufs := x\<rparr>) (s\<lparr>bufs := x\<rparr>)" "dcfg L c p st d' S (s\<lparr>vdisk := d'\<rparr>)"
    "dcfg L c p st d S (s\<lparr>vmmio := m\<rparr>)" "dcfg L c p st d (S\<lparr>image := y\<rparr>) (s\<lparr>image := y\<rparr>)"
    "dcfg L c p st d (S\<lparr>slocks := z\<rparr>) (s\<lparr>slocks := z\<rparr>)"
  using assms by (simp_all add: dcfg_def vsim_upd)

lemma dcfg_wakeup:
  assumes "dcfg L None p (SLEEPING, Some ch) d S s" "\<And>q. Proc_lock q \<notin> L"
  shows "wakeup (Some ch) e s = Ret () e (woken_all (Some ch) None s)"
    "dcfg L None p (RUNNABLE, Some ch) d S (woken_all (Some ch) None s)"
proof -
  have lh: "lh L s" "c_proc (cpus s (myid s)) = None" using assms(1) by (simp_all add: dcfg_def)
  note w = lh_wakeup [OF lh(1) assms(2) lh(2)]
  show "wakeup (Some ch) e s = Ret () e (woken_all (Some ch) None s)" by (rule w)
  show "dcfg L None p (RUNNABLE, Some ch) d S (woken_all (Some ch) None s)"
    using assms(1) w(2)
    by (auto simp: dcfg_def) (auto simp: woken_all_def woken_def)
qed


lemma dcfg_bufs: "dcfg L c p st d S s \<Longrightarrow> bufs s = bufs S" "dcfg L c p st d S s \<Longrightarrow> vdisk s = d"
  "dcfg L c p st d S s \<Longrightarrow> image s = image S"
  by (simp_all add: dcfg_def vsim_fields)

lemma disk_intr_round_one:
  assumes "dcfg {Vdisk_lock} None p (SLEEPING, Some (Chan_disk_buf b)) d S s"
    and d: "us_idx (used d) = used_idx d + 1" "ue_id (us_ring (used d) (unat (used_idx d) mod NUM)) = of_nat h"
      "h < NUM" "in_status (info d h) = 0" "in_b (info d h) = Some b"
  shows "\<exists>t. disk_intr_round e s = Ret None e t \<and>
     dcfg {Vdisk_lock} None p (RUNNABLE, Some (Chan_disk_buf b)) (d\<lparr>used_idx := used_idx d + 1\<rparr>)
       (S\<lparr>bufs := (bufs S)(b := (bufs S b)\<lparr>b_disk := 0\<rparr>)\<rparr>) t"
proof -
  let ?x = "(bufs S)(b := (bufs S b)\<lparr>b_disk := 0\<rparr>)"
  let ?w = "woken_all (Some (Chan_disk_buf b)) None (s\<lparr>bufs := ?x\<rparr>)"
  note w = dcfg_wakeup [OF dcfg_upd(1) [OF assms(1), of ?x]]
  have "disk_intr_round e s = Ret None e (?w\<lparr>vdisk := d\<lparr>used_idx := used_idx d + 1\<rparr>\<rparr>)"
    unfolding disk_intr_round_def upd_buf_def upd_disk_def using d w dcfg_bufs [OF assms(1)]
    by (simp add: small_NUM)
  with dcfg_upd(2) [OF w(2)] show ?thesis by auto
qed

lemma virtio_disk_intr_one:
  assumes "dcfg {} None p (SLEEPING, Some (Chan_disk_buf b)) d S s"
    and d: "us_idx (used d) = used_idx d + 1" "ue_id (us_ring (used d) (unat (used_idx d) mod NUM)) = of_nat h"
      "h < NUM" "in_status (info d h) = 0" "in_b (info d h) = Some b"
  shows "\<exists>t. virtio_disk_intr e s = Ret () e t \<and>
     dcfg {} None p (RUNNABLE, Some (Chan_disk_buf b)) (d\<lparr>used_idx := used_idx d + 1\<rparr>)
       (S\<lparr>bufs := (bufs S)(b := (bufs S b)\<lparr>b_disk := 0\<rparr>)\<rparr>) t"
proof -
  let ?m = "\<lambda>s :: 'a vstate_scheme. unat (us_idx (used (vdisk s)) - used_idx (vdisk s))"
  let ?S = "S\<lparr>bufs := (bufs S)(b := (bufs S b)\<lparr>b_disk := 0\<rparr>)\<rparr>"
  note a = dcfg_acq [OF assms(1), of Vdisk_lock, simplified]
  let ?a = "(acquired Vdisk_lock s)\<lparr>vmmio := (vmmio (acquired Vdisk_lock s))
    (VIRTIO_MMIO_INTERRUPT_ACK := vmmio (acquired Vdisk_lock s) VIRTIO_MMIO_INTERRUPT_STATUS AND 3)\<rparr>"
  note a' = dcfg_upd(3) [OF a(2), of "(vmmio (acquired Vdisk_lock s))
    (VIRTIO_MMIO_INTERRUPT_ACK := vmmio (acquired Vdisk_lock s) VIRTIO_MMIO_INTERRUPT_STATUS AND 3)"]
  obtain t where t: "disk_intr_round e ?a = Ret None e t"
    "dcfg {Vdisk_lock} None p (RUNNABLE, Some (Chan_disk_buf b)) (d\<lparr>used_idx := used_idx d + 1\<rparr>) ?S t"
    using disk_intr_round_one [OF a' d] by blast
  have v: "vdisk t = d\<lparr>used_idx := used_idx d + 1\<rparr>" "vdisk ?a = d" using dcfg_bufs t(2) a' by blast+
  have "while_dec ?m disk_intr_round e ?a = while_dec ?m disk_intr_round e t"
    by (rule while_dec_next, rule t(1)) (simp add: v d)
  also have "\<dots> = Ret () e t"
    by (rule while_dec_done) (simp add: disk_intr_round_def v d)
  finally have l: "while_dec ?m disk_intr_round e ?a = Ret () e t" .
  note r = dcfg_rel [OF t(2), of Vdisk_lock, simplified]
  have "virtio_disk_intr e s = Ret () e (released Vdisk_lock t)"
    unfolding virtio_disk_intr_def mmio_read_def mmio_write_def using a(1) l r(1) by simp
  with r(2) show ?thesis by blast
qed

text \<open>The turn as a whole: from the state in which the process sleeps to the one in which it is picked again.\<close>

definition rw_result :: "nat \<Rightarrow> bool \<Rightarrow> nat \<Rightarrow> 'z vstate_scheme \<Rightarrow> 'z vstate_scheme" where
  "rw_result b wr bno s = s\<lparr>
     bufs := (bufs s)(b := (bufs s b)\<lparr>b_data := (if wr then b_data (bufs s b) else disk_block (image s) bno), b_disk := 0\<rparr>),
     image := (if wr then put_block bno (b_data (bufs s b)) (image s) else image s)\<rparr>"

lemma dcfg_cpu:
  assumes "dcfg L c p st d S s"
  shows "dcfg L c' p st d S (s\<lparr>cpus := (cpus s)(myid s := (cpus s (myid s))\<lparr>c_proc := c'\<rparr>)\<rparr>)"
    "dcfg L c p st d S (s\<lparr>cpus := (cpus s)(myid s := (cpus s (myid s))\<lparr>c_intena := i\<rparr>)\<rparr>)"
proof -
  have "psim (s\<lparr>cpus := x\<rparr>) s" for x by (simp add: psim_def pstrip_def)
  note v = vsim_left [OF psim_vsim [OF this]]
  have l: "lh L (s\<lparr>cpus := (cpus s)(myid s := (cpus s (myid s))\<lparr>c_proc := c'\<rparr>)\<rparr>)"
    "lh L (s\<lparr>cpus := (cpus s)(myid s := (cpus s (myid s))\<lparr>c_intena := i\<rparr>)\<rparr>)"
    using assms by (auto simp: dcfg_def intro: lh_cong)
  with v assms show "dcfg L c' p st d S (s\<lparr>cpus := (cpus s)(myid s := (cpus s (myid s))\<lparr>c_proc := c'\<rparr>)\<rparr>)"
    "dcfg L c p st d S (s\<lparr>cpus := (cpus s)(myid s := (cpus s (myid s))\<lparr>c_intena := i\<rparr>)\<rparr>)"
    by (simp_all add: dcfg_def myid_def)
qed

lemma dcfg_proc:
  assumes "dcfg L c p st d S s"
  shows "dcfg L c p (a, snd st) d S (s\<lparr>procs := (procs s)(p := (procs s p)\<lparr>p_state := a\<rparr>)\<rparr>)"
    "dcfg L c p (fst st, ch) d S (s\<lparr>procs := (procs s)(p := (procs s p)\<lparr>p_chan := ch\<rparr>)\<rparr>)"
    "dcfg L c p (a, ch) d S (s\<lparr>procs := (procs s)(p := (procs s p)\<lparr>p_chan := ch, p_state := a\<rparr>)\<rparr>)"
proof -
  have "psim (s\<lparr>procs := (procs s)(p := (procs s p)\<lparr>p_state := a\<rparr>)\<rparr>) s"
    "psim (s\<lparr>procs := (procs s)(p := (procs s p)\<lparr>p_chan := ch\<rparr>)\<rparr>) s"
    "psim (s\<lparr>procs := (procs s)(p := (procs s p)\<lparr>p_chan := ch, p_state := a\<rparr>)\<rparr>) s"
    by (rule psim_procs, simp)+
  note v = this [THEN psim_vsim, THEN vsim_left]
  show "dcfg L c p (a, snd st) d S (s\<lparr>procs := (procs s)(p := (procs s p)\<lparr>p_state := a\<rparr>)\<rparr>)"
    "dcfg L c p (fst st, ch) d S (s\<lparr>procs := (procs s)(p := (procs s p)\<lparr>p_chan := ch\<rparr>)\<rparr>)"
    "dcfg L c p (a, ch) d S (s\<lparr>procs := (procs s)(p := (procs s p)\<lparr>p_chan := ch, p_state := a\<rparr>)\<rparr>)"
    using assms v by (auto simp: dcfg_def)
qed


lemma dcfg_completed:
  assumes "dcfg L c p st d S s"
  shows "dcfg L c p st (used_put h len d)
     (S\<lparr>bufs := (if wr then bufs S else (bufs S)(b := (bufs S b)\<lparr>b_data := disk_block (image S) bno\<rparr>)),
        image := (if wr then put_block bno (b_data (bufs S b)) (image S) else image S)\<rparr>)
     (completed h b wr bno len mm s)"
proof -
  note f = dcfg_bufs [OF assms]
  show ?thesis
    using dcfg_upd(3) [OF dcfg_upd(2) [OF dcfg_upd(4) [OF dcfg_upd(1) [OF assms]]]]
    unfolding completed_def f by simp
qed

lemma disk_turn_wakes:
  assumes s: "dcfg {Proc_lock p} (Some p) p (SLEEPING, Some (Chan_disk_buf b)) d S s"
    and d: "pending h b wr bno d" "used_idx d = us_idx (used d)" "in_b (info d h) = Some b"
    and dev: "virtio_device dev"
  shows "\<exists>len. dcfg {Proc_lock p} (Some p) p (RUNNING, Some (Chan_disk_buf b))
     ((used_put h len d)\<lparr>used_idx := used_idx d + 1\<rparr>) (rw_result b wr bno S) (disk_turn dev p s)"
proof -
  let ?s1 = "s\<lparr>cpus := (cpus s)(myid s := (cpus s (myid s))\<lparr>c_proc := None\<rparr>)\<rparr>"
  note r = dcfg_rel [OF dcfg_cpu(1) [OF s, of None], of "Proc_lock p", simplified]
  let ?s2 = "released (Proc_lock p) ?s1"
  have "vdisk ?s2 = d" using r(2) by (rule dcfg_bufs)
  then obtain len mm where v: "dev ?s2 = completed h b wr bno len mm ?s2"
    using dev d(1) unfolding virtio_device_def by blast
  have h: "h < NUM" using d(1) by (auto simp: pending_def chain_at_def)
  let ?S = "S\<lparr>bufs := (if wr then bufs S else (bufs S)(b := (bufs S b)\<lparr>b_data := disk_block (image S) bno\<rparr>)),
        image := (if wr then put_block bno (b_data (bufs S b)) (image S) else image S)\<rparr>"
  have "dcfg {} None p (SLEEPING, Some (Chan_disk_buf b)) (used_put h len d) ?S (dev ?s2)"
    unfolding v by (rule dcfg_completed [OF r(2)])
  note i = virtio_disk_intr_one [OF this, of h "[]"]
  have S: "?S\<lparr>bufs := (bufs ?S)(b := (bufs ?S b)\<lparr>b_disk := 0\<rparr>)\<rparr> = rw_result b wr bno S"
    by (cases wr) (simp_all add: rw_result_def)
  obtain t where t: "virtio_disk_intr [] (dev ?s2) = Ret () [] t"
    "dcfg {} None p (RUNNABLE, Some (Chan_disk_buf b)) ((used_put h len d)\<lparr>used_idx := used_idx d + 1\<rparr>)
      (rw_result b wr bno S) t"
    using i h d(2,3) unfolding S by (auto simp: used_put_def)
  note a = dcfg_acq [OF t(2), of "Proc_lock p", simplified]
  let ?a = "acquired (Proc_lock p) t"
  let ?b = "?a\<lparr>procs := (procs ?a)(p := (procs ?a p)\<lparr>p_state := RUNNING\<rparr>)\<rparr>"
  have b: "dcfg {Proc_lock p} None p (RUNNING, Some (Chan_disk_buf b)) ((used_put h len d)\<lparr>used_idx := used_idx d + 1\<rparr>)
      (rw_result b wr bno S) ?b"
    using dcfg_proc(1) [OF a(2), of RUNNING] by simp
  have st: "p_state (procs ?a p) = RUNNABLE" using a(2) by (simp add: dcfg_def)
  have "turn_code dev p [] s = Ret () [] (?b\<lparr>cpus := (cpus ?b)(myid ?b := (cpus ?b (myid ?b))\<lparr>c_proc := Some p\<rparr>)\<rparr>)"
    unfolding turn_code_def upd_cpu_def upd_proc_def get_proc_def using r(1) t(1) a(1) st
    by (simp add: mycpu_exec)
  with dcfg_cpu(1) [OF b, of "Some p"] show ?thesis by (auto simp: disk_turn_def)
qed

lemma dcfg_asleep:
  assumes "dcfg {lk} (Some p) p (RUNNING, ch0) d S s" "lk \<noteq> Proc_lock p"
  shows "sleep ch lk [] s = Block (asleep p ch lk s)"
    "sleep ch lk (f # e) s = resume p lk (c_intena (cpus s (myid s))) e (f (asleep p ch lk s))"
    "dcfg {Proc_lock p} (Some p) p (SLEEPING, Some ch) d S (asleep p ch lk s)"
proof -
  have h: "holds_only lk s" "lock_free (Proc_lock p) s" "c_proc (cpus s (myid s)) = Some p"
    using assms by (auto simp: dcfg_def lh_def holds_only_def)
  show "sleep ch lk [] s = Block (asleep p ch lk s)"
    "sleep ch lk (f # e) s = resume p lk (c_intena (cpus s (myid s))) e (f (asleep p ch lk s))"
    using sleep_exec [OF h(1,3,2)] by simp_all
  have "dcfg {Proc_lock p} (Some p) p (RUNNING, ch0) d S (released lk (acquired (Proc_lock p) s))"
    using dcfg_rel(2) [OF dcfg_acq(2) [OF assms(1), of "Proc_lock p"], of lk] assms(2)
    by (simp add: insert_Diff_if)
  from dcfg_proc(3) [OF this, of SLEEPING "Some ch"]
  show "dcfg {Proc_lock p} (Some p) p (SLEEPING, Some ch) d S (asleep p ch lk s)"
    by (simp add: asleep_def)
qed

lemma dcfg_resume:
  assumes "dcfg {Proc_lock p} (Some p) p (RUNNING, ch) d S s" "lk \<noteq> Proc_lock p"
  shows "\<exists>t. resume p lk i e s = Ret () e t \<and> dcfg {lk} (Some p) p (RUNNING, None) d S t"
proof -
  let ?s1 = "s\<lparr>cpus := (cpus s)(myid s := (cpus s (myid s))\<lparr>c_intena := i\<rparr>)\<rparr>"
  let ?s2 = "?s1\<lparr>procs := (procs s)(p := (procs s p)\<lparr>p_chan := None\<rparr>)\<rparr>"
  have 2: "dcfg {Proc_lock p} (Some p) p (RUNNING, None) d S ?s2"
    using dcfg_proc(2) [OF dcfg_cpu(2) [OF assms(1), of i], of None] by simp
  note r = dcfg_rel [OF 2, of "Proc_lock p", simplified]
  note a = dcfg_acq [OF r(2), of lk, simplified]
  have "resume p lk i e s = Ret () e (acquired lk (released (Proc_lock p) ?s2))"
    unfolding resume_def upd_cpu_def upd_proc_def using r(1) a(1) by (simp add: mycpu_exec)
  with a(2) show ?thesis by blast
qed


subsection \<open>Freeing descriptors\<close>

lemma dcfg_wakeup_run:
  assumes "dcfg L (Some p) p (RUNNING, ch0) d S s" "\<And>q. Proc_lock q \<notin> L"
  shows "wakeup ch e s = Ret () e (woken_all ch (Some p) s)" "dcfg L (Some p) p (RUNNING, ch0) d S (woken_all ch (Some p) s)"
proof -
  have on: "on p L s" using assms(1) by (simp add: dcfg_def on_def)
  note w = on_wakeup [OF on assms(2)]
  show "wakeup ch e s = Ret () e (woken_all ch (Some p) s)" by (rule w)
  have "p_chan (procs (woken_all ch (Some p) s) p) = p_chan (procs s p)"
    by (simp add: woken_all_def woken_def)
  then show "dcfg L (Some p) p (RUNNING, ch0) d S (woken_all ch (Some p) s)"
    using assms(1) w(2) by (simp add: dcfg_def on_def)
qed

definition freed :: "nat \<Rightarrow> disk \<Rightarrow> disk" where
  "freed i d = d\<lparr>desc := (desc d)(i := desc0), free := (free d)(i := True)\<rparr>"

lemma free_desc_exec:
  assumes "dcfg L (Some p) p (RUNNING, ch0) d S s" "\<And>q. Proc_lock q \<notin> L" "i < NUM" "\<not> free d i"
  shows "\<exists>t. free_desc i e s = Ret () e t \<and> dcfg L (Some p) p (RUNNING, ch0) (freed i d) S t"
proof -
  note w = dcfg_wakeup_run [OF dcfg_upd(2) [OF assms(1), of "freed i d"] assms(2), of "Some Chan_disk_free"]
  have "free_desc i e s = Ret () e (woken_all (Some Chan_disk_free) (Some p) (s\<lparr>vdisk := freed i d\<rparr>))"
    using assms(3,4) w(1) dcfg_bufs(2) [OF assms(1)] by (simp add: free_desc_def upd_disk_def freed_def)
  with w(2) show ?thesis by blast
qed

lemma in_use_card: "in_use s = card {j. j < NUM \<and> \<not> free (vdisk s) j}"
  unfolding in_use_def length_filter_conv_card by (rule arg_cong [where f = card]) auto

lemma in_use_freed:
  assumes "i < NUM" "\<not> free (vdisk s) i" "vdisk t = freed i (vdisk s)"
  shows "in_use t < in_use s"
  unfolding in_use_card using assms by (intro psubset_card_mono) (auto simp: freed_def)

lemma free_chain_next:
  assumes "dcfg L (Some p) p (RUNNING, ch0) d S s" "\<And>q. Proc_lock q \<notin> L" "i < NUM" "\<not> free d i"
    "d_flags (desc d i) AND VRING_DESC_F_NEXT \<noteq> 0" "d_next (desc d i) = of_nat j" "j < NUM"
  shows "\<exists>t. free_chain i e s = free_chain j e t \<and> dcfg L (Some p) p (RUNNING, ch0) (freed i d) S t"
proof -
  obtain t where t: "free_desc i e s = Ret () e t" "dcfg L (Some p) p (RUNNING, ch0) (freed i d) S t"
    using free_desc_exec [OF assms(1-4)] by blast
  have v: "vdisk s = d" "vdisk t = freed i d" using assms(1) t(2) by (simp_all add: dcfg_bufs(2))
  have "free_chain i e s = free_chain j e t"
    unfolding free_chain_def by (rule loop_env_next) (use assms t v in_use_freed [of i s t] in \<open>simp_all add: small_NUM\<close>)
  with t(2) show ?thesis by blast
qed

lemma free_chain_end:
  assumes "dcfg L (Some p) p (RUNNING, ch0) d S s" "\<And>q. Proc_lock q \<notin> L" "i < NUM" "\<not> free d i"
    "d_flags (desc d i) AND VRING_DESC_F_NEXT = 0"
  shows "\<exists>t. free_chain i e s = Ret () e t \<and> dcfg L (Some p) p (RUNNING, ch0) (freed i d) S t"
proof -
  obtain t where t: "free_desc i e s = Ret () e t" "dcfg L (Some p) p (RUNNING, ch0) (freed i d) S t"
    using free_desc_exec [OF assms(1-4)] by blast
  have v: "vdisk s = d" using assms(1) by (simp add: dcfg_bufs(2))
  have "free_chain i e s = Ret () e t"
    unfolding free_chain_def by (rule loop_env_done) (use assms t v in simp)
  with t(2) show ?thesis by blast
qed

lemma free_chain_exec:
  assumes s: "dcfg L (Some p) p (RUNNING, ch0) d S s" and L: "\<And>q. Proc_lock q \<notin> L"
    and c: "chain_at h i1 i2 b wr d" "\<not> free d h" "\<not> free d i1" "\<not> free d i2"
  shows "\<exists>t. free_chain h e s = Ret () e t \<and> dcfg L (Some p) p (RUNNING, ch0) (freed i2 (freed i1 (freed h d))) S t"
proof -
  have c1: "h < NUM" "i1 < NUM" "i2 < NUM" "h \<noteq> i1" "h \<noteq> i2" "i1 \<noteq> i2"
    "desc d h = \<lparr>d_addr = Dma_op h, d_len = 16, d_flags = VRING_DESC_F_NEXT, d_next = of_nat i1\<rparr>"
    "desc d i1 = \<lparr>d_addr = Dma_data b, d_len = of_nat BSIZE,
       d_flags = (if wr then 0 else VRING_DESC_F_WRITE) OR VRING_DESC_F_NEXT, d_next = of_nat i2\<rparr>"
    "desc d i2 = \<lparr>d_addr = Dma_status h, d_len = 1, d_flags = VRING_DESC_F_WRITE, d_next = 0\<rparr>"
    using c(1) by (simp_all add: chain_at_def)
  obtain t1 where t1: "free_chain h e s = free_chain i1 e t1" "dcfg L (Some p) p (RUNNING, ch0) (freed h d) S t1"
    using free_chain_next [OF s L c1(1) c(2), of i1 e] c1 by (auto simp: VRING_DESC_F_NEXT_def)
  obtain t2 where t2: "free_chain i1 e t1 = free_chain i2 e t2" "dcfg L (Some p) p (RUNNING, ch0) (freed i1 (freed h d)) S t2"
    using free_chain_next [OF t1(2) L c1(2), of i2 e] c1 c(3)
    by (cases wr) (auto simp: VRING_DESC_F_NEXT_def VRING_DESC_F_WRITE_def freed_def)
  obtain t3 where t3: "free_chain i2 e t2 = Ret () e t3" "dcfg L (Some p) p (RUNNING, ch0) (freed i2 (freed i1 (freed h d))) S t3"
    using free_chain_end [OF t2(2) L c1(3), of e] c1 c(4)
    by (auto simp: VRING_DESC_F_NEXT_def VRING_DESC_F_WRITE_def freed_def)
  from t1 t2 t3 show ?thesis by auto
qed


subsection \<open>Allocating descriptors\<close>

definition taken :: "nat \<Rightarrow> disk \<Rightarrow> disk" where
  "taken i d = d\<lparr>free := (free d)(i := False)\<rparr>"

lemma for_find_skip:
  assumes "\<And>x. x \<in> set xs \<Longrightarrow> body x e s = Ret None e s"
  shows "for_find (xs @ ys) body e s = for_find ys body e s"
  using assms by (induction xs) (simp_all add: option.case_eq_if)

lemma alloc_desc_exec:
  assumes "i < NUM" "free (vdisk s) i" "\<forall>j < i. \<not> free (vdisk s) j"
  shows "alloc_desc e s = Ret (Some i) e (s\<lparr>vdisk := taken i (vdisk s)\<rparr>)"
proof -
  have l: "[0..<NUM] = [0..<i] @ i # [Suc i..<NUM]"
    using assms(1) upt_add_eq_append [of 0 i "NUM - i"] by (simp add: upt_conv_Cons)
  show ?thesis
    unfolding alloc_desc_def l using assms by (subst for_find_skip) (simp_all add: upd_disk_def taken_def)
qed

lemma alloc3_desc_exec:
  assumes "\<forall>i < NUM. free (vdisk s) i"
  shows "alloc3_desc e s = Ret (Some [0, 1, 2]) e (s\<lparr>vdisk := taken 2 (taken 1 (taken 0 (vdisk s)))\<rparr>)"
proof -
  let ?s1 = "s\<lparr>vdisk := taken 0 (vdisk s)\<rparr>"
  let ?s2 = "s\<lparr>vdisk := taken 1 (taken 0 (vdisk s))\<rparr>"
  have n: "NUM = 8" by (simp add: NUM_def)
  have 0: "alloc_desc e s = Ret (Some 0) e ?s1"
    using alloc_desc_exec [of 0 s e] assms n by simp
  have 1: "alloc_desc e ?s1 = Ret (Some 1) e ?s2"
    using alloc_desc_exec [of 1 ?s1 e] assms n by (simp add: taken_def)
  have 2: "alloc_desc e ?s2 = Ret (Some 2) e (s\<lparr>vdisk := taken 2 (taken 1 (taken 0 (vdisk s)))\<rparr>)"
    using alloc_desc_exec [of 2 ?s2 e] assms n by (simp add: taken_def less_2_cases_iff)
  have "[0..<3::nat] = [0, 1, 2]" by (simp add: upt_rec)
  then show ?thesis unfolding alloc3_desc_def using 0 1 2 by simp
qed


subsection \<open>A request\<close>

definition idle :: "disk \<Rightarrow> bool" where
  "idle d \<longleftrightarrow> (\<forall>i < NUM. free d i) \<and> used_idx d = us_idx (used d) \<and> av_idx (avail d) = us_idx (used d)"

text \<open>Process \<open>p\<close> runs with the locks \<open>L\<close>, the driver is idle, the rest is as in \<open>S\<close>.\<close>

definition calm :: "nat \<Rightarrow> lockid set \<Rightarrow> 'z vstate_scheme \<Rightarrow> 'z vstate_scheme \<Rightarrow> bool" where
  "calm p L S s \<longleftrightarrow> (\<exists>d ch. dcfg L (Some p) p (RUNNING, ch) d S s \<and> idle d)"

definition submitted :: "nat \<Rightarrow> bool \<Rightarrow> uint32 \<Rightarrow> disk \<Rightarrow> disk" where
  "submitted b wr w d = submit 0 (fill_request b wr (ucast (w * BLOCK_SECTORS)) 0 1 2 (taken 2 (taken 1 (taken 0 d))))"

lemma submitted_facts:
  assumes "idle d" "unat w < 2 ^ 31"
  shows "pending 0 b wr (unat w) (submitted b wr w d)" "used_idx (submitted b wr w d) = us_idx (used (submitted b wr w d))"
    "in_b (info (submitted b wr w d) 0) = Some b"
proof -
  have c: "chain_at 0 1 2 b wr (submitted b wr w d)"
    by (simp add: chain_at_def submitted_def submit_def fill_request_def NUM_def)
  have s: "unat (ucast (w * BLOCK_SECTORS) :: 64 word) = 2 * unat w"
  proof -
    have "unat (ucast (w * BLOCK_SECTORS) :: 64 word) = unat (w * BLOCK_SECTORS)"
      using unsigned_less [of "w * BLOCK_SECTORS"] by (simp add: unsigned_ucast_eq take_bit_nat_eq_self)
    then show ?thesis using assms(2) by (simp add: BLOCK_SECTORS_def BSIZE_def unat_word_ariths)
  qed
  show "pending 0 b wr (unat w) (submitted b wr w d)"
    unfolding pending_def
  proof (intro conjI)
    show "\<exists>i1 i2. chain_at 0 i1 i2 b wr (submitted b wr w d)" using c by blast
  qed (use s assms(1) in \<open>simp_all add: submitted_def submit_def fill_request_def taken_def idle_def\<close>)
  show "used_idx (submitted b wr w d) = us_idx (used (submitted b wr w d))"
    "in_b (info (submitted b wr w d) 0) = Some b"
    using assms(1) by (simp_all add: idle_def submitted_def submit_def fill_request_def taken_def)
qed

lemma dcfg_start:
  assumes "dcfg {} (Some p) p (RUNNING, ch) d S s" "idle d"
  obtains t where
    "dcfg {Vdisk_lock} (Some p) p (RUNNING, ch) (submitted b wr w d) (S\<lparr>bufs := (bufs S)(b := (bufs S b)\<lparr>b_disk := 1\<rparr>)\<rparr>) t"
    "\<And>e. w = b_blockno (bufs S b) \<Longrightarrow> virtio_disk_rw b wr e s = bind (while_sleep
       (bind (get_buf b b_disk) (\<lambda>d.
        if d = 1 then bind (sleep (Chan_disk_buf b) Vdisk_lock) (\<lambda>_. return None)
        else return (Some ())))) (\<lambda>_.
     bind (upd_disk (\<lambda>d. d\<lparr>info := (info d)(0 := (info d 0)\<lparr>in_b := None\<rparr>)\<rparr>)) (\<lambda>_.
     bind (free_chain 0) (\<lambda>_.
     release Vdisk_lock))) e t"
proof -
  note a = dcfg_acq [OF assms(1), of Vdisk_lock, simplified]
  let ?a = "acquired Vdisk_lock s"
  let ?x = "(bufs S)(b := (bufs S b)\<lparr>b_disk := 1\<rparr>)"
  let ?t = "?a\<lparr>bufs := ?x, vdisk := submitted b wr w d, vmmio := (vmmio s)(VIRTIO_MMIO_QUEUE_NOTIFY := 0)\<rparr>"
  have free: "\<forall>i < NUM. free (vdisk ?a) i" using assms by (simp add: dcfg_def idle_def)
  have v: "vdisk ?a = d" "bufs ?a = bufs S" "bufs s = bufs S" "vdisk s = d" using a(2) assms(1) by (simp_all add: dcfg_bufs)
  have m: "vmmio ?a = vmmio s" by (simp add: acquired_def)
  have l: "while_sleep
       (bind alloc3_desc (\<lambda>r. case r of
          Some idx \<Rightarrow> return (Some idx)
        | None \<Rightarrow> bind (sleep Chan_disk_free Vdisk_lock) (\<lambda>_. return None))) e ?a =
     Ret [0, 1, 2] e (?a\<lparr>vdisk := taken 2 (taken 1 (taken 0 d))\<rparr>)" for e
    by (rule while_sleep_done) (simp add: alloc3_desc_exec [OF free] v)
  show thesis
  proof (rule that)
    show "dcfg {Vdisk_lock} (Some p) p (RUNNING, ch) (submitted b wr w d) (S\<lparr>bufs := ?x\<rparr>) ?t"
      using dcfg_upd(3) [OF dcfg_upd(2) [OF dcfg_upd(1) [OF a(2)]]] by simp
  next
    fix e
    assume "w = b_blockno (bufs S b)"
    then show "virtio_disk_rw b wr e s = bind (while_sleep
       (bind (get_buf b b_disk) (\<lambda>d.
        if d = 1 then bind (sleep (Chan_disk_buf b) Vdisk_lock) (\<lambda>_. return None)
        else return (Some ())))) (\<lambda>_.
     bind (upd_disk (\<lambda>d. d\<lparr>info := (info d)(0 := (info d 0)\<lparr>in_b := None\<rparr>)\<rparr>)) (\<lambda>_.
     bind (free_chain 0) (\<lambda>_.
     release Vdisk_lock))) e ?t"
      unfolding virtio_disk_rw_def get_buf_def
      using a(1) l v m by (simp add: upd_disk_def upd_buf_def mmio_write_def submitted_def)
  qed
qed


lemma dcfg_finish:
  assumes "dcfg {Vdisk_lock} (Some p) p (RUNNING, ch) d S s" "chain_at 0 1 2 b wr d"
    "\<not> free d 0" "\<not> free d 1" "\<not> free d 2" "\<forall>i < NUM. i \<notin> {0, 1, 2} \<longrightarrow> free d i"
    "used_idx d = us_idx (used d)" "av_idx (avail d) = us_idx (used d)"
  shows "\<exists>t. bind (upd_disk (\<lambda>d. d\<lparr>info := (info d)(0 := (info d 0)\<lparr>in_b := None\<rparr>)\<rparr>)) (\<lambda>_.
     bind (free_chain 0) (\<lambda>_. release Vdisk_lock)) e s = Ret () e t \<and> calm p {} S t"
proof -
  let ?d = "d\<lparr>info := (info d)(0 := (info d 0)\<lparr>in_b := None\<rparr>)\<rparr>"
  have c: "chain_at 0 1 2 b wr ?d" "\<not> free ?d 0" "\<not> free ?d 1" "\<not> free ?d 2"
    using assms(2-5) by (simp_all add: chain_at_def)
  obtain t where t: "free_chain 0 e (s\<lparr>vdisk := ?d\<rparr>) = Ret () e t"
    "dcfg {Vdisk_lock} (Some p) p (RUNNING, ch) (freed 2 (freed 1 (freed 0 ?d))) S t"
    using free_chain_exec [OF dcfg_upd(2) [OF assms(1)] _ c, of e] by auto
  note r = dcfg_rel [OF t(2), of Vdisk_lock, simplified]
  have "idle (freed 2 (freed 1 (freed 0 ?d)))" using assms(6-8) by (auto simp: idle_def freed_def)
  with r(2) have "calm p {} S (released Vdisk_lock t)" unfolding calm_def by auto
  then show ?thesis using t(1) r(1) dcfg_bufs(2) [OF assms(1)] by (simp add: upd_disk_def)
qed

lemma served_facts:
  fixes len w wr b
  assumes "idle d"
  defines "d' \<equiv> (used_put 0 len (submitted b wr w d))\<lparr>used_idx := used_idx (submitted b wr w d) + 1\<rparr>"
  shows "chain_at 0 1 2 b wr d'" "\<not> free d' 0" "\<not> free d' 1" "\<not> free d' 2" "\<forall>i < NUM. i \<notin> {0, 1, 2} \<longrightarrow> free d' i"
    "used_idx d' = us_idx (used d')" "av_idx (avail d') = us_idx (used d')"
  using assms(1)
  by (simp_all add: d'_def used_put_def submitted_def submit_def fill_request_def taken_def idle_def chain_at_def NUM_def)

lemma virtio_disk_rw_exec:
  assumes "virtio_device dev" "calm p {} S s" "unat (b_blockno (bufs S b)) < 2 ^ 31"
  shows "\<exists>t. virtio_disk_rw b wr [] s = Block t \<and> vsim t (S\<lparr>bufs := (bufs S)(b := (bufs S b)\<lparr>b_disk := 1\<rparr>)\<rparr>)" (is ?B)
    "\<exists>t. virtio_disk_rw b wr (disk_turn dev p # e) s = Ret () e t \<and>
       calm p {} (rw_result b wr (unat (b_blockno (bufs S b))) S) t" (is ?R)
proof -
  let ?w = "b_blockno (bufs S b)"
  let ?S = "S\<lparr>bufs := (bufs S)(b := (bufs S b)\<lparr>b_disk := 1\<rparr>)\<rparr>"
  let ?body = "bind (get_buf b b_disk) (\<lambda>d.
        if d = 1 then bind (sleep (Chan_disk_buf b) Vdisk_lock) (\<lambda>_. return None)
        else return (Some ())) :: ('a vstate_scheme, unit option) M"
  let ?fin = "bind (upd_disk (\<lambda>d. d\<lparr>info := (info d)(0 := (info d 0)\<lparr>in_b := None\<rparr>)\<rparr>)) (\<lambda>_.
     bind (free_chain 0) (\<lambda>_. release Vdisk_lock)) :: ('a vstate_scheme, unit) M"
  obtain d ch where d: "dcfg {} (Some p) p (RUNNING, ch) d S s" "idle d"
    using assms(2) unfolding calm_def by blast
  let ?d = "submitted b wr ?w d"
  obtain u where u: "dcfg {Vdisk_lock} (Some p) p (RUNNING, ch) ?d ?S u"
    "\<And>e. virtio_disk_rw b wr e s = bind (while_sleep ?body) (\<lambda>_. ?fin) e u"
    by (rule dcfg_start [OF d, of b wr ?w]) (rule that, assumption, simp only:)
  have disk: "b_disk (bufs u b) = 1" using dcfg_bufs(1) [OF u(1)] by simp
  note a = dcfg_asleep [OF u(1), simplified, of "Chan_disk_buf b"]
  let ?a = "asleep p (Chan_disk_buf b) Vdisk_lock u"
  have "while_sleep ?body [] u = Block ?a"
    by (rule while_sleep_Block) (simp add: get_buf_def disk a(1))
  then have "virtio_disk_rw b wr [] s = Block ?a" unfolding u(2) by simp
  then show ?B using a(3) by (auto simp: dcfg_def)
  obtain len where t1: "dcfg {Proc_lock p} (Some p) p (RUNNING, Some (Chan_disk_buf b))
     ((used_put 0 len ?d)\<lparr>used_idx := used_idx ?d + 1\<rparr>) (rw_result b wr (unat ?w) ?S) (disk_turn dev p ?a)"
    using disk_turn_wakes [OF a(3) submitted_facts [OF d(2) assms(3)] assms(1)] by blast
  obtain t2 where t2: "resume p Vdisk_lock (c_intena (cpus u (myid u))) e (disk_turn dev p ?a) = Ret () e t2"
     "dcfg {Vdisk_lock} (Some p) p (RUNNING, None)
     ((used_put 0 len ?d)\<lparr>used_idx := used_idx ?d + 1\<rparr>) (rw_result b wr (unat ?w) ?S) t2"
    using dcfg_resume [OF t1, of Vdisk_lock] by auto
  have "while_sleep ?body (disk_turn dev p # e) u = while_sleep ?body e t2"
    by (rule while_sleep_next) (simp_all add: get_buf_def disk a(2) t2(1))
  also have "\<dots> = Ret () e t2"
    using dcfg_bufs(1) [OF t2(2)] by (intro while_sleep_done) (simp add: get_buf_def rw_result_def)
  finally have "virtio_disk_rw b wr (disk_turn dev p # e) s = ?fin e t2" unfolding u(2) by simp
  moreover have "rw_result b wr (unat ?w) ?S = rw_result b wr (unat ?w) S" by (simp add: rw_result_def)
  ultimately show ?R using dcfg_finish [OF t2(2) served_facts [OF d(2)]] by auto
qed

lemma ok_virtio_disk_rw:
  assumes "virtio_device dev" "unat (b_blockno (bufs S b)) < 2 ^ 31"
  shows "ok (disk_turn dev p) 1 (calm p {} S) (virtio_disk_rw b wr)
     (\<lambda>_. calm p {} (rw_result b wr (unat (b_blockno (bufs S b))) S)) (\<lambda>t. image t = image S)"
proof (rule okI)
  fix n s
  assume s: "calm p {} S s"
  show "(\<exists>x n' s'. virtio_disk_rw b wr (replicate n (disk_turn dev p)) s = Ret x (replicate n' (disk_turn dev p)) s' \<and>
       n' \<le> n \<and> n \<le> n' + 1 \<and> calm p {} (rw_result b wr (unat (b_blockno (bufs S b))) S) s') \<or>
     (\<exists>t. virtio_disk_rw b wr (replicate n (disk_turn dev p)) s = Block t \<and> n < 1 \<and> image t = image S)"
  proof (cases n)
    case 0
    then show ?thesis using virtio_disk_rw_exec(1) [OF assms(1) s assms(2), of wr] by (auto dest: vsim_fields(3))
  next
    case (Suc m)
    then show ?thesis
      using virtio_disk_rw_exec(2) [OF assms(1) s assms(2), of wr "replicate m (disk_turn dev p)"] by force
  qed
qed

subsection \<open>Properties\<close>

definition buf0 :: buf where
  "buf0 = \<lparr>b_valid = 0, b_disk = 0, b_dev = 0, b_blockno = 0, b_refcnt = 0, b_prev = 0, b_next = 0,
     b_data = replicate BSIZE 0\<rparr>"

definition sst0 :: sstate where
  "sst0 = pstate.extend pst0 (sstate.fields (\<lambda>_. \<lparr>sl_locked = 0, sl_name = '''', sl_pid = 0\<rparr>))"

definition vst0 :: vstate where
  "vst0 = sstate.extend sst0 (vstate.fields (\<lambda>_. buf0) disk0 (\<lambda>_. 0) (\<lambda>a. if a < 1024 then 7 else 0))"

lemma vst0_calm: "calm 1 {} vst0 vst0"
proof -
  have "dcfg {} (Some 1) 1 (RUNNING, None) disk0 vst0 vst0"
    by (simp add: dcfg_def lh_def vst0_def sst0_def sstate.defs pstate.defs vstate.defs pst0_def myid_def lock_free_def
        cpu0_def proc0_def NPROC_def spinlock0_def)
  moreover have "idle disk0" by (simp add: idle_def disk0_def used0_def avail0_def)
  ultimately show ?thesis unfolding calm_def by blast
qed

text \<open>
  C8. \<open>virtio_disk_rw\<close> reads or writes one block. From a state in which the driver is idle
  and the process runs holding no lock, the call goes to sleep with the disk unchanged;
  when the device completes the request, the interrupt handler wakes the process and the
  call returns with the driver idle again, no lock held, the block moved between the
  buffer and the disk in the right direction, and nothing else changed.
\<close>

theorem virtio_disk_rw_correct:
  assumes "virtio_device dev" "calm p {} S s" "unat (b_blockno (bufs S b)) < 2 ^ 31"
  shows "(\<exists>t. virtio_disk_rw b wr [] s = Block t \<and> image t = image S) \<and>
     (\<exists>t. virtio_disk_rw b wr (disk_turn dev p # e) s = Ret () e t \<and>
       calm p {} (rw_result b wr (unat (b_blockno (bufs S b))) S) t)"
  using virtio_disk_rw_exec [OF assms] vsim_fields(3) by fastforce

theorem virtio_disk_rw_correct_witness:
  "\<exists>t. virtio_disk_rw 3 False [disk_turn blk_device 1] vst0 = Ret () [] t \<and> b_data (bufs t 3) = replicate BSIZE 7"
proof -
  have "unat (b_blockno (bufs vst0 3)) = 0" "image vst0 = (\<lambda>a. if a < 1024 then 7 else 0)"
    by (simp_all add: vst0_def sst0_def sstate.defs pstate.defs vstate.defs buf0_def)
  moreover have "disk_block (\<lambda>a. if a < 1024 then 7 else 0) 0 = replicate BSIZE 7"
    by (auto simp: disk_block_def BSIZE_def intro!: nth_equalityI)
  ultimately show ?thesis
    using virtio_disk_rw_correct [OF virtio_device_blk vst0_calm, of 3 False "[]"]
    by (auto simp: calm_def rw_result_def dest!: dcfg_bufs(1))
qed

end
