(* ===== verification/Bcache.thy ===== *)
theory Bcache
  imports Bio Diskio
begin

section \<open>What the buffer cache does\<close>

text \<open>
  The buffer cache as its clients see it. The cached blocks of the disk form a map from
  block numbers to contents; \<open>bcache\<close> relates it to the linked list of buffers, their
  reference counts, their sleep locks and the disk. Over this relation \<open>bread\<close>, \<open>bwrite\<close>,
  \<open>brelse\<close>, \<open>bpin\<close> and \<open>bunpin\<close> have the specifications that file system code relies on.
\<close>

subsection \<open>Doubly linked lists\<close>

primrec lnk :: "('a \<Rightarrow> 'a) \<Rightarrow> ('a \<Rightarrow> 'a) \<Rightarrow> 'a \<Rightarrow> 'a list \<Rightarrow> 'a \<Rightarrow> bool" where
  "lnk n p a [] c \<longleftrightarrow> n a = c \<and> p c = a"
| "lnk n p a (x # xs) c \<longleftrightarrow> n a = x \<and> p x = a \<and> lnk n p x xs c"

lemma lnk_append: "lnk n p a (xs @ y # ys) c \<longleftrightarrow> lnk n p a xs y \<and> lnk n p y ys c"
  by (induction xs arbitrary: a) auto

lemma lnk_cong:
  assumes "\<And>x. x \<in> set (a # xs) \<Longrightarrow> n' x = n x" "\<And>x. x \<in> set (xs @ [c]) \<Longrightarrow> p' x = p x"
  shows "lnk n' p' a xs c = lnk n p a xs c"
  using assms by (induction xs arbitrary: a) auto

lemma lnk_remove:
  assumes "lnk n p a (ys @ b # zs) c" "distinct (a # ys @ b # zs)" "c \<notin> set (ys @ b # zs)"
    and n': "n' = n(p b := n b)" and p': "p' = p(n b := p b)"
  shows "lnk n' p' a (ys @ zs) c"
  using assms(1-3)
proof (induction ys arbitrary: a)
  case Nil
  show ?case
  proof (cases zs)
    case (Cons z zs')
    have l: "p b = a" "n b = z" "lnk n p z zs' c" using Nil Cons by simp_all
    then have "lnk n' p' z zs' c = lnk n p z zs' c"
      using Nil Cons unfolding n' p' by (intro lnk_cong) auto
    moreover have "n' a = z" "p' z = a" using l(1,2) by (simp_all add: n' p')
    ultimately show ?thesis using l Cons by simp
  next
    case Nil': Nil
    then have "n' a = c" "p' c = a" using Nil by (simp_all add: n' p')
    then show ?thesis using Nil' by simp
  qed
next
  case (Cons y ys)
  have l: "lnk n p y ys b" "lnk n p b zs c" using Cons.prems by (simp_all add: lnk_append)
  from l(1) have "p b \<in> set (y # ys)" by (induction ys arbitrary: y) auto
  moreover from l(2) have "n b \<in> set (zs @ [c])" by (cases zs) auto
  ultimately have "n' a = n a" "p' y = p y" using Cons.prems by (auto simp: n' p')
  then show ?case using Cons by simp
qed

lemma lnk_insert:
  assumes "lnk n p a xs c" "distinct (a # xs)" "b \<noteq> a" "b \<noteq> c" "b \<notin> set xs" "c \<notin> set xs"
  shows "lnk (n(b := n a, a := b)) (p(b := a, n a := b)) a (b # xs) c"
proof (cases xs)
  case Nil
  then show ?thesis using assms by auto
next
  case (Cons x xs')
  then have "lnk (n(b := n a, a := b)) (p(b := a, n a := b)) x xs' c = lnk n p x xs' c"
    using assms by (intro lnk_cong) auto
  moreover have "n a = x" "lnk n p x xs' c" using Cons assms by simp_all
  ultimately show ?thesis using Cons assms by simp
qed

definition dlist :: "(nat \<Rightarrow> buf) \<Rightarrow> nat list \<Rightarrow> bool" where
  "dlist bs xs \<longleftrightarrow> lnk (b_next \<circ> bs) (b_prev \<circ> bs) bhead xs bhead \<and> distinct xs \<and> set xs = {..<NBUF}"

lemma dlist_length: "dlist bs xs \<Longrightarrow> length xs = NBUF"
  by (metis card_lessThan distinct_card dlist_def)

lemma bscan_next:
  assumes "lnk (b_next \<circ> bs) p a xs bhead" "bhead \<notin> set xs" "length xs < k"
  shows "bscan k b_next P bs (b_next (bs a)) = Some (find (\<lambda>b. P (bs b)) xs)"
  using assms
proof (induction xs arbitrary: a k)
  case Nil
  then show ?case by (cases k) auto
next
  case (Cons x xs)
  then obtain j where "k = Suc j" by (cases k) auto
  with Cons show ?case by auto
qed

lemma bscan_prev:
  assumes "lnk n (b_prev \<circ> bs) bhead xs c" "bhead \<notin> set xs" "length xs < k"
  shows "bscan k b_prev P bs (b_prev (bs c)) = Some (find (\<lambda>b. P (bs b)) (rev xs))"
  using assms
proof (induction xs arbitrary: c k rule: rev_induct)
  case Nil
  then show ?case by (cases k) auto
next
  case (snoc x xs)
  then obtain j where "k = Suc j" by (cases k) auto
  with snoc show ?case by (auto simp: lnk_append)
qed

lemma dlist_scan:
  assumes "dlist bs xs"
  shows "bscan (NBUF + 1) b_next P bs (b_next (bs bhead)) = Some (find (\<lambda>b. P (bs b)) xs)"
    "bscan (NBUF + 1) b_prev P bs (b_prev (bs bhead)) = Some (find (\<lambda>b. P (bs b)) (rev xs))"
proof -
  have l: "lnk (b_next \<circ> bs) (b_prev \<circ> bs) bhead xs bhead" "bhead \<notin> set xs" "length xs < NBUF + 1"
    using assms dlist_length [OF assms] by (auto simp: dlist_def)
  show "bscan (NBUF + 1) b_next P bs (b_next (bs bhead)) = Some (find (\<lambda>b. P (bs b)) xs)"
    by (rule bscan_next [OF l])
  show "bscan (NBUF + 1) b_prev P bs (b_prev (bs bhead)) = Some (find (\<lambda>b. P (bs b)) (rev xs))"
    by (rule bscan_prev [OF l])
qed

subsection \<open>Moving a buffer to the front\<close>

definition set_next :: "nat \<Rightarrow> nat \<Rightarrow> (nat \<Rightarrow> buf) \<Rightarrow> nat \<Rightarrow> buf" where
  "set_next i v bs = bs(i := (bs i)\<lparr>b_next := v\<rparr>)"

definition set_prev :: "nat \<Rightarrow> nat \<Rightarrow> (nat \<Rightarrow> buf) \<Rightarrow> nat \<Rightarrow> buf" where
  "set_prev i v bs = bs(i := (bs i)\<lparr>b_prev := v\<rparr>)"

lemma set_links [simp]:
  "b_next (set_next i v bs j) = (if j = i then v else b_next (bs j))" "b_prev (set_next i v bs j) = b_prev (bs j)"
  "b_prev (set_prev i v bs j) = (if j = i then v else b_prev (bs j))" "b_next (set_prev i v bs j) = b_next (bs j)"
  "b_valid (set_next i v bs j) = b_valid (bs j)" "b_valid (set_prev i v bs j) = b_valid (bs j)"
  "b_disk (set_next i v bs j) = b_disk (bs j)" "b_disk (set_prev i v bs j) = b_disk (bs j)"
  "b_dev (set_next i v bs j) = b_dev (bs j)" "b_dev (set_prev i v bs j) = b_dev (bs j)"
  "b_blockno (set_next i v bs j) = b_blockno (bs j)" "b_blockno (set_prev i v bs j) = b_blockno (bs j)"
  "b_refcnt (set_next i v bs j) = b_refcnt (bs j)" "b_refcnt (set_prev i v bs j) = b_refcnt (bs j)"
  "b_data (set_next i v bs j) = b_data (bs j)" "b_data (set_prev i v bs j) = b_data (bs j)"
  by (simp_all add: set_next_def set_prev_def)

definition front :: "nat \<Rightarrow> (nat \<Rightarrow> buf) \<Rightarrow> nat \<Rightarrow> buf" where
  "front b bs =
     (let bs1 = set_prev (b_next (bs b)) (b_prev (bs b)) bs;
        bs2 = set_next (b_prev (bs1 b)) (b_next (bs1 b)) bs1;
        bs3 = set_next b (b_next (bs2 bhead)) bs2;
        bs4 = set_prev b bhead bs3;
        bs5 = set_prev (b_next (bs4 bhead)) b bs4
      in set_next bhead b bs5)"

lemma upd_links_exec:
  "upd_buf i (\<lambda>x. x\<lparr>b_next := v\<rparr>) e s = Ret () e (s\<lparr>bufs := set_next i v (bufs s)\<rparr>)"
  "upd_buf i (\<lambda>x. x\<lparr>b_prev := v\<rparr>) e s = Ret () e (s\<lparr>bufs := set_prev i v (bufs s)\<rparr>)"
  by (simp_all add: upd_buf_def set_next_def set_prev_def)

lemma move_to_front_exec: "move_to_front b e s = Ret () e (s\<lparr>bufs := front b (bufs s)\<rparr>)"
  by (simp add: move_to_front_def front_def get_buf_def upd_links_exec Let_def del: set_links)

lemma front_fields [simp]:
  "b_valid (front b bs i) = b_valid (bs i)" "b_disk (front b bs i) = b_disk (bs i)"
  "b_dev (front b bs i) = b_dev (bs i)" "b_blockno (front b bs i) = b_blockno (bs i)"
  "b_refcnt (front b bs i) = b_refcnt (bs i)" "b_data (front b bs i) = b_data (bs i)"
  unfolding front_def Let_def by (simp_all only: set_links)

lemma dlist_front:
  assumes "dlist bs xs" "b < NBUF"
  shows "dlist (front b bs) (b # remove1 b xs)"
proof -
  let ?n = "b_next \<circ> bs" and ?p = "b_prev \<circ> bs"
  have d: "lnk ?n ?p bhead xs bhead" "distinct xs" "set xs = {..<NBUF}" using assms(1) by (simp_all add: dlist_def)
  from assms(2) d(3) obtain ys zs where xs: "xs = ys @ b # zs" using split_list by fastforce
  have nb: "?n b \<noteq> b" "?p b \<noteq> b"
  proof -
    have l: "lnk ?n ?p bhead ys b" "lnk ?n ?p b zs bhead" using d(1) by (simp_all add: xs lnk_append)
    from l(2) have "?n b \<in> set (zs @ [bhead])" by (cases zs) auto
    then show "?n b \<noteq> b" using d(2) assms(2) by (auto simp: xs)
    from l(1) have "?p b \<in> set (bhead # ys)" by (cases ys rule: rev_cases) (auto simp: lnk_append)
    then show "?p b \<noteq> b" using d(2) assms(2) by (auto simp: xs)
  qed
  define n1 p1 where "n1 = ?n(?p b := ?n b)" and "p1 = ?p(?n b := ?p b)"
  have 1: "lnk n1 p1 bhead (ys @ zs) bhead"
  proof (rule lnk_remove [where n = ?n and p = ?p])
    show "lnk ?n ?p bhead (ys @ b # zs) bhead" using d(1) by (simp only: xs)
    show "distinct (bhead # ys @ b # zs)" "bhead \<notin> set (ys @ b # zs)" using d(2,3) unfolding xs by auto
    show "n1 = ?n(?p b := ?n b)" "p1 = ?p(?n b := ?p b)" by (rule n1_def, rule p1_def)
  qed
  have 2: "lnk (n1(b := n1 bhead, bhead := b)) (p1(b := bhead, n1 bhead := b)) bhead (b # ys @ zs) bhead"
    using d assms(2) by (intro lnk_insert [OF 1]) (auto simp: xs)
  have e: "b_next \<circ> front b bs = n1(b := n1 bhead, bhead := b)" "b_prev \<circ> front b bs = p1(b := bhead, n1 bhead := b)"
    using nb assms(2) by (simp_all add: fun_eq_iff n1_def p1_def front_def Let_def)
  have "remove1 b xs = ys @ zs" using d(2) by (simp add: xs remove1_append)
  then show ?thesis using 2 d(2,3) unfolding dlist_def e by (auto simp: xs)
qed

subsection \<open>Rules for code that does not wait\<close>

lemma calm_acquire:
  assumes "calm p L S s" "l \<notin> L"
  shows "\<exists>t. acquire l e s = Ret () e t \<and> calm p (insert l L) S t"
  using assms dcfg_acq unfolding calm_def by blast

lemma calm_release:
  assumes "calm p L S s" "l \<in> L"
  shows "\<exists>t. release l e s = Ret () e t \<and> calm p (L - {l}) S t"
  using assms dcfg_rel unfolding calm_def by blast

lemma calm_vsim: "calm p L S s \<Longrightarrow> vsim s S"
  by (auto simp: calm_def dcfg_def)

lemma calm_on: "calm p L S s \<Longrightarrow> on p L s"
  by (auto simp: calm_def dcfg_def on_def)

lemma calm_upd:
  assumes "calm p L S s"
  shows "calm p L (S\<lparr>bufs := x\<rparr>) (s\<lparr>bufs := x\<rparr>)" "calm p L (S\<lparr>slocks := y\<rparr>) (s\<lparr>slocks := y\<rparr>)"
  using assms by (auto simp: calm_def intro: dcfg_upd)

lemma calm_intena: "calm p L S s \<Longrightarrow> calm p L S (intena_saved s)"
  by (auto simp: calm_def dcfg_def)

lemma calm_wakeup:
  assumes "calm p L S s" "\<And>q. Proc_lock q \<notin> L"
  shows "\<exists>t. wakeup ch e s = Ret () e t \<and> calm p L S t"
  using assms dcfg_wakeup_run unfolding calm_def by blast

text \<open>The rules as triples; a step that returns \<open>v\<close> continues with \<open>v\<close>.\<close>

lemma triple_step:
  assumes "triple P m (\<lambda>x s. x = v \<and> R s)" "triple R (f v) Q"
  shows "triple P (bind m f) Q"
  by (rule triple_bind [OF assms(1)]) (use assms(2) in \<open>auto simp: triple_def\<close>)

lemma triple_return: "(\<And>s. P s \<Longrightarrow> Q x s) \<Longrightarrow> triple P (return x) Q"
  by (rule tripleI) simp

lemma calm_triples:
  "l \<notin> L \<Longrightarrow> triple (calm p L S) (acquire l) (\<lambda>x s. x = () \<and> calm p (insert l L) S s)"
  "l \<in> L \<Longrightarrow> triple (calm p L S) (release l) (\<lambda>x s. x = () \<and> calm p (L - {l}) S s)"
  "triple (calm p L S) (get_buf b f) (\<lambda>x s. x = f (bufs S b) \<and> calm p L S s)"
  "triple (calm p L S) (gets bufs) (\<lambda>x s. x = bufs S \<and> calm p L S s)"
  "triple (calm p L S) (upd_buf b g) (\<lambda>x s. x = () \<and> calm p L (S\<lparr>bufs := (bufs S)(b := g (bufs S b))\<rparr>) s)"
  "triple (calm p L S) (gets (\<lambda>s. h (slocks s k))) (\<lambda>x s. x = h (slocks S k) \<and> calm p L S s)"
  "triple (calm p L S) (upd_slock k u) (\<lambda>x s. x = () \<and> calm p L (S\<lparr>slocks := (slocks S)(k := u (slocks S k))\<rparr>) s)"
  "triple (calm p L S) curproc (\<lambda>x s. x = p \<and> calm p L S s)"
  "triple (calm p L S) (get_proc q p_pid) (\<lambda>x s. x = p_pid (procs S q) \<and> calm p L S s)"
  "(\<And>q. Proc_lock q \<notin> L) \<Longrightarrow> triple (calm p L S) (wakeup ch) (\<lambda>x s. x = () \<and> calm p L S s)"
  "triple (calm p L S) (move_to_front b) (\<lambda>x s. x = () \<and> calm p L (S\<lparr>bufs := front b (bufs S)\<rparr>) s)"
proof -
  note f = vsim_fields [OF calm_vsim] vsim_proc [OF calm_vsim]
  show "triple (calm p L S) (acquire l) (\<lambda>x s. x = () \<and> calm p (insert l L) S s)" if "l \<notin> L"
    by (rule tripleI) (use calm_acquire that in simp)
  show "triple (calm p L S) (release l) (\<lambda>x s. x = () \<and> calm p (L - {l}) S s)" if "l \<in> L"
    by (rule tripleI) (use calm_release that in simp)
  show "triple (calm p L S) (get_buf b f) (\<lambda>x s. x = f (bufs S b) \<and> calm p L S s)"
    "triple (calm p L S) (gets bufs) (\<lambda>x s. x = bufs S \<and> calm p L S s)"
    "triple (calm p L S) (gets (\<lambda>s. h (slocks s k))) (\<lambda>x s. x = h (slocks S k) \<and> calm p L S s)"
    by (rule tripleI; auto simp: get_buf_def dest: f)+
  show "triple (calm p L S) (upd_buf b g) (\<lambda>x s. x = () \<and> calm p L (S\<lparr>bufs := (bufs S)(b := g (bufs S b))\<rparr>) s)"
    "triple (calm p L S) (upd_slock k u) (\<lambda>x s. x = () \<and> calm p L (S\<lparr>slocks := (slocks S)(k := u (slocks S k))\<rparr>) s)"
    "triple (calm p L S) (move_to_front b) (\<lambda>x s. x = () \<and> calm p L (S\<lparr>bufs := front b (bufs S)\<rparr>) s)"
    by (rule tripleI; simp add: upd_buf_def upd_slock_def move_to_front_exec f calm_upd)+
  show "triple (calm p L S) curproc (\<lambda>x s. x = p \<and> calm p L S s)"
    by (rule tripleI) (simp add: on_curproc [OF calm_on] calm_intena)
  show "triple (calm p L S) (get_proc q p_pid) (\<lambda>x s. x = p_pid (procs S q) \<and> calm p L S s)"
    by (rule tripleI) (auto simp: get_proc_def dest: f)
  show "triple (calm p L S) (wakeup ch) (\<lambda>x s. x = () \<and> calm p L S s)" if "\<And>q. Proc_lock q \<notin> L"
    by (rule tripleI) (use calm_wakeup [OF _ that] in auto)
qed

lemma triple_while_sleep:
  assumes "triple P body (\<lambda>x s. x = Some v \<and> R s)"
  shows "triple P (while_sleep body) (\<lambda>x s. x = v \<and> R s)"
proof (rule tripleI)
  fix e s
  assume "P s"
  then obtain t where "body e s = Ret (Some v) e t" "R t" using tripleD [OF assms] by blast
  then show "\<exists>x s'. while_sleep body e s = Ret x e s' \<and> x = v \<and> R s'" by (auto dest: while_sleep_done)
qed

lemma triple_last:
  assumes "triple P m (\<lambda>x s. x = v \<and> R s)" "\<And>s. R s \<Longrightarrow> Q v s"
  shows "triple P m Q"
  by (rule triple_conseq [OF assms(1)]) (use assms(2) in auto)

lemma triple_sleep_free: "triple P (if False then m else return x) (\<lambda>y s. y = x \<and> P s)"
  by (rule tripleI) simp

definition taken_by :: "int \<Rightarrow> sleeplock \<Rightarrow> bool" where
  "taken_by pid k \<longleftrightarrow> sl_locked k \<noteq> 0 \<and> sl_pid k = pid"

lemma holdingsleep_triple:
  "triple (calm p {} S) (holdingsleep l) (\<lambda>x s. x = taken_by (p_pid (procs S p)) (slocks S l) \<and> calm p {} S s)"
proof -
  have m: "triple (calm p {sl_lk l} S)
     (if sl_locked k \<noteq> 0 then bind curproc (\<lambda>p. bind (get_proc p p_pid) (\<lambda>pid. return (sl_pid k = pid))) else return False)
     (\<lambda>x s. x = taken_by (p_pid (procs S p)) k \<and> calm p {sl_lk l} S s)" for k
  proof (cases "sl_locked k = 0")
    case True
    then show ?thesis by (simp add: taken_by_def triple_return)
  next
    case False
    then show ?thesis
      by (simp only: if_True simp_thms taken_by_def)
        (rule triple_step [OF calm_triples(8)], rule triple_step [OF calm_triples(9)], rule triple_return, simp)
  qed
  show ?thesis
    unfolding holdingsleep_def
    by (rule triple_step [OF calm_triples(1)], simp, rule triple_step [OF calm_triples(6)],
        rule triple_step [OF m], rule triple_step [OF calm_triples(2)], simp, rule triple_return, simp)
qed

lemma acquiresleep_triple:
  assumes "sl_locked (slocks S l) = 0"
  shows "triple (calm p {} S) (acquiresleep l) (\<lambda>x s. x = () \<and> calm p {}
     (S\<lparr>slocks := (slocks S)(l := (slocks S l)\<lparr>sl_locked := 1, sl_pid := p_pid (procs S p)\<rparr>)\<rparr>) s)"
proof -
  have w: "triple (calm p {sl_lk l} S) (while_sleep
       (bind (gets (\<lambda>s. sl_locked (slocks s l))) (\<lambda>k.
        if k \<noteq> 0 then bind (sleep (sl_chan l) (sl_lk l)) (\<lambda>_. return None)
        else return (Some ())))) (\<lambda>x s. x = () \<and> calm p {sl_lk l} S s)"
    by (rule triple_while_sleep, rule triple_step [OF calm_triples(6)])
      (simp only: assms simp_thms if_False, rule triple_return, simp)
  show ?thesis
    unfolding acquiresleep_def
    by (rule triple_step [OF calm_triples(1)], simp, rule triple_step [OF w], rule triple_step [OF calm_triples(7)],
        rule triple_step [OF calm_triples(8)], rule triple_step [OF calm_triples(9)],
        rule triple_step [OF calm_triples(7)], rule triple_last [OF calm_triples(2)], simp,
        simp add: fun_upd_def cong: if_cong)
qed

lemma releasesleep_triple:
  "triple (calm p {} S) (releasesleep l) (\<lambda>x s. x = () \<and> calm p {}
     (S\<lparr>slocks := (slocks S)(l := (slocks S l)\<lparr>sl_locked := 0, sl_pid := 0\<rparr>)\<rparr>) s)"
proof -
  have "Proc_lock q \<notin> {sl_lk l}" for q by (cases l) auto
  then show ?thesis
    unfolding releasesleep_def
    by (intro triple_step [OF calm_triples(1)] triple_step [OF calm_triples(7)] triple_step [OF calm_triples(10)]
        triple_last [OF calm_triples(2)]) (auto simp: fun_upd_def)
qed

subsection \<open>The cache as a map of blocks\<close>

text \<open>
  The cache of device \<open>d\<close> for a process with pid \<open>pid\<close>: the contents \<open>V\<close> of the blocks
  as the file system sees them, the disk \<open>I\<close>, the number of references \<open>R\<close> to every
  block, and the buffers \<open>H\<close> the process has locked. A block that nobody refers to is
  on disk as it is in \<open>V\<close>, so that its buffer can be recycled.
\<close>

definition bcache ::
  "int \<Rightarrow> uint32 \<Rightarrow> (uint32 \<Rightarrow> uint8 list) \<Rightarrow> (nat \<Rightarrow> uint8) \<Rightarrow> (uint32 \<Rightarrow> nat) \<Rightarrow> (uint32 \<Rightarrow> nat option) \<Rightarrow>
   (nat \<Rightarrow> buf) \<Rightarrow> (slockid \<Rightarrow> sleeplock) \<Rightarrow> bool" where
  "bcache pid d V I R H bs sl \<longleftrightarrow>
     (\<exists>xs. dlist bs xs) \<and>
     (\<forall>w. length (V w) = BSIZE) \<and>
     (\<forall>b < NBUF. \<forall>b' < NBUF. b_dev (bs b) = d \<and> b_dev (bs b') = d \<and> b_blockno (bs b) = b_blockno (bs b') \<longrightarrow> b = b') \<and>
     (\<forall>b < NBUF. b_dev (bs b) = d \<longrightarrow> b_valid (bs b) \<noteq> 0 \<and> b_data (bs b) = V (b_blockno (bs b)) \<and>
        unat (b_refcnt (bs b)) = R (b_blockno (bs b))) \<and>
     (\<forall>b < NBUF. b_dev (bs b) \<noteq> d \<longrightarrow> b_refcnt (bs b) = 0) \<and>
     (\<forall>w. 0 < R w \<longrightarrow> (\<exists>b < NBUF. b_dev (bs b) = d \<and> b_blockno (bs b) = w)) \<and>
     (\<forall>w. R w = 0 \<longrightarrow> V w = disk_block I (unat w)) \<and>
     (\<forall>w b. H w = Some b \<longrightarrow> b < NBUF \<and> b_dev (bs b) = d \<and> b_blockno (bs b) = w \<and> 0 < R w \<and>
        taken_by pid (sl (Buf_lock b))) \<and>
     (\<forall>b < NBUF. H (b_blockno (bs b)) \<noteq> Some b \<longrightarrow> sl_locked (sl (Buf_lock b)) = 0)"

lemma bcacheI:
  assumes "dlist bs xs" "\<And>w. length (V w) = BSIZE"
    "\<And>b b'. b < NBUF \<Longrightarrow> b' < NBUF \<Longrightarrow> b_dev (bs b) = d \<Longrightarrow> b_dev (bs b') = d \<Longrightarrow> b_blockno (bs b) = b_blockno (bs b') \<Longrightarrow> b = b'"
    "\<And>b. b < NBUF \<Longrightarrow> b_dev (bs b) = d \<Longrightarrow> b_valid (bs b) \<noteq> 0 \<and> b_data (bs b) = V (b_blockno (bs b)) \<and>
        unat (b_refcnt (bs b)) = R (b_blockno (bs b))"
    "\<And>b. b < NBUF \<Longrightarrow> b_dev (bs b) \<noteq> d \<Longrightarrow> b_refcnt (bs b) = 0"
    "\<And>w. 0 < R w \<Longrightarrow> \<exists>b < NBUF. b_dev (bs b) = d \<and> b_blockno (bs b) = w"
    "\<And>w. R w = 0 \<Longrightarrow> V w = disk_block I (unat w)"
    "\<And>w b. H w = Some b \<Longrightarrow> b < NBUF \<and> b_dev (bs b) = d \<and> b_blockno (bs b) = w \<and> 0 < R w \<and> taken_by pid (sl (Buf_lock b))"
    "\<And>b. b < NBUF \<Longrightarrow> H (b_blockno (bs b)) \<noteq> Some b \<Longrightarrow> sl_locked (sl (Buf_lock b)) = 0"
  shows "bcache pid d V I R H bs sl"
  unfolding bcache_def using assms by blast

lemma bcacheD:
  assumes "bcache pid d V I R H bs sl"
  shows "\<exists>xs. dlist bs xs" "length (V w) = BSIZE"
    "\<And>b b'. b < NBUF \<Longrightarrow> b' < NBUF \<Longrightarrow> b_dev (bs b) = d \<Longrightarrow> b_dev (bs b') = d \<Longrightarrow> b_blockno (bs b) = b_blockno (bs b') \<Longrightarrow> b = b'"
    "\<And>b. b < NBUF \<Longrightarrow> b_dev (bs b) = d \<Longrightarrow> b_valid (bs b) \<noteq> 0"
    "\<And>b. b < NBUF \<Longrightarrow> b_dev (bs b) = d \<Longrightarrow> b_data (bs b) = V (b_blockno (bs b))"
    "\<And>b. b < NBUF \<Longrightarrow> b_dev (bs b) = d \<Longrightarrow> unat (b_refcnt (bs b)) = R (b_blockno (bs b))"
    "\<And>b. b < NBUF \<Longrightarrow> b_dev (bs b) \<noteq> d \<Longrightarrow> b_refcnt (bs b) = 0"
    "\<And>w. 0 < R w \<Longrightarrow> \<exists>b < NBUF. b_dev (bs b) = d \<and> b_blockno (bs b) = w"
    "\<And>w. R w = 0 \<Longrightarrow> V w = disk_block I (unat w)"
    "\<And>w b. H w = Some b \<Longrightarrow> b < NBUF" "\<And>w b. H w = Some b \<Longrightarrow> b_dev (bs b) = d"
    "\<And>w b. H w = Some b \<Longrightarrow> b_blockno (bs b) = w" "\<And>w b. H w = Some b \<Longrightarrow> 0 < R w"
    "\<And>w b. H w = Some b \<Longrightarrow> taken_by pid (sl (Buf_lock b))"
    "\<And>b. b < NBUF \<Longrightarrow> H (b_blockno (bs b)) \<noteq> Some b \<Longrightarrow> sl_locked (sl (Buf_lock b)) = 0"
  using assms unfolding bcache_def by blast+

lemma dlist_cong:
  assumes "\<And>i. b_next (bs' i) = b_next (bs i)" "\<And>i. b_prev (bs' i) = b_prev (bs i)"
  shows "dlist bs' xs = dlist bs xs"
proof -
  have "b_next \<circ> bs' = b_next \<circ> bs" "b_prev \<circ> bs' = b_prev \<circ> bs" using assms by auto
  then show ?thesis by (simp add: dlist_def)
qed

definition lock_of :: "int \<Rightarrow> sleeplock \<Rightarrow> sleeplock" where
  "lock_of pid k = k\<lparr>sl_locked := 1, sl_pid := pid\<rparr>"

definition unlock_of :: "sleeplock \<Rightarrow> sleeplock" where
  "unlock_of k = k\<lparr>sl_locked := 0, sl_pid := 0\<rparr>"

lemma taken_by_lock [simp]: "taken_by pid (lock_of pid k)" "sl_locked (unlock_of k) = 0"
  by (simp_all add: taken_by_def lock_of_def unlock_of_def)

lemma unat_inc: "unat (x :: uint32) + 1 < 2 ^ 32 \<Longrightarrow> unat (x + 1) = unat x + 1"
  by (simp add: unat_word_ariths)

text \<open>A change of a buffer's reference count and lock.\<close>

lemma bcache_ref:
  assumes c: "bcache pid d V I R H bs sl" and b: "b < NBUF" "b_dev (bs b) = d" "b_blockno (bs b) = w"
    and k: "h = Some b \<and> 0 < unat r \<and> taken_by pid k \<or> h = None \<and> sl_locked k = 0"
    and z: "unat r = 0 \<Longrightarrow> V w = disk_block I (unat w)"
  shows "bcache pid d V I (R(w := unat r)) (H(w := h)) (bs(b := (bs b)\<lparr>b_refcnt := r\<rparr>)) (sl(Buf_lock b := k))"
proof -
  note D = bcacheD [OF c]
  obtain xs where "dlist bs xs" using D(1) by blast
  then have xs: "dlist (bs(b := (bs b)\<lparr>b_refcnt := r\<rparr>)) xs" by (subst dlist_cong [of _ bs]) auto
  have u: "\<And>b'. b' < NBUF \<Longrightarrow> b_dev (bs b') = d \<Longrightarrow> b_blockno (bs b') = w \<Longrightarrow> b' = b" using D(3) b by blast
  let ?bs = "bs(b := (bs b)\<lparr>b_refcnt := r\<rparr>)"
  have f: "b_dev (?bs i) = b_dev (bs i)" "b_blockno (?bs i) = b_blockno (bs i)" "b_valid (?bs i) = b_valid (bs i)"
    "b_data (?bs i) = b_data (bs i)" for i by simp_all
  show ?thesis
  proof (rule bcacheI [OF xs D(2)], unfold f)
    fix i assume i: "i < NBUF" "b_dev (bs i) = d"
    show "b_valid (bs i) \<noteq> 0 \<and> b_data (bs i) = V (b_blockno (bs i)) \<and>
        unat (b_refcnt (?bs i)) = (R(w := unat r)) (b_blockno (bs i))"
    proof (cases "i = b")
      case True
      then show ?thesis using D(4-6) [OF i] b(3) by simp
    next
      case False
      then show ?thesis using D(4-6) [OF i] u [OF i] by auto
    qed
  next
    fix i v assume "(H(w := h)) v = Some i"
    then show "i < NBUF \<and> b_dev (bs i) = d \<and> b_blockno (bs i) = v \<and> 0 < (R(w := unat r)) v \<and>
        taken_by pid ((sl(Buf_lock b := k)) (Buf_lock i))"
      using D(10-14) [of v i] b k by (auto split: if_splits)
  next
    fix i assume i: "i < NBUF" "(H(w := h)) (b_blockno (bs i)) \<noteq> Some i"
    then show "sl_locked ((sl(Buf_lock b := k)) (Buf_lock i)) = 0"
    proof (cases "i = b")
      case True
      then show ?thesis using i b(3) k by auto
    next
      case False
      have "H (b_blockno (bs i)) \<noteq> Some i"
      proof (cases "b_blockno (bs i) = w")
        case True
        then show ?thesis using u [OF i(1)] D(11) [of w i] False by auto
      qed (use i(2) in simp)
      then show ?thesis using D(15) [OF i(1)] False by simp
    qed
  qed (use D(3,7,8,9) b z in \<open>auto split: if_splits\<close>)
qed

text \<open>New contents for a block that is locked, and a block written to the disk.\<close>

lemma bcache_data:
  assumes c: "bcache pid d V I R H bs sl" and b: "H w = Some b" and l: "length x = BSIZE"
  shows "bcache pid d (V(w := x)) I R H (bs(b := (bs b)\<lparr>b_data := x\<rparr>)) sl"
proof -
  note D = bcacheD [OF c]
  note B = D(10-14) [OF b]
  obtain xs where "dlist bs xs" using D(1) by blast
  then have xs: "dlist (bs(b := (bs b)\<lparr>b_data := x\<rparr>)) xs" by (subst dlist_cong [of _ bs]) auto
  let ?bs = "bs(b := (bs b)\<lparr>b_data := x\<rparr>)"
  have f: "b_dev (?bs i) = b_dev (bs i)" "b_blockno (?bs i) = b_blockno (bs i)" "b_valid (?bs i) = b_valid (bs i)"
    "b_refcnt (?bs i) = b_refcnt (bs i)" for i by simp_all
  show ?thesis
  proof (rule bcacheI [OF xs], unfold f)
    show "length ((V(w := x)) v) = BSIZE" for v using D(2) l by simp
  next
    fix i assume i: "i < NBUF" "b_dev (bs i) = d"
    have "i \<noteq> b \<Longrightarrow> b_blockno (bs i) \<noteq> w" using D(3) [OF i(1) B(1) i(2) B(2)] B(3) by metis
    then show "b_valid (bs i) \<noteq> 0 \<and> b_data (?bs i) = (V(w := x)) (b_blockno (bs i)) \<and>
        unat (b_refcnt (bs i)) = R (b_blockno (bs i))"
      using D(4-6) [OF i] B(3) by (cases "i = b") simp_all
  next
    fix v assume "R v = 0"
    then show "(V(w := x)) v = disk_block I (unat v)" using D(9) [of v] B(4) by auto
  next
    fix v i assume "H v = Some i"
    then show "i < NBUF \<and> b_dev (bs i) = d \<and> b_blockno (bs i) = v \<and> 0 < R v \<and> taken_by pid (sl (Buf_lock i))"
      using D(10-14) by blast
  qed (use D(3,7,8,15) in auto)
qed

lemma bcache_disk:
  assumes c: "bcache pid d V I R H bs sl" and b: "0 < R w" and l: "length x = BSIZE"
  shows "bcache pid d V (put_block (unat w) x I) R H bs sl"
proof -
  have "V v = disk_block (put_block (unat w) x I) (unat v)" if "R v = 0" for v
  proof -
    have "unat v \<noteq> unat w" using that b by (auto simp: word_unat_eq_iff [symmetric])
    then show ?thesis using bcacheD(9) [OF c that] l by (simp add: disk_block_put)
  qed
  then have "\<forall>v. R v = 0 \<longrightarrow> V v = disk_block (put_block (unat w) x I) (unat v)" by blast
  with c show ?thesis unfolding bcache_def by (elim conjE, intro conjI) assumption+
qed

lemma bcache_cong:
  assumes "bcache pid d V I R H bs sl" "dlist bs' xs"
    "\<And>i. b_dev (bs' i) = b_dev (bs i)" "\<And>i. b_blockno (bs' i) = b_blockno (bs i)" "\<And>i. b_valid (bs' i) = b_valid (bs i)"
    "\<And>i. b_data (bs' i) = b_data (bs i)" "\<And>i. b_refcnt (bs' i) = b_refcnt (bs i)"
  shows "bcache pid d V I R H bs' sl"
proof -
  have "\<exists>xs. dlist bs' xs" using assms(2) by blast
  with assms(1) show ?thesis unfolding bcache_def assms(3-7) by (elim conjE, intro conjI) assumption+
qed

text \<open>A buffer that nobody refers to, recycled for a block that is not in the cache.\<close>

lemma bcache_recycle:
  assumes c: "bcache pid d V I R H bs sl" and b: "b < NBUF" "b_refcnt (bs b) = 0"
    and w: "\<And>i. i < NBUF \<Longrightarrow> \<not> (b_dev (bs i) = d \<and> b_blockno (bs i) = w)"
    and x: "x = (bs b)\<lparr>b_dev := d, b_blockno := w, b_valid := 1, b_refcnt := 1, b_data := disk_block I (unat w), b_disk := z\<rparr>"
  shows "bcache pid d V I (R(w := 1)) (H(w \<mapsto> b)) (bs(b := x)) (sl(Buf_lock b := lock_of pid (sl (Buf_lock b))))"
proof -
  note D = bcacheD [OF c]
  obtain xs where "dlist bs xs" using D(1) by blast
  then have xs: "dlist (bs(b := x)) xs" by (subst dlist_cong [of _ bs]) (auto simp: x)
  have R: "R w = 0" using D(8) [of w] w by blast
  have old: "R (b_blockno (bs b)) = 0" if "b_dev (bs b) = d" using D(6) [OF b(1) that] b(2) by simp
  have H: "H v \<noteq> Some b" for v using D(11-13) [of v b] old by auto
  show ?thesis
  proof (rule bcacheI [OF xs D(2)])
    fix i j assume "i < NBUF" "j < NBUF" "b_dev ((bs(b := x)) i) = d" "b_dev ((bs(b := x)) j) = d"
      "b_blockno ((bs(b := x)) i) = b_blockno ((bs(b := x)) j)"
    then show "i = j" using w D(3) by (cases "i = b"; cases "j = b") (auto simp: x)
  next
    fix i assume i: "i < NBUF" "b_dev ((bs(b := x)) i) = d"
    show "b_valid ((bs(b := x)) i) \<noteq> 0 \<and> b_data ((bs(b := x)) i) = V (b_blockno ((bs(b := x)) i)) \<and>
        unat (b_refcnt ((bs(b := x)) i)) = (R(w := 1)) (b_blockno ((bs(b := x)) i))"
    proof (cases "i = b")
      case True
      then show ?thesis using D(9) [OF R] by (simp add: x)
    next
      case False
      then have "b_dev (bs i) = d" using i by simp
      then show ?thesis using False w [OF i(1)] D(4-6) [OF i(1)] by auto
    qed
  next
    fix v assume v: "0 < (R(w := 1)) v"
    show "\<exists>i < NBUF. b_dev ((bs(b := x)) i) = d \<and> b_blockno ((bs(b := x)) i) = v"
    proof (cases "v = w")
      case True
      then show ?thesis using b(1) by (intro exI [of _ b]) (simp add: x)
    next
      case False
      then obtain i where "i < NBUF" "b_dev (bs i) = d" "b_blockno (bs i) = v" using v D(8) [of v] by auto
      moreover then have "i \<noteq> b" using old v False by auto
      ultimately show ?thesis by auto
    qed
  next
    fix v i assume "(H(w \<mapsto> b)) v = Some i"
    then show "i < NBUF \<and> b_dev ((bs(b := x)) i) = d \<and> b_blockno ((bs(b := x)) i) = v \<and> 0 < (R(w := 1)) v \<and>
        taken_by pid ((sl(Buf_lock b := lock_of pid (sl (Buf_lock b)))) (Buf_lock i))"
      using D(10-14) [of v i] H [of v] b(1) by (auto simp: x split: if_splits)
  next
    fix i assume i: "i < NBUF" "(H(w \<mapsto> b)) (b_blockno ((bs(b := x)) i)) \<noteq> Some i"
    then have "i \<noteq> b" by (auto simp: x)
    moreover have "H (b_blockno (bs i)) \<noteq> Some i"
      using i D(11,12) [of "b_blockno (bs i)" i] w [OF i(1)] \<open>i \<noteq> b\<close> by (auto split: if_splits)
    ultimately show "sl_locked ((sl(Buf_lock b := lock_of pid (sl (Buf_lock b)))) (Buf_lock i)) = 0"
      using D(15) [OF i(1)] by simp
  qed (use D(7,9) in \<open>auto simp: x split: if_splits\<close>)
qed

subsection \<open>Specifications of the operations\<close>

definition cst ::
  "'z vstate_scheme \<Rightarrow> (nat \<Rightarrow> buf) \<Rightarrow> (slockid \<Rightarrow> sleeplock) \<Rightarrow> (nat \<Rightarrow> uint8) \<Rightarrow> 'z vstate_scheme" where
  "cst T bs sl I = T\<lparr>slocks := sl, bufs := bs, image := I\<rparr>"

lemma cst_simps [simp]:
  "bufs (cst T bs sl I) = bs" "slocks (cst T bs sl I) = sl" "image (cst T bs sl I) = I"
  "procs (cst T bs sl I) = procs T"
  "(cst T bs sl I)\<lparr>bufs := bs'\<rparr> = cst T bs' sl I" "(cst T bs sl I)\<lparr>slocks := sl'\<rparr> = cst T bs sl' I"
  "(cst T bs sl I)\<lparr>image := I'\<rparr> = cst T bs sl I'"
  by (simp_all add: cst_def)

text \<open>The state of a process that holds no spinlock, with an idle driver and the cache as described.\<close>

definition fsc ::
  "nat \<Rightarrow> uint32 \<Rightarrow> (uint32 \<Rightarrow> uint8 list) \<Rightarrow> (nat \<Rightarrow> uint8) \<Rightarrow> (uint32 \<Rightarrow> nat) \<Rightarrow> (uint32 \<Rightarrow> nat option) \<Rightarrow>
   'z vstate_scheme \<Rightarrow> 'z vstate_scheme \<Rightarrow> bool" where
  "fsc p d V I R H T s \<longleftrightarrow> (\<exists>bs sl. calm p {} (cst T bs sl I) s \<and> bcache (p_pid (procs T p)) d V I R H bs sl)"

lemma fscI:
  "bcache (p_pid (procs T p)) d V I R H bs sl \<Longrightarrow> calm p {} (cst T bs sl I) s \<Longrightarrow> fsc p d V I R H T s"
  unfolding fsc_def by blast

lemma ok_triple: "triple P m Q \<Longrightarrow> ok f 0 P m Q C"
  by (rule ok_nowait) (rule tripleD)

lemma ok_fscI:
  assumes "\<And>bs sl. bcache (p_pid (procs T p)) d V I R H bs sl \<Longrightarrow> ok f k (calm p {} (cst T bs sl I)) m Q C"
  shows "ok f k (fsc p d V I R H T) m Q C"
  using assms unfolding ok_def fsc_def by blast

lemma triple_of_loop: "triple P (of_loop (Some x)) (\<lambda>y s. y = x \<and> P s)"
  by (rule tripleI) simp

lemma bget_hit:
  assumes "dlist bs xs" "find (\<lambda>b. b_dev (bs b) = d \<and> b_blockno (bs b) = w) xs = Some b" "sl_locked (sl (Buf_lock b)) = 0"
  shows "triple (calm p {} (cst T bs sl I)) (bget d w) (\<lambda>x s. x = b \<and> calm p {}
     (cst T (bs(b := (bs b)\<lparr>b_refcnt := b_refcnt (bs b) + 1\<rparr>))
       (sl(Buf_lock b := lock_of (p_pid (procs T p)) (sl (Buf_lock b)))) I) s)"
proof -
  let ?S = "cst T (bs(b := (bs b)\<lparr>b_refcnt := b_refcnt (bs b) + 1\<rparr>)) sl I"
  have a: "triple (calm p {} ?S) (acquiresleep (Buf_lock b)) (\<lambda>x s. x = () \<and> calm p {}
     (cst T (bs(b := (bs b)\<lparr>b_refcnt := b_refcnt (bs b) + 1\<rparr>))
       (sl(Buf_lock b := lock_of (p_pid (procs T p)) (sl (Buf_lock b)))) I) s)"
    using acquiresleep_triple [of ?S "Buf_lock b" p] assms(3) by (simp add: lock_of_def)
  have u: "triple (calm p {Bcache_lock} (cst T bs sl I)) (upd_buf b (\<lambda>x. x\<lparr>b_refcnt := b_refcnt x + 1\<rparr>))
      (\<lambda>x s. x = () \<and> calm p {Bcache_lock} ?S s)"
    using calm_triples(5) [of p "{Bcache_lock}" "cst T bs sl I" b "\<lambda>x. x\<lparr>b_refcnt := b_refcnt x + 1\<rparr>"] by simp
  have r: "triple (calm p {Bcache_lock} ?S) (release Bcache_lock) (\<lambda>x s. x = () \<and> calm p {} ?S s)"
    using calm_triples(2) [of Bcache_lock "{Bcache_lock}" p ?S] by simp
  show ?thesis
    unfolding bget_def
    apply (rule triple_step [OF calm_triples(1)], simp)
    apply (rule triple_step [OF calm_triples(4)])
    apply (simp only: cst_simps dlist_scan [OF assms(1)] assms(2))
    apply (rule triple_step [OF triple_of_loop])
    apply (simp only: option.case)
    apply (rule triple_step [OF u], rule triple_step [OF r], rule triple_step [OF a], rule triple_return, simp)
    done
qed

lemma bget_miss:
  assumes "dlist bs xs" "find (\<lambda>b. b_dev (bs b) = d \<and> b_blockno (bs b) = w) xs = None"
    "find (\<lambda>b. b_refcnt (bs b) = 0) (rev xs) = Some b" "sl_locked (sl (Buf_lock b)) = 0"
  shows "triple (calm p {} (cst T bs sl I)) (bget d w) (\<lambda>x s. x = b \<and> calm p {}
     (cst T (bs(b := (bs b)\<lparr>b_dev := d, b_blockno := w, b_valid := 0, b_refcnt := 1\<rparr>))
       (sl(Buf_lock b := lock_of (p_pid (procs T p)) (sl (Buf_lock b)))) I) s)"
proof -
  let ?S = "cst T (bs(b := (bs b)\<lparr>b_dev := d, b_blockno := w, b_valid := 0, b_refcnt := 1\<rparr>)) sl I"
  have a: "triple (calm p {} ?S) (acquiresleep (Buf_lock b)) (\<lambda>x s. x = () \<and> calm p {}
     (cst T (bs(b := (bs b)\<lparr>b_dev := d, b_blockno := w, b_valid := 0, b_refcnt := 1\<rparr>))
       (sl(Buf_lock b := lock_of (p_pid (procs T p)) (sl (Buf_lock b)))) I) s)"
    using acquiresleep_triple [of ?S "Buf_lock b" p] assms(4) by (simp add: lock_of_def)
  have u: "triple (calm p {Bcache_lock} (cst T bs sl I))
      (upd_buf b (\<lambda>x. x\<lparr>b_dev := d, b_blockno := w, b_valid := 0, b_refcnt := 1\<rparr>))
      (\<lambda>x s. x = () \<and> calm p {Bcache_lock} ?S s)"
    using calm_triples(5) [of p "{Bcache_lock}" "cst T bs sl I" b "\<lambda>x. x\<lparr>b_dev := d, b_blockno := w, b_valid := 0, b_refcnt := 1\<rparr>"]
    by simp
  have r: "triple (calm p {Bcache_lock} ?S) (release Bcache_lock) (\<lambda>x s. x = () \<and> calm p {} ?S s)"
    using calm_triples(2) [of Bcache_lock "{Bcache_lock}" p ?S] by simp
  show ?thesis
    unfolding bget_def
    apply (rule triple_step [OF calm_triples(1)], simp)
    apply (rule triple_step [OF calm_triples(4)])
    apply (simp only: cst_simps dlist_scan [OF assms(1)] assms(2))
    apply (rule triple_step [OF triple_of_loop])
    apply (simp only: option.case assms(3))
    apply (rule triple_step [OF triple_of_loop])
    apply (simp only: option.case)
    apply (rule triple_step [OF u], rule triple_step [OF r], rule triple_step [OF a], rule triple_return, simp)
    done
qed

lemma ok_step:
  assumes "ok f k P m (\<lambda>x s. x = v \<and> R s) C" "ok f l R (g v) Q C" "k + l \<le> n"
  shows "ok f n P (bind m g) Q C"
proof -
  have "ok f (k + l) P (bind m g) Q C"
    by (rule ok_bind [OF assms(1)]) (use assms(2) in \<open>auto simp: ok_def\<close>)
  then show ?thesis by (rule ok_conseq) (use assms(3) in auto)
qed

lemma ok_weaken: "ok f k P m Q C \<Longrightarrow> (\<And>x s. Q x s \<Longrightarrow> Q' x s) \<Longrightarrow> (\<And>t. C t \<Longrightarrow> C' t) \<Longrightarrow> k \<le> l \<Longrightarrow> ok f l P m Q' C'"
  by (rule ok_conseq)

lemma free_buffer:
  assumes c: "bcache pid d V I R H bs sl" and "card {v. 0 < R v} < NBUF"
  shows "\<exists>b < NBUF. b_refcnt (bs b) = 0"
proof (rule ccontr)
  assume n: "\<not> ?thesis"
  note D = bcacheD [OF c]
  have d: "b_dev (bs b) = d" if "b < NBUF" for b using n D(7) that by blast
  have "inj_on (\<lambda>b. b_blockno (bs b)) {..<NBUF}" using D(3) d by (auto intro: inj_onI)
  moreover have "(\<lambda>b. b_blockno (bs b)) ` {..<NBUF} \<subseteq> {v. 0 < R v}"
  proof (rule image_subsetI)
    fix b assume b: "b \<in> {..<NBUF}"
    then have "unat (b_refcnt (bs b)) \<noteq> 0" using n by (auto simp: unat_eq_0)
    then show "b_blockno (bs b) \<in> {v. 0 < R v}" using D(6) [of b] d b by auto
  qed
  ultimately have "NBUF \<le> card {v. 0 < R v}" using card_inj_on_le [of _ "{..<NBUF}"] by fastforce
  then show False using assms(2) by simp
qed

lemma bcache_unlocked:
  assumes c: "bcache pid d V I R H bs sl" and "b < NBUF" "b_refcnt (bs b) = 0"
  shows "sl_locked (sl (Buf_lock b)) = 0"
proof (rule bcacheD(15) [OF c assms(2)])
  show "H (b_blockno (bs b)) \<noteq> Some b"
    using bcacheD(6,11,13) [OF c] assms(2,3) by fastforce
qed

lemma ok_bread_hit:
  assumes c: "bcache (p_pid (procs T p)) d V I R H bs sl" and xs: "dlist bs xs"
    and b: "find (\<lambda>b. b_dev (bs b) = d \<and> b_blockno (bs b) = w) xs = Some b"
    and w: "H w = None" "R w + 1 < 2 ^ 32"
  shows "ok f 1 (calm p {} (cst T bs sl I)) (bread d w)
     (\<lambda>b. fsc p d V I (R(w := R w + 1)) (H(w \<mapsto> b)) T) C"
proof -
  have b': "b < NBUF" "b_dev (bs b) = d" "b_blockno (bs b) = w"
    using b xs by (auto simp: find_Some_iff dlist_def)
  let ?r = "b_refcnt (bs b) + 1"
  let ?bs = "bs(b := (bs b)\<lparr>b_refcnt := ?r\<rparr>)"
  let ?sl = "sl(Buf_lock b := lock_of (p_pid (procs T p)) (sl (Buf_lock b)))"
  have l: "sl_locked (sl (Buf_lock b)) = 0" using bcacheD(15) [OF c b'(1)] b'(3) w(1) by simp
  have r: "unat ?r = R w + 1" using bcacheD(6) [OF c b'(1,2)] b'(3) w(2) by (simp add: unat_inc)
  have v: "b_valid (?bs b) \<noteq> 0" using bcacheD(4) [OF c b'(1,2)] by simp
  have "bcache (p_pid (procs T p)) d V I (R(w := unat ?r)) (H(w := Some b)) ?bs ?sl"
    by (rule bcache_ref [OF c b']) (simp_all add: r)
  then have "fsc p d V I (R(w := R w + 1)) (H(w \<mapsto> b)) T s" if "calm p {} (cst T ?bs ?sl I) s" for s
    using that unfolding fsc_def r by blast
  then have e: "triple (calm p {} (cst T ?bs ?sl I)) (return b) (\<lambda>b. fsc p d V I (R(w := R w + 1)) (H(w \<mapsto> b)) T)"
    by (rule triple_return)
  have g: "triple (calm p {} (cst T bs sl I)) (bget d w) (\<lambda>x s. x = b \<and> calm p {} (cst T ?bs ?sl I) s)"
    by (rule bget_hit [where xs = xs]) (fact xs b l)+
  show ?thesis
    unfolding bread_def
    apply (rule ok_weaken [OF ok_triple])
    apply (rule triple_step [OF g], rule triple_step [OF calm_triples(3)])
    apply (simp only: cst_simps v whenM_def if_False bind_return_left, rule e)
    apply simp_all
    done
qed

lemma ok_bread_miss:
  assumes dev: "virtio_device dev" and c: "bcache (p_pid (procs T p)) d V I R H bs sl" and xs: "dlist bs xs"
    and b: "find (\<lambda>b. b_dev (bs b) = d \<and> b_blockno (bs b) = w) xs = None"
      "find (\<lambda>b. b_refcnt (bs b) = 0) (rev xs) = Some b"
    and w: "unat w < 2 ^ 31"
  shows "ok (disk_turn dev p) 1 (calm p {} (cst T bs sl I)) (bread d w)
     (\<lambda>b. fsc p d V I (R(w := R w + 1)) (H(w \<mapsto> b)) T) (\<lambda>t. image t = I)"
proof -
  have b': "b < NBUF" "b_refcnt (bs b) = 0" using b(2) xs by (auto simp: find_Some_iff dlist_def) (metis lessThan_iff nth_mem set_rev length_rev)
  have n: "\<And>i. i < NBUF \<Longrightarrow> \<not> (b_dev (bs i) = d \<and> b_blockno (bs i) = w)"
    using b(1) xs by (auto simp: find_None_iff dlist_def)
  have l: "sl_locked (sl (Buf_lock b)) = 0" by (rule bcache_unlocked [OF c b'])
  let ?x = "(bs b)\<lparr>b_dev := d, b_blockno := w, b_valid := 0, b_refcnt := 1\<rparr>"
  let ?y = "?x\<lparr>b_data := disk_block I (unat w), b_disk := 0\<rparr>"
  let ?z = "?y\<lparr>b_valid := 1\<rparr>"
  let ?sl = "sl(Buf_lock b := lock_of (p_pid (procs T p)) (sl (Buf_lock b)))"
  let ?S = "cst T (bs(b := ?x)) ?sl I"
  have R: "R w = 0" using bcacheD(8) [OF c, of w] n by blast
  have g: "triple (calm p {} (cst T bs sl I)) (bget d w) (\<lambda>x s. x = b \<and> calm p {} ?S s)"
    by (rule bget_miss [where xs = xs]) (fact xs b l)+
  have rw: "ok (disk_turn dev p) 1 (calm p {} ?S) (virtio_disk_rw b False)
      (\<lambda>x s. x = () \<and> calm p {} (cst T (bs(b := ?y)) ?sl I) s) (\<lambda>t. image t = I)"
  proof -
    have "rw_result b False (unat w) ?S = cst T (bs(b := ?y)) ?sl I" by (simp add: rw_result_def cst_def)
    then show ?thesis using ok_virtio_disk_rw [OF dev, of ?S b p False] w by simp
  qed
  have u: "triple (calm p {} (cst T (bs(b := ?y)) ?sl I)) (upd_buf b (\<lambda>x. x\<lparr>b_valid := 1\<rparr>))
      (\<lambda>x s. x = () \<and> calm p {} (cst T (bs(b := ?z)) ?sl I) s)"
    using calm_triples(5) [of p "{}" "cst T (bs(b := ?y)) ?sl I" b "\<lambda>x. x\<lparr>b_valid := 1\<rparr>"] by simp
  have "bcache (p_pid (procs T p)) d V I (R(w := 1)) (H(w \<mapsto> b)) (bs(b := ?z)) ?sl"
    by (rule bcache_recycle [OF c b' n, where z = 0]) simp_all
  then have "fsc p d V I (R(w := R w + 1)) (H(w \<mapsto> b)) T s" if "calm p {} (cst T (bs(b := ?z)) ?sl I) s" for s
    using that unfolding fsc_def by (auto simp: R)
  then have e: "triple (calm p {} (cst T (bs(b := ?z)) ?sl I)) (return b) (\<lambda>b. fsc p d V I (R(w := R w + 1)) (H(w \<mapsto> b)) T)"
    by (rule triple_return)
  have m: "ok (disk_turn dev p) 1 (calm p {} ?S) (bind (virtio_disk_rw b False) (\<lambda>_. upd_buf b (\<lambda>x. x\<lparr>b_valid := 1\<rparr>)))
      (\<lambda>x s. x = () \<and> calm p {} (cst T (bs(b := ?z)) ?sl I) s) (\<lambda>t. image t = I)"
    by (rule ok_step [OF rw ok_triple [OF u]]) simp
  have v: "b_valid ((bs(b := ?x)) b) = 0" by simp
  show ?thesis
    unfolding bread_def
    apply (rule ok_step [OF ok_triple [OF g], where l = 1])
     apply (rule ok_step [OF ok_triple [OF calm_triples(3)], where l = 1])
      apply (simp only: cst_simps v whenM_def if_True simp_thms)
      apply (rule ok_step [OF m ok_triple [OF e]])
    by simp_all
qed

text \<open>\<open>bread\<close>: the block as the cache has it, locked and with one more reference.\<close>

lemma ok_bread:
  assumes dev: "virtio_device dev" and w: "H w = None" "R w + 1 < 2 ^ 32" "unat w < 2 ^ 31"
    and n: "0 < R w \<or> card {v. 0 < R v} < NBUF"
  shows "ok (disk_turn dev p) 1 (fsc p d V I R H T) (bread d w)
     (\<lambda>b. fsc p d V I (R(w := R w + 1)) (H(w \<mapsto> b)) T) (\<lambda>t. image t = I)"
proof (rule ok_fscI)
  fix bs sl
  assume c: "bcache (p_pid (procs T p)) d V I R H bs sl"
  then obtain xs where xs: "dlist bs xs" using bcacheD(1) by blast
  show "ok (disk_turn dev p) 1 (calm p {} (cst T bs sl I)) (bread d w)
     (\<lambda>b. fsc p d V I (R(w := R w + 1)) (H(w \<mapsto> b)) T) (\<lambda>t. image t = I)"
  proof (cases "find (\<lambda>b. b_dev (bs b) = d \<and> b_blockno (bs b) = w) xs")
    case (Some b)
    then show ?thesis by (rule ok_bread_hit [OF c xs _ w(1,2)])
  next
    case None
    then have "R w = 0" using bcacheD(8) [OF c, of w] xs by (fastforce simp: find_None_iff dlist_def)
    then obtain i where i: "i < NBUF" "b_refcnt (bs i) = 0" using free_buffer [OF c] n by auto
    then have "find (\<lambda>b. b_refcnt (bs b) = 0) (rev xs) \<noteq> None"
      using xs by (auto simp: find_None_iff dlist_def)
    then obtain b where "find (\<lambda>b. b_refcnt (bs b) = 0) (rev xs) = Some b" by blast
    with None show ?thesis by (rule ok_bread_miss [OF dev c xs _ _ w(3)])
  qed
qed

text \<open>Reading and changing the contents of a locked buffer.\<close>

lemma triple_fscI:
  assumes "\<And>bs sl. bcache (p_pid (procs T p)) d V I R H bs sl \<Longrightarrow> triple (calm p {} (cst T bs sl I)) m Q"
  shows "triple (fsc p d V I R H T) m Q"
  using assms unfolding triple_def fsc_def by blast

lemma fsc_data:
  assumes "H w = Some b"
  shows "triple (fsc p d V I R H T) (get_buf b b_data) (\<lambda>x s. x = V w \<and> fsc p d V I R H T s)"
proof (rule triple_fscI)
  fix bs sl
  assume c: "bcache (p_pid (procs T p)) d V I R H bs sl"
  have "b_data (bs b) = V w" using bcacheD(5) [OF c] bcacheD(10-12) [OF c assms] by simp
  then show "triple (calm p {} (cst T bs sl I)) (get_buf b b_data) (\<lambda>x s. x = V w \<and> fsc p d V I R H T s)"
    using c by (intro triple_last [OF calm_triples(3)]) (auto simp: fsc_def)
qed

lemma fsc_upd_data:
  assumes "H w = Some b" "length (g (V w)) = BSIZE"
  shows "triple (fsc p d V I R H T) (upd_buf b (\<lambda>x. x\<lparr>b_data := g (b_data x)\<rparr>))
     (\<lambda>x s. x = () \<and> fsc p d (V(w := g (V w))) I R H T s)"
proof (rule triple_fscI)
  fix bs sl
  assume c: "bcache (p_pid (procs T p)) d V I R H bs sl"
  have "b_data (bs b) = V w" using bcacheD(5) [OF c] bcacheD(10-12) [OF c assms(1)] by simp
  then have u: "triple (calm p {} (cst T bs sl I)) (upd_buf b (\<lambda>x. x\<lparr>b_data := g (b_data x)\<rparr>))
     (\<lambda>x s. x = () \<and> calm p {} (cst T (bs(b := (bs b)\<lparr>b_data := g (V w)\<rparr>)) sl I) s)"
    using calm_triples(5) [of p "{}" "cst T bs sl I" b "\<lambda>x. x\<lparr>b_data := g (b_data x)\<rparr>"] by simp
  show "triple (calm p {} (cst T bs sl I)) (upd_buf b (\<lambda>x. x\<lparr>b_data := g (b_data x)\<rparr>))
     (\<lambda>x s. x = () \<and> fsc p d (V(w := g (V w))) I R H T s)"
    by (rule triple_last [OF u]) (use bcache_data [OF c assms] in \<open>auto simp: fsc_def\<close>)
qed

lemma fsc_blockno:
  assumes "H w = Some b"
  shows "triple (fsc p d V I R H T) (get_buf b b_blockno) (\<lambda>x s. x = w \<and> fsc p d V I R H T s)"
proof (rule triple_fscI)
  fix bs sl
  assume c: "bcache (p_pid (procs T p)) d V I R H bs sl"
  have "b_blockno (bs b) = w" using bcacheD(12) [OF c assms] by simp
  then show "triple (calm p {} (cst T bs sl I)) (get_buf b b_blockno) (\<lambda>x s. x = w \<and> fsc p d V I R H T s)"
    using c by (intro triple_last [OF calm_triples(3)]) (auto simp: fsc_def)
qed

text \<open>\<open>bwrite\<close>: the block goes to the disk.\<close>

lemma ok_bwrite:
  assumes dev: "virtio_device dev" and b: "H w = Some b" and w: "unat w < 2 ^ 31"
  shows "ok (disk_turn dev p) 1 (fsc p d V I R H T) (bwrite b)
     (\<lambda>x s. x = () \<and> fsc p d V (put_block (unat w) (V w) I) R H T s) (\<lambda>t. image t = I)"
proof (rule ok_fscI)
  fix bs sl
  assume c: "bcache (p_pid (procs T p)) d V I R H bs sl"
  note D = bcacheD [OF c]
  have b': "b < NBUF" "b_blockno (bs b) = w" "taken_by (p_pid (procs T p)) (sl (Buf_lock b))" "b_data (bs b) = V w" "0 < R w"
    using D(10-14) [OF b] D(5) [of b] by simp_all
  let ?bs = "bs(b := (bs b)\<lparr>b_disk := 0\<rparr>)"
  let ?I = "put_block (unat w) (V w) I"
  have "rw_result b True (unat w) (cst T bs sl I) = cst T ?bs sl ?I"
    by (simp add: rw_result_def cst_def b'(4) [symmetric])
  then have rw: "ok (disk_turn dev p) 1 (calm p {} (cst T bs sl I)) (virtio_disk_rw b True)
      (\<lambda>_. calm p {} (cst T ?bs sl ?I)) (\<lambda>t. image t = I)"
    using ok_virtio_disk_rw [OF dev, of "cst T bs sl I" b p True] w b'(2) by simp
  obtain xs where "dlist bs xs" using D(1) by blast
  then have "dlist ?bs xs" by (subst dlist_cong [of _ bs]) auto
  from bcache_cong [OF bcache_disk [OF c b'(5) D(2)] this]
  have "bcache (p_pid (procs T p)) d V ?I R H ?bs sl" by simp
  then have e: "fsc p d V ?I R H T s" if "calm p {} (cst T ?bs sl ?I) s" for s using that unfolding fsc_def by blast
  have h: "triple (calm p {} (cst T bs sl I)) (holdingsleep (Buf_lock b)) (\<lambda>x s. x = True \<and> calm p {} (cst T bs sl I) s)"
    using holdingsleep_triple [of p "cst T bs sl I" "Buf_lock b"] b'(3) by simp
  show "ok (disk_turn dev p) 1 (calm p {} (cst T bs sl I)) (bwrite b)
     (\<lambda>x s. x = () \<and> fsc p d V ?I R H T s) (\<lambda>t. image t = I)"
    unfolding bwrite_def
    apply (rule ok_step [OF ok_triple [OF h], where l = 1])
     apply (simp only: simp_thms if_False)
     apply (rule ok_weaken [OF rw])
    by (simp_all add: e)
qed

lemma calm_upd_buf:
  "triple (calm p L (cst T bs sl I)) (upd_buf b g) (\<lambda>x s. x = () \<and> calm p L (cst T (bs(b := g (bs b))) sl I) s)"
  using calm_triples(5) [of p L "cst T bs sl I" b g] by simp

lemma calm_enter:
  "triple (calm p {} S) (acquire l) (\<lambda>x s. x = () \<and> calm p {l} S s)"
  "triple (calm p {l} S) (release l) (\<lambda>x s. x = () \<and> calm p {} S s)"
  using calm_triples(1) [of l "{}" p S] calm_triples(2) [of l "{l}" p S] by simp_all

text \<open>\<open>bunpin\<close>.\<close>

lemma calm_ref:
  "triple (calm p {} (cst T bs sl I)) (bind (acquire Bcache_lock) (\<lambda>_. bind (upd_buf b g) (\<lambda>_. release Bcache_lock)))
     (\<lambda>x s. x = () \<and> calm p {} (cst T (bs(b := g (bs b))) sl I) s)"
  by (rule triple_step [OF calm_enter(1)], rule triple_step [OF calm_upd_buf], rule calm_enter(2))

lemma bcache_lock_same:
  assumes c: "bcache pid d V I R H bs sl" and b: "b < NBUF" "b_dev (bs b) = d" "b_blockno (bs b) = w"
  shows "H w = Some b \<and> taken_by pid (sl (Buf_lock b)) \<or> H w = None \<and> sl_locked (sl (Buf_lock b)) = 0"
proof (cases "H w")
  case None
  then show ?thesis using bcacheD(15) [OF c b(1)] b(3) by simp
next
  case (Some i)
  then have "i = b" using bcacheD(3) [OF c] bcacheD(10-12) [OF c Some] b by blast
  then show ?thesis using Some bcacheD(14) [OF c Some] by simp
qed

definition cached :: "nat \<Rightarrow> uint32 \<Rightarrow> uint32 \<Rightarrow> 'z vstate_scheme \<Rightarrow> bool" where
  "cached b d w s \<longleftrightarrow> b < NBUF \<and> b_dev (bufs s b) = d \<and> b_blockno (bufs s b) = w"

lemma fsc_held_cached:
  assumes "fsc p d V I R H T s" "H w = Some b"
  shows "cached b d w s"
proof -
  obtain bs sl where s: "calm p {} (cst T bs sl I) s" and c: "bcache (p_pid (procs T p)) d V I R H bs sl"
    using assms(1) unfolding fsc_def by blast
  then show ?thesis
    using bcacheD(10-12) [OF c assms(2)] vsim_fields(1) [OF calm_vsim [OF s]] by (simp add: cached_def)
qed

lemma unat_dec: "(x :: uint32) \<noteq> 0 \<Longrightarrow> unat (x - 1) = unat x - 1"
  by (metis unat_minus_one)

lemma fsc_bunpin:
  assumes b: "H w = Some b" and w: "1 < R w"
  shows "triple (fsc p d V I R H T) (bunpin b) (\<lambda>x s. x = () \<and> fsc p d V I (R(w := R w - 1)) H T s)"
proof (rule triple_fscI)
  fix bs sl
  assume c: "bcache (p_pid (procs T p)) d V I R H bs sl"
  note B = bcacheD(10-14) [OF c b]
  let ?r = "b_refcnt (bs b) - 1"
  have n: "unat (b_refcnt (bs b)) = R w" using bcacheD(6) [OF c B(1,2)] B(3) by simp
  then have "b_refcnt (bs b) \<noteq> 0" using w by auto
  then have r: "unat ?r = R w - 1" using n by (simp add: unat_dec)
  have "bcache (p_pid (procs T p)) d V I (R(w := unat ?r)) (H(w := Some b)) (bs(b := (bs b)\<lparr>b_refcnt := ?r\<rparr>))
      (sl(Buf_lock b := sl (Buf_lock b)))"
    using B(5) w by (intro bcache_ref [OF c B(1-3)]) (simp_all add: r)
  then have "bcache (p_pid (procs T p)) d V I (R(w := R w - 1)) H (bs(b := (bs b)\<lparr>b_refcnt := ?r\<rparr>)) sl"
    using b by (simp add: r fun_upd_idem)
  note e = fscI [OF this]
  show "triple (calm p {} (cst T bs sl I)) (bunpin b) (\<lambda>x s. x = () \<and> fsc p d V I (R(w := R w - 1)) H T s)"
    unfolding bunpin_def by (rule triple_last [OF calm_ref], intro conjI refl, erule e)
qed

text \<open>\<open>brelse\<close>: the lock and one reference go; an unused buffer moves to the front of the list.\<close>

lemma calm_front:
  "triple (calm p L (cst T bs sl I)) (move_to_front b) (\<lambda>x s. x = () \<and> calm p L (cst T (front b bs) sl I) s)"
  using calm_triples(11) [of p L "cst T bs sl I" b] by simp

lemma fsc_brelse:
  assumes b: "H w = Some b" and w: "R w = 1 \<Longrightarrow> V w = disk_block I (unat w)"
  shows "triple (fsc p d V I R H T) (brelse b) (\<lambda>x s. x = () \<and> fsc p d V I (R(w := R w - 1)) (H(w := None)) T s)"
proof (rule triple_fscI)
  fix bs sl
  assume c: "bcache (p_pid (procs T p)) d V I R H bs sl"
  note B = bcacheD(10-14) [OF c b]
  let ?r = "b_refcnt (bs b) - 1"
  let ?bs = "bs(b := (bs b)\<lparr>b_refcnt := ?r\<rparr>)" and ?sl = "sl(Buf_lock b := unlock_of (sl (Buf_lock b)))"
  have n: "unat (b_refcnt (bs b)) = R w" using bcacheD(6) [OF c B(1,2)] B(3) by simp
  then have "b_refcnt (bs b) \<noteq> 0" using B(4) by auto
  then have r: "unat ?r = R w - 1" using n by (simp add: unat_dec)
  have 1: "bcache (p_pid (procs T p)) d V I (R(w := R w - 1)) (H(w := None)) ?bs ?sl"
    unfolding r [symmetric] by (rule bcache_ref [OF c B(1-3)]) (use w r B(4) in auto)
  then obtain xs where "dlist ?bs xs" using bcacheD(1) by blast
  from bcache_cong [OF 1 dlist_front [OF this B(1)]]
  have 2: "bcache (p_pid (procs T p)) d V I (R(w := R w - 1)) (H(w := None)) (front b ?bs) ?sl" by simp
  have h: "triple (calm p {} (cst T bs sl I)) (holdingsleep (Buf_lock b)) (\<lambda>x s. x = True \<and> calm p {} (cst T bs sl I) s)"
    using holdingsleep_triple [of p "cst T bs sl I" "Buf_lock b"] B(5) by simp
  have l: "triple (calm p {} (cst T bs sl I)) (releasesleep (Buf_lock b)) (\<lambda>x s. x = () \<and> calm p {} (cst T bs ?sl I) s)"
    using releasesleep_triple [of p "cst T bs sl I" "Buf_lock b"] by (simp add: unlock_of_def)
  have u: "triple (calm p {Bcache_lock} (cst T bs ?sl I)) (upd_buf b (\<lambda>x. x\<lparr>b_refcnt := b_refcnt x - 1\<rparr>))
      (\<lambda>x s. x = () \<and> calm p {Bcache_lock} (cst T ?bs ?sl I) s)"
    by (rule calm_upd_buf)
  have m: "triple (calm p {Bcache_lock} (cst T ?bs ?sl I))
      (bind (whenM z (move_to_front b)) (\<lambda>_. release Bcache_lock))
      (\<lambda>x s. x = () \<and> fsc p d V I (R(w := R w - 1)) (H(w := None)) T s)" for z
  proof (cases z)
    case True
    show ?thesis
      unfolding whenM_def if_P [OF True]
      by (rule triple_step [OF calm_front], rule triple_last [OF calm_enter(2)], intro conjI refl, erule fscI [OF 2])
  next
    case False
    show ?thesis
      unfolding whenM_def if_not_P [OF False] bind_return_left
      by (rule triple_last [OF calm_enter(2)], intro conjI refl, erule fscI [OF 1])
  qed
  show "triple (calm p {} (cst T bs sl I)) (brelse b) (\<lambda>x s. x = () \<and> fsc p d V I (R(w := R w - 1)) (H(w := None)) T s)"
    unfolding brelse_def
    apply (rule triple_step [OF h])
    apply (simp only: simp_thms if_False)
    apply (rule triple_step [OF l], rule triple_step [OF calm_enter(1)], rule triple_step [OF u],
        rule triple_step [OF calm_triples(3)], rule m)
    done
qed

lemma ok_thenI:
  assumes "ok f k P m R C" "\<And>x. ok f l (R x) (g x) Q C" "k + l \<le> n"
  shows "ok f n P (bind m g) Q C"
  using ok_bind [OF assms(1,2)] by (rule ok_conseq) (use assms(3) in auto)

lemma ok_then_triple:
  assumes "triple P m (\<lambda>x s. x = v \<and> R s)" "ok f n R (g v) Q C"
  shows "ok f n P (bind m g) Q C"
  by (rule ok_step [where v = v and R = R, OF ok_triple [OF assms(1)]], rule assms(2)) simp

lemma ok_pre:
  assumes "\<And>s. P s \<Longrightarrow> A" "A \<Longrightarrow> ok f n P m Q C"
  shows "ok f n P m Q C"
  using assms unfolding ok_def by blast

lemma put_other: "unat (v :: uint32) \<noteq> unat w \<longleftrightarrow> v \<noteq> w"
  by (simp add: word_unat_eq_iff)

lemma disk_block_put_word:
  "length bs = BSIZE \<Longrightarrow> disk_block (put_block (unat (w :: uint32)) bs I) (unat v) = (if v = w then bs else disk_block I (unat v))"
  by (simp add: disk_block_put word_unat_eq_iff)

lemma fsc_clean:
  assumes "fsc p d V I R H T s" "R w = 0"
  shows "V w = disk_block I (unat w)"
  using assms bcacheD(9) unfolding fsc_def by blast

lemma fsc_length: "fsc p d V I R H T s \<Longrightarrow> length (V w) = BSIZE"
  using bcacheD(2) unfolding fsc_def by blast

subsection \<open>The interface of the cache\<close>

text \<open>
  What the code above the cache relies on. \<open>inv V I R H\<close> describes a state by the contents
  of the blocks, the disk, the references and the locked buffers; \<open>turn\<close> is what the rest of
  the machine does while a request is pending.
\<close>

locale block_cache =
  fixes turn :: "'s \<Rightarrow> 's" and disk_of :: "'s \<Rightarrow> nat \<Rightarrow> uint8"
    and inv :: "(uint32 \<Rightarrow> uint8 list) \<Rightarrow> (nat \<Rightarrow> uint8) \<Rightarrow> (uint32 \<Rightarrow> nat) \<Rightarrow> (uint32 \<Rightarrow> nat option) \<Rightarrow> 's \<Rightarrow> bool"
    and rd :: "uint32 \<Rightarrow> ('s, nat) M" and get :: "nat \<Rightarrow> ('s, uint8 list) M"
    and upd :: "nat \<Rightarrow> (uint8 list \<Rightarrow> uint8 list) \<Rightarrow> ('s, unit) M"
    and wr :: "nat \<Rightarrow> ('s, unit) M" and rel :: "nat \<Rightarrow> ('s, unit) M"
  assumes rd_law: "H w = None \<Longrightarrow> R w + 1 < 2 ^ 32 \<Longrightarrow> unat w < 2 ^ 31 \<Longrightarrow> 0 < R w \<or> card {v. 0 < R v} < NBUF \<Longrightarrow>
      ok turn 1 (inv V I R H) (rd w) (\<lambda>b. inv V I (R(w := R w + 1)) (H(w \<mapsto> b))) (\<lambda>t. disk_of t = I)"
    and get_law: "H w = Some b \<Longrightarrow> triple (inv V I R H) (get b) (\<lambda>x s. x = V w \<and> inv V I R H s)"
    and upd_law: "H w = Some b \<Longrightarrow> length (g (V w)) = BSIZE \<Longrightarrow>
      triple (inv V I R H) (upd b g) (\<lambda>x s. x = () \<and> inv (V(w := g (V w))) I R H s)"
    and wr_law: "H w = Some b \<Longrightarrow> unat w < 2 ^ 31 \<Longrightarrow>
      ok turn 1 (inv V I R H) (wr b) (\<lambda>x s. x = () \<and> inv V (put_block (unat w) (V w) I) R H s) (\<lambda>t. disk_of t = I)"
    and rel_law: "H w = Some b \<Longrightarrow> (R w = 1 \<Longrightarrow> V w = disk_block I (unat w)) \<Longrightarrow>
      triple (inv V I R H) (rel b) (\<lambda>x s. x = () \<and> inv V I (R(w := R w - 1)) (H(w := None)) s)"
    and clean_law: "inv V I R H s \<Longrightarrow> R w = 0 \<Longrightarrow> V w = disk_block I (unat w)"
    and length_law: "inv V I R H s \<Longrightarrow> length (V w) = BSIZE"
begin

text \<open>Reading a block gives its contents and leaves everything as it was.\<close>

lemma read_block:
  assumes "H w = None" "R w + 1 < 2 ^ 32" "unat w < 2 ^ 31" "0 < R w \<or> card {v. 0 < R v} < NBUF"
  shows "ok turn 1 (inv V I R H) (bind (rd w) (\<lambda>b. bind (get b) (\<lambda>bs. bind (rel b) (\<lambda>_. return bs))))
     (\<lambda>bs s. bs = V w \<and> inv V I R H s) (\<lambda>t. disk_of t = I)"
proof (rule ok_pre [where A = "R w = 0 \<longrightarrow> V w = disk_block I (unat w)"])
  show "\<And>s. inv V I R H s \<Longrightarrow> R w = 0 \<longrightarrow> V w = disk_block I (unat w)" using clean_law by blast
  assume c: "R w = 0 \<longrightarrow> V w = disk_block I (unat w)"
  let ?P = "\<lambda>b. inv V I (R(w := R w + 1)) (H(w \<mapsto> b))"
  have r: "triple (?P b) (rel b) (\<lambda>x s. x = () \<and> inv V I R H s)" for b
    using rel_law [of "H(w \<mapsto> b)" w b "R(w := R w + 1)" V I] c assms(1) by (simp add: fun_upd_idem)
  have g: "triple (?P b) (get b) (\<lambda>x s. x = V w \<and> ?P b s)" for b by (rule get_law) simp
  show "ok turn 1 (inv V I R H) (bind (rd w) (\<lambda>b. bind (get b) (\<lambda>bs. bind (rel b) (\<lambda>_. return bs))))
     (\<lambda>bs s. bs = V w \<and> inv V I R H s) (\<lambda>t. disk_of t = I)"
    by (rule ok_thenI [OF rd_law [of H w R V I, OF assms], where l = 0])
      (rule ok_then_triple [OF g], rule ok_then_triple [OF r], rule ok_triple [OF triple_return], simp_all)
qed

text \<open>
  Copying one locked block to another, on disk as well, with a step \<open>mid\<close> on the references
  before the two are released: the body of the loops of the log.
\<close>

lemma copy_block:
  assumes h: "H src = Some fr" "H dst = Some to" "src \<noteq> dst" "unat dst < 2 ^ 31"
    and c: "R src = 1 \<longrightarrow> V src = disk_block I (unat src)"
    and V': "V' = V(dst := V src)" and I': "I' = put_block (unat dst) (V src) I"
    and m: "triple (inv V' I' R H) mid (\<lambda>x s. x = () \<and> inv V' I' R1 H s)" "R1 src = R src"
    and R2: "R2 = R1(src := R1 src - 1, dst := R1 dst - 1)" and H2: "H2 = H(src := None, dst := None)"
  shows "ok turn 1 (inv V I R H)
     (bind (get fr) (\<lambda>bs. bind (upd to (\<lambda>_. bs)) (\<lambda>_. bind (wr to) (\<lambda>_. bind mid (\<lambda>_. bind (rel fr) (\<lambda>_. rel to))))))
     (\<lambda>x s. x = () \<and> inv V' I' R2 H2 s) (\<lambda>t. disk_of t = I)"
proof (rule ok_pre [OF length_law], assumption)
  assume len: "length (V src) = BSIZE"
  have g: "triple (inv V I R H) (get fr) (\<lambda>x s. x = V src \<and> inv V I R H s)" by (rule get_law [of H src fr, OF h(1)])
  have u: "triple (inv V I R H) (upd to (\<lambda>_. V src)) (\<lambda>x s. x = () \<and> inv V' I R H s)"
    using upd_law [of H dst to "\<lambda>_. V src" V I R] h(2) len by (simp add: V')
  have w: "ok turn 1 (inv V' I R H) (wr to) (\<lambda>x s. x = () \<and> inv V' I' R H s) (\<lambda>t. disk_of t = I)"
    using wr_law [of H dst to V' I R] h(2,4) by (simp add: V' I')
  have r1: "triple (inv V' I' R1 H) (rel fr) (\<lambda>x s. x = () \<and> inv V' I' (R1(src := R1 src - 1)) (H(src := None)) s)"
    using rel_law [of H src fr R1 V' I'] h(1,3) c m(2) len by (simp add: V' I' disk_block_put_word)
  have r2: "triple (inv V' I' (R1(src := R1 src - 1)) (H(src := None))) (rel to) (\<lambda>x s. x = () \<and> inv V' I' R2 H2 s)"
    using rel_law [of "H(src := None)" dst to "R1(src := R1 src - 1)" V' I'] h(2,3) len
    by (simp add: V' I' disk_block_put_word R2 H2)
  show "ok turn 1 (inv V I R H)
     (bind (get fr) (\<lambda>bs. bind (upd to (\<lambda>_. bs)) (\<lambda>_. bind (wr to) (\<lambda>_. bind mid (\<lambda>_. bind (rel fr) (\<lambda>_. rel to))))))
     (\<lambda>x s. x = () \<and> inv V' I' R2 H2 s) (\<lambda>t. disk_of t = I)"
    by (rule ok_then_triple [OF g], rule ok_then_triple [OF u], rule ok_step [OF w], rule ok_then_triple [OF m(1)],
        rule ok_then_triple [OF r1], rule ok_triple [OF r2]) simp
qed

end

lemma block_cache_fsc:
  fixes T :: "'z vstate_scheme"
  assumes "virtio_device dev"
  shows "block_cache (disk_turn dev p) image (\<lambda>V I R H. fsc p d V I R H T) (bread d) (\<lambda>b. get_buf b b_data)
     (\<lambda>b g. upd_buf b (\<lambda>x. x\<lparr>b_data := g (b_data x)\<rparr>)) bwrite brelse"
  by unfold_locales (fact ok_bread [OF assms] fsc_data fsc_upd_data ok_bwrite [OF assms] fsc_brelse fsc_clean fsc_length)+

interpretation blk: block_cache "disk_turn blk_device p" image "\<lambda>V I R H. fsc p d V I R H T" "bread d"
  "\<lambda>b. get_buf b b_data" "\<lambda>b g. upd_buf b (\<lambda>x. x\<lparr>b_data := g (b_data x)\<rparr>)" bwrite brelse
  for p d T
  by (rule block_cache_fsc [OF virtio_device_blk])

subsection \<open>Making the cache: \<open>binit\<close>\<close>

lemma triple_upto:
  assumes "\<And>i. m \<le> i \<Longrightarrow> i < n \<Longrightarrow> triple (P i) (body i) (\<lambda>_. P (Suc i))" "m \<le> n"
  shows "triple (P m) (for_each [m..<n] body) (\<lambda>_. P n)"
  using assms
proof (induction "n - m" arbitrary: m)
  case 0
  then show ?case by (simp add: triple_def)
next
  case (Suc k)
  then have "[m..<n] = m # [Suc m..<n]" by (simp add: upt_conv_Cons)
  moreover have "triple (P (Suc m)) (for_each [Suc m..<n] body) (\<lambda>_. P n)"
    using Suc.hyps(1) [of "Suc m"] Suc.hyps(2) Suc.prems by simp
  ultimately show ?case
    using Suc.prems(1) [of m] Suc.hyps(2) by (simp only: for_each.simps) (rule triple_bind, auto)
qed

definition linked :: "nat \<Rightarrow> (nat \<Rightarrow> buf) \<Rightarrow> bool" where
  "linked k bs \<longleftrightarrow> lnk (b_next \<circ> bs) (b_prev \<circ> bs) bhead (rev [0..<k]) bhead"

definition blank :: "uint32 \<Rightarrow> (nat \<Rightarrow> buf) \<Rightarrow> bool" where
  "blank d bs \<longleftrightarrow> (\<forall>b < NBUF. b_dev (bs b) \<noteq> d \<and> b_refcnt (bs b) = 0)"

definition init_upto :: "uint32 \<Rightarrow> (nat \<Rightarrow> uint8) \<Rightarrow> nat \<Rightarrow> 'z vstate_scheme \<Rightarrow> bool" where
  "init_upto d I k s \<longleftrightarrow> linked k (bufs s) \<and> blank d (bufs s) \<and> (\<forall>b < k. sl_locked (slocks s (Buf_lock b)) = 0) \<and> image s = I"

lemma linked_insert:
  assumes "linked k bs" "k < NBUF"
  defines "f \<equiv> b_next (bs bhead)"
  defines "bs1 \<equiv> bs(k := (bs k)\<lparr>b_next := f, b_prev := bhead\<rparr>)"
  defines "bs2 \<equiv> bs1(f := (bs1 f)\<lparr>b_prev := k\<rparr>)"
  shows "linked (Suc k) (bs2(bhead := (bs2 bhead)\<lparr>b_next := k\<rparr>))"
proof -
  let ?bs = "bs2(bhead := (bs2 bhead)\<lparr>b_next := k\<rparr>)"
  have l: "lnk (b_next \<circ> bs) (b_prev \<circ> bs) bhead (rev [0..<k]) bhead" using assms(1) by (simp add: linked_def)
  have "f = (if k = 0 then bhead else k - 1)"
    using l by (cases k) (auto simp: f_def)
  then have ne: "f \<noteq> k" using assms(2) by (cases k) auto
  have n: "b_next \<circ> ?bs = (b_next \<circ> bs)(k := (b_next \<circ> bs) bhead, bhead := k)"
    using ne assms(2) by (auto simp: fun_eq_iff bs2_def bs1_def f_def)
  have p: "b_prev \<circ> ?bs = (b_prev \<circ> bs)(k := bhead, (b_next \<circ> bs) bhead := k)"
    using ne assms(2) by (auto simp: fun_eq_iff bs2_def bs1_def f_def)
  have "lnk (b_next \<circ> ?bs) (b_prev \<circ> ?bs) bhead (k # rev [0..<k]) bhead"
    unfolding n p by (rule lnk_insert [OF l]) (use assms(2) in auto)
  then show ?thesis by (simp add: linked_def)
qed

lemma binit_round:
  assumes "b < NBUF"
  shows "triple (init_upto d I b)
     (bind (get_buf bhead b_next) (\<lambda>first.
      bind (upd_buf b (\<lambda>x. x\<lparr>b_next := first, b_prev := bhead\<rparr>)) (\<lambda>_.
      bind (initsleeplock (Buf_lock b) ''buffer'') (\<lambda>_.
      bind (upd_buf first (\<lambda>x. x\<lparr>b_prev := b\<rparr>)) (\<lambda>_.
      upd_buf bhead (\<lambda>h. h\<lparr>b_next := b\<rparr>))))))
     (\<lambda>_. init_upto d I (Suc b))"
proof (rule tripleI)
  fix e s
  assume s: "init_upto d I b s"
  note l = linked_insert [of b "bufs s"]
  show "\<exists>x s'. bind (get_buf bhead b_next) (\<lambda>first.
      bind (upd_buf b (\<lambda>x. x\<lparr>b_next := first, b_prev := bhead\<rparr>)) (\<lambda>_.
      bind (initsleeplock (Buf_lock b) ''buffer'') (\<lambda>_.
      bind (upd_buf first (\<lambda>x. x\<lparr>b_prev := b\<rparr>)) (\<lambda>_.
      upd_buf bhead (\<lambda>h. h\<lparr>b_next := b\<rparr>))))) e s = Ret x e s' \<and> init_upto d I (Suc b) s'"
    using s l assms
    by (auto simp: get_buf_def upd_buf_def initsleeplock_def initlock_def upd_lock_def upd_slock_def init_upto_def blank_def less_Suc_eq)
qed

lemma triple_binit: "triple (\<lambda>s. blank d (bufs s) \<and> image s = I) binit (\<lambda>_. init_upto d I NBUF)"
proof -
  have 0: "triple (\<lambda>s. blank d (bufs s) \<and> image s = I)
      (bind (initlock Bcache_lock ''bcache'') (\<lambda>_. upd_buf bhead (\<lambda>h. h\<lparr>b_prev := bhead, b_next := bhead\<rparr>))) (\<lambda>_. init_upto d I 0)"
    by (rule tripleI) (auto simp: initlock_def upd_lock_def upd_buf_def init_upto_def linked_def blank_def)
  have "triple (init_upto d I 0) (for_each [0..<NBUF] (\<lambda>b.
       bind (get_buf bhead b_next) (\<lambda>first.
       bind (upd_buf b (\<lambda>x. x\<lparr>b_next := first, b_prev := bhead\<rparr>)) (\<lambda>_.
       bind (initsleeplock (Buf_lock b) ''buffer'') (\<lambda>_.
       bind (upd_buf first (\<lambda>x. x\<lparr>b_prev := b\<rparr>)) (\<lambda>_.
       upd_buf bhead (\<lambda>h. h\<lparr>b_next := b\<rparr>))))))) (\<lambda>_. init_upto d I NBUF)"
    by (rule triple_upto) (rule binit_round, simp_all)
  with 0 show ?thesis unfolding binit_def bind_assoc [symmetric] by (rule triple_bind)
qed

text \<open>
  C9. \<open>binit\<close> makes an empty cache. From the buffers as the kernel image has them, none of
  which belongs to the device, it returns, without waiting, in a state where the list of
  buffers is well linked and the invariant of the cache holds with every block as on disk, no
  references and no locks; the disk is as before.
\<close>

theorem binit_establishes:
  fixes s :: "'z vstate_scheme"
  assumes "\<forall>b < NBUF. b_dev (bufs s b) \<noteq> d \<and> b_refcnt (bufs s b) = 0"
  shows "\<exists>s'. binit e s = Ret () e s' \<and> image s' = image s \<and> dlist (bufs s') (rev [0..<NBUF]) \<and>
     bcache pid d (\<lambda>w. disk_block (image s) (unat w)) (image s) (\<lambda>_. 0) (\<lambda>_. None) (bufs s') (slocks s')"
proof -
  obtain s' where s': "binit e s = Ret () e s'" "init_upto d (image s) NBUF s'"
    using tripleD [OF triple_binit, of d s "image s" e] assms by (auto simp: blank_def)
  have dl: "dlist (bufs s') (rev [0..<NBUF])" using s'(2) by (auto simp: init_upto_def linked_def dlist_def)
  have "bcache pid d (\<lambda>w. disk_block (image s) (unat w)) (image s) (\<lambda>_. 0) (\<lambda>_. None) (bufs s') (slocks s')"
    by (rule bcacheI [OF dl]) (use s'(2) in \<open>auto simp: init_upto_def blank_def\<close>)
  then show ?thesis using s' dl by (auto simp: init_upto_def)
qed

theorem binit_establishes_witness:
  "\<exists>s'. binit [] vst0 = Ret () [] s' \<and> dlist (bufs s') (rev [0..<NBUF])"
  using binit_establishes [of vst0 1 "[]" 0]
  by (auto simp: vst0_def sst0_def sstate.defs pstate.defs vstate.defs buf0_def)

end
