(* ===== verification/Journal.thy ===== *)
theory Journal
  imports Log Bcache
begin

section \<open>Crash safety of the log\<close>

text \<open>
  What \<open>commit\<close> and \<open>recover_from_log\<close> do to the disk. The disk as recovery would leave it
  is a function of its contents, \<open>recovered\<close>: the blocks named by the log header have the
  contents of their copies in the log, all other blocks their own. \<open>commit\<close> moves this view
  from the old contents of the file system to the new ones in one step, the write of the
  header, and recovery never changes it; so that whatever the disk request at which the
  machine stops, after recovery all blocks of a transaction are there or none.
\<close>

subsection \<open>Words in a block\<close>

lemma length_put_list [simp]: "off + length ys \<le> length xs \<Longrightarrow> length (put_list off ys xs) = length xs"
  by (simp add: put_list_def)

lemma length_put_word [simp]: "off + 4 \<le> length bs \<Longrightarrow> length (put_word off w bs) = length bs"
  by (simp add: put_word_def)

lemma get_put_list_same: "off + length ys \<le> length xs \<Longrightarrow> take (length ys) (drop off (put_list off ys xs)) = ys"
  by (simp add: put_list_def)

lemma nth_put_list:
  assumes "off + length ys \<le> length xs"
  shows "put_list off ys xs ! i = (if off \<le> i \<and> i < off + length ys then ys ! (i - off) else xs ! i)"
proof (cases "i < off")
  case True
  then show ?thesis using assms by (simp add: put_list_def nth_append)
next
  case False
  then show ?thesis using assms by (auto simp: put_list_def nth_append min_absorb2 not_less)
qed

lemma get_put_list_other:
  assumes "off + length ys \<le> length xs" "a + n \<le> off \<or> off + length ys \<le> a" "a + n \<le> length xs"
  shows "take n (drop a (put_list off ys xs)) = take n (drop a xs)"
proof (rule nth_equalityI)
  show "length (take n (drop a (put_list off ys xs))) = length (take n (drop a xs))" using assms by simp
  fix i assume "i < length (take n (drop a (put_list off ys xs)))"
  then have i: "i < n" "a + i < length xs" using assms by simp_all
  then have "put_list off ys xs ! (a + i) = xs ! (a + i)" using assms by (subst nth_put_list) auto
  then show "take n (drop a (put_list off ys xs)) ! i = take n (drop a xs) ! i" using i assms by simp
qed

lemma get_put_word_same: "off + 4 \<le> length bs \<Longrightarrow> get_word (put_word off w bs) off = w"
  using get_put_list_same [of off "to_le 4 w" bs] by (simp add: get_word_def put_word_def of_le_to_le)

lemma get_put_word_other:
  "off + 4 \<le> length bs \<Longrightarrow> a + 4 \<le> length bs \<Longrightarrow> a + 4 \<le> off \<or> off + 4 \<le> a \<Longrightarrow>
     get_word (put_word off w bs) a = get_word bs a"
  using get_put_list_other [of off "to_le 4 w" bs a 4] by (simp add: get_word_def put_word_def)

subsection \<open>The log on disk\<close>

definition log_word :: "int \<Rightarrow> nat \<Rightarrow> uint32" where
  "log_word st i = of_int (st + int i + 1)"

definition hdr_word :: "int \<Rightarrow> uint32" where
  "hdr_word st = of_int st"

definition hdr_n :: "int \<Rightarrow> (nat \<Rightarrow> uint8) \<Rightarrow> int" where
  "hdr_n st I = sint (get_word (disk_block I (unat (hdr_word st))) 0)"

definition hdr_block :: "int \<Rightarrow> (nat \<Rightarrow> uint8) \<Rightarrow> nat \<Rightarrow> uint32" where
  "hdr_block st I i = get_word (disk_block I (unat (hdr_word st))) (4 + 4 * i)"

text \<open>The contents of a block as recovery leaves it.\<close>

definition recovered :: "int \<Rightarrow> (nat \<Rightarrow> uint8) \<Rightarrow> uint32 \<Rightarrow> uint8 list" where
  "recovered st I w = (case find (\<lambda>i. hdr_block st I i = w) [0..<nat (hdr_n st I)] of
      Some i \<Rightarrow> disk_block I (unat (log_word st i))
    | None \<Rightarrow> disk_block I (unat w))"

text \<open>
  The log on disk has \<open>LOGSIZE\<close> blocks (\<open>nlog\<close> of \<open>mkfs.c\<close>), of which the first is the header;
  the inode blocks follow it. \<open>log_write\<close> refuses a transaction that would need more.
\<close>

definition NLOG :: nat where
  "NLOG = LOGSIZE - 1"

lemma NLOG_le: "i < NLOG \<Longrightarrow> i < LOGSIZE" "n \<le> NLOG \<Longrightarrow> n \<le> LOGSIZE"
  by (simp_all add: NLOG_def)

definition log_area :: "int \<Rightarrow> uint32 set" where
  "log_area st = insert (hdr_word st) (log_word st ` {..<NLOG})"

text \<open>A position of the log for which block numbers do not wrap.\<close>

definition log_pos :: "int \<Rightarrow> bool" where
  "log_pos st \<longleftrightarrow> 0 \<le> st \<and> st + int NLOG + 1 < 2 ^ 31"

definition home_blocks :: "int \<Rightarrow> nat \<Rightarrow> (nat \<Rightarrow> uint32) \<Rightarrow> bool" where
  "home_blocks st n blk \<longleftrightarrow> n \<le> NLOG \<and> inj_on blk {..<n} \<and>
     (\<forall>i < n. blk i \<notin> log_area st \<and> unat (blk i) < 2 ^ 31)"

definition log_wf :: "int \<Rightarrow> (nat \<Rightarrow> uint8) \<Rightarrow> bool" where
  "log_wf st I \<longleftrightarrow> 0 \<le> hdr_n st I \<and> home_blocks st (nat (hdr_n st I)) (hdr_block st I)"

lemma unat_log_words:
  assumes "log_pos st"
  shows "i \<le> NLOG \<Longrightarrow> unat (log_word st i) = nat st + i + 1" "unat (hdr_word st) = nat st"
proof -
  have *: "unat (of_int x :: uint32) = nat x" if "0 \<le> x" "x < 2 ^ 32" for x
  proof -
    have "uint (of_int x :: uint32) = x" using that by (simp add: uint_word_of_int)
    then show ?thesis by (metis nat_uint_eq)
  qed
  show "unat (hdr_word st) = nat st" using assms unfolding hdr_word_def by (intro *) (auto simp: log_pos_def)
  show "unat (log_word st i) = nat st + i + 1" if "i \<le> NLOG"
  proof -
    have "unat (log_word st i) = nat (st + int i + 1)"
      unfolding log_word_def using assms that by (intro *) (auto simp: log_pos_def)
    then show ?thesis using assms by (simp add: log_pos_def nat_add_distrib)
  qed
qed

lemma log_words_small:
  assumes "log_pos st"
  shows "i < NLOG \<Longrightarrow> unat (log_word st i) < 2 ^ 31" "unat (hdr_word st) < 2 ^ 31"
  using assms unat_log_words [OF assms] by (auto simp: log_pos_def)

lemma log_words_neq:
  assumes "log_pos st"
  shows "i < NLOG \<Longrightarrow> log_word st i \<noteq> hdr_word st"
    "i < NLOG \<Longrightarrow> j < NLOG \<Longrightarrow> log_word st i = log_word st j \<longleftrightarrow> i = j"
  using unat_log_words [OF assms] by (force dest: arg_cong [where f = unat])+

lemma recovered_empty: "hdr_n st I = 0 \<Longrightarrow> recovered st I w = disk_block I (unat w)"
  by (simp add: recovered_def)

lemma find_inj:
  assumes "inj_on f {..<n}" "i < n"
  shows "find (\<lambda>j. f j = f i) [0..<n] = Some i"
proof -
  have "find (\<lambda>j. f j = f i) [0..<n] \<noteq> None" using assms(2) by (auto simp: find_None_iff)
  then obtain j where j: "find (\<lambda>j. f j = f i) [0..<n] = Some j" by blast
  then have "j < n" "f j = f i" by (auto simp: find_Some_iff)
  then show ?thesis using j assms by (auto simp: inj_on_def)
qed

lemma recovered_logged:
  assumes "log_wf st I" "i < nat (hdr_n st I)"
  shows "recovered st I (hdr_block st I i) = disk_block I (unat (log_word st i))"
  using assms find_inj [of "hdr_block st I" "nat (hdr_n st I)" i]
  by (simp add: recovered_def log_wf_def home_blocks_def)

lemma recovered_other:
  assumes "w \<notin> hdr_block st I ` {..<nat (hdr_n st I)}"
  shows "recovered st I w = disk_block I (unat w)"
proof -
  have "find (\<lambda>i. hdr_block st I i = w) [0..<nat (hdr_n st I)] = None"
    using assms by (auto simp: find_None_iff)
  then show ?thesis by (simp add: recovered_def)
qed

subsection \<open>The log in memory\<close>

lemma vsim_klog: "vsim s t \<Longrightarrow> klog s = klog t"
  unfolding vsim_def by (drule arg_cong [where f = klog]) (simp add: vstrip_def pstrip_def)

lemma klog_cst [simp]: "klog (cst T bs sl I) = klog T" "procs (T\<lparr>klog := k\<rparr>) = procs T"
  by (simp_all add: cst_def)

lemma cst_klog: "cst (T\<lparr>klog := k\<rparr>) bs sl I = (cst T bs sl I)\<lparr>klog := k\<rparr>"
  by (rule lstate.equality) (simp_all add: cst_def)

lemma calm_klog:
  assumes "calm p L S s"
  shows "calm p L (S\<lparr>klog := k\<rparr>) (s\<lparr>klog := k\<rparr>)"
proof -
  have "vstrip (u\<lparr>klog := k\<rparr>) = (vstrip u)\<lparr>klog := k\<rparr>" for u :: "'a lstate_scheme"
    by (rule lstate.equality) (simp_all add: vstrip_def pstrip_def)
  then have "vsim (s\<lparr>klog := k\<rparr>) (S\<lparr>klog := k\<rparr>)" using calm_vsim [OF assms] by (simp add: vsim_def)
  with assms show ?thesis by (auto simp: calm_def dcfg_def lh_def lock_free_def myid_def)
qed

lemma fsc_klog: "fsc p d V I R H T s \<Longrightarrow> klog s = klog T"
  unfolding fsc_def using vsim_klog [OF calm_vsim] klog_cst(1) by metis

lemma fsc_get_log: "triple (fsc p d V I R H T) (get_log f) (\<lambda>x s. x = f (klog T) \<and> fsc p d V I R H T s)"
  by (rule tripleI) (auto simp: get_log_def fsc_klog)

lemma fsc_upd_log:
  "triple (fsc p d V I R H T) (upd_log g) (\<lambda>x s. x = () \<and> fsc p d V I R H (T\<lparr>klog := g (klog T)\<rparr>) s)"
proof (rule tripleI)
  fix e s
  assume s: "fsc p d V I R H T s"
  then obtain bs sl where c: "calm p {} (cst T bs sl I) s" "bcache (p_pid (procs T p)) d V I R H bs sl"
    unfolding fsc_def by blast
  have "calm p {} (cst (T\<lparr>klog := g (klog T)\<rparr>) bs sl I) (s\<lparr>klog := g (klog s)\<rparr>)"
    using calm_klog [OF c(1), of "g (klog T)"] fsc_klog [OF s] by (simp add: cst_klog)
  then have "fsc p d V I R H (T\<lparr>klog := g (klog T)\<rparr>) (s\<lparr>klog := g (klog s)\<rparr>)"
    using c(2) by (intro fscI) simp_all
  then show "\<exists>x s'. upd_log g e s = Ret x e s' \<and> x = () \<and> fsc p d V I R H (T\<lparr>klog := g (klog T)\<rparr>) s'"
    by (simp add: upd_log_def)
qed

subsection \<open>Copying one block\<close>

definition log_one :: "nat \<Rightarrow> ('z lstate_scheme, unit) M" where
  "log_one tail =
     bind (get_log id) (\<lambda>l.
     bind (bread (of_int (lg_dev l)) (of_int (lg_start l + int tail + 1))) (\<lambda>to.
     bind (get_log id) (\<lambda>l.
     if tail \<ge> LOGSIZE then fault else
     bind (bread (of_int (lg_dev l)) (of_int (lh_block (lg_lh l) tail))) (\<lambda>from.
     bind (get_buf from b_data) (\<lambda>bs.
     bind (upd_buf to (\<lambda>x. x\<lparr>b_data := bs\<rparr>)) (\<lambda>_.
     bind (bwrite to) (\<lambda>_.
     bind (brelse from) (\<lambda>_.
     brelse to))))))))"

lemma write_log_one: "write_log = bind (get_log (\<lambda>l. lh_n (lg_lh l))) (\<lambda>n. for_each [0..<nat n] log_one)"
  unfolding write_log_def log_one_def ..

lemma card_insert_word: "card {v :: uint32. 0 < (R(w := x :: nat)) v} \<le> card {v. 0 < R v} + 1"
proof -
  have "{v. 0 < (R(w := x)) v} \<subseteq> insert w {v. 0 < R v}" by auto
  then have "card {v. 0 < (R(w := x)) v} \<le> card (insert w {v. 0 < R v})" by (intro card_mono) auto
  also have "\<dots> \<le> card {v. 0 < R v} + 1" by (simp add: card_insert_if)
  finally show ?thesis .
qed

lemma ok_log_one:
  fixes T :: "'z lstate_scheme"
  assumes dev: "virtio_device dev" and i: "i < LOGSIZE"
    and K: "d = of_int (lg_dev (klog T))" "dst = log_word (lg_start (klog T)) i"
      "src = of_int (lh_block (lg_lh (klog T)) i)"
    and w: "src \<noteq> dst" "unat src < 2 ^ 31" "unat dst < 2 ^ 31"
    and R: "R src + 1 < 2 ^ 32" "R dst + 1 < 2 ^ 32" "0 < R src" "card {v. 0 < R v} < NBUF"
  shows "ok (disk_turn dev p) 3 (fsc p d V I R (\<lambda>_. None) T) (log_one i)
     (\<lambda>x s. x = () \<and> fsc p d (V(dst := V src)) (put_block (unat dst) (V src) I) R (\<lambda>_. None) T s) (\<lambda>t. image t = I)"
proof -
  let ?f = "disk_turn dev p" and ?C = "\<lambda>t. image t = I"
  let ?R1 = "R(dst := R dst + 1)" and ?V = "V(dst := V src)" and ?I = "put_block (unat dst) (V src) I"
  define R2 where "R2 = ?R1(src := R src + 1)"
  define H2 :: "nat \<Rightarrow> nat \<Rightarrow> uint32 \<Rightarrow> nat option" where "H2 to fr = (\<lambda>_. None)(dst \<mapsto> to, src \<mapsto> fr)" for to fr
  have r1: "ok ?f 1 (fsc p d V I R (\<lambda>_. None) T) (bread d dst) (\<lambda>to. fsc p d V I ?R1 ((\<lambda>_. None)(dst \<mapsto> to)) T) ?C"
    by (rule ok_bread [OF dev]) (use R w in auto)
  have r2: "ok ?f 1 (fsc p d V I ?R1 ((\<lambda>_. None)(dst \<mapsto> to)) T) (bread d src) (\<lambda>fr. fsc p d V I R2 (H2 to fr) T) ?C" for to
    using ok_bread [OF dev, of "(\<lambda>_. None)(dst \<mapsto> to)" src ?R1 p d V I T] R w by (auto simp: R2_def H2_def)
  have e: "R = R2(src := R2 src - 1, dst := R2 dst - 1)" "(\<lambda>_. None) = (H2 to fr)(src := None, dst := None)" for to fr
    using w(1) by (auto simp: R2_def H2_def fun_eq_iff)
  have tail: "ok ?f 1 (fsc p d V I R2 (H2 to fr) T)
     (bind (get_buf fr b_data) (\<lambda>bs. bind (upd_buf to (\<lambda>x. x\<lparr>b_data := bs\<rparr>)) (\<lambda>_.
       bind (bwrite to) (\<lambda>_. bind (return ()) (\<lambda>_. bind (brelse fr) (\<lambda>_. brelse to))))))
     (\<lambda>x s. x = () \<and> fsc p d ?V ?I R (\<lambda>_. None) T s) ?C" for to fr
    by (rule block_cache.copy_block [OF block_cache_fsc [OF dev], where H = "H2 to fr" and R = R2 and ?R2.0 = R, OF _ _ w(1,3) _ refl refl triple_return _ e])
      (use w(1) R(3) in \<open>simp_all add: H2_def R2_def\<close>)
  have i': "LOGSIZE \<le> i \<longleftrightarrow> False" using i by simp
  show ?thesis
    unfolding log_one_def
    apply (rule ok_then_triple [OF fsc_get_log])
    apply (simp only: id_apply K(1) [symmetric] log_word_def [symmetric] K(2) [symmetric])
    apply (rule ok_thenI [OF r1, where l = 2])
     apply (rule ok_then_triple [OF fsc_get_log])
     apply (simp only: id_apply K(1) [symmetric] K(3) [symmetric] i' if_False)
     apply (rule ok_thenI [OF r2 tail [unfolded bind_return_left]])
    by simp_all
qed

definition install_one :: "bool \<Rightarrow> nat \<Rightarrow> ('z lstate_scheme, unit) M" where
  "install_one recovering tail =
     bind (get_log id) (\<lambda>l.
     bind (bread (of_int (lg_dev l)) (of_int (lg_start l + int tail + 1))) (\<lambda>lbuf.
     bind (get_log id) (\<lambda>l.
     if tail \<ge> LOGSIZE then fault else
     bind (bread (of_int (lg_dev l)) (of_int (lh_block (lg_lh l) tail))) (\<lambda>dbuf.
     bind (get_buf lbuf b_data) (\<lambda>bs.
     bind (upd_buf dbuf (\<lambda>x. x\<lparr>b_data := bs\<rparr>)) (\<lambda>_.
     bind (bwrite dbuf) (\<lambda>_.
     bind (whenM (\<not> recovering) (bunpin dbuf)) (\<lambda>_.
     bind (brelse lbuf) (\<lambda>_.
     brelse dbuf)))))))))"

lemma install_trans_one:
  "install_trans r = bind (get_log (\<lambda>l. lh_n (lg_lh l))) (\<lambda>n. for_each [0..<nat n] (install_one r))"
  unfolding install_trans_def install_one_def ..

lemma ok_install_one:
  fixes T :: "'z lstate_scheme"
  assumes dev: "virtio_device dev" and i: "i < LOGSIZE"
    and K: "d = of_int (lg_dev (klog T))" "src = log_word (lg_start (klog T)) i"
      "dst = of_int (lh_block (lg_lh (klog T)) i)"
    and w: "src \<noteq> dst" "unat src < 2 ^ 31" "unat dst < 2 ^ 31"
    and R: "R src + 1 < 2 ^ 32" "R dst + 1 < 2 ^ 32" "card {v. 0 < R v} < NBUF"
      "0 < R dst \<or> rec \<and> card {v. 0 < R v} + 1 < NBUF"
    and R': "R' = (if rec then R else R(dst := R dst - 1))"
  shows "ok (disk_turn dev p) 3 (fsc p d V I R (\<lambda>_. None) T) (install_one rec i)
     (\<lambda>x s. x = () \<and> fsc p d (V(dst := V src)) (put_block (unat dst) (V src) I) R' (\<lambda>_. None) T s) (\<lambda>t. image t = I)"
proof (rule ok_pre [where A = "R src = 0 \<longrightarrow> V src = disk_block I (unat src)"])
  show "\<And>s. fsc p d V I R (\<lambda>_. None) T s \<Longrightarrow> R src = 0 \<longrightarrow> V src = disk_block I (unat src)" using fsc_clean by blast
  assume z: "R src = 0 \<longrightarrow> V src = disk_block I (unat src)"
  let ?f = "disk_turn dev p" and ?C = "\<lambda>t. image t = I"
  let ?R1 = "R(src := R src + 1)" and ?V = "V(dst := V src)" and ?I = "put_block (unat dst) (V src) I"
  define H2 :: "nat \<Rightarrow> nat \<Rightarrow> uint32 \<Rightarrow> nat option" where "H2 l b = (\<lambda>_. None)(src \<mapsto> l, dst \<mapsto> b)" for l b
  define R2 where "R2 = ?R1(dst := R dst + 1)"
  define R3 where "R3 = (if rec then R2 else R2(dst := R dst))"
  have H2: "H2 l b src = Some l" "H2 l b dst = Some b" for l b using w(1) by (simp_all add: H2_def)
  have r1: "ok ?f 1 (fsc p d V I R (\<lambda>_. None) T) (bread d src) (\<lambda>l. fsc p d V I ?R1 ((\<lambda>_. None)(src \<mapsto> l)) T) ?C"
    by (rule ok_bread [OF dev]) (use R w in auto)
  have "0 < ?R1 dst \<or> card {v. 0 < ?R1 v} < NBUF"
    using R(4) card_insert_word [of R src "R src + 1"] w(1) by (cases "0 < R dst") (simp, linarith)
  then have r2: "ok ?f 1 (fsc p d V I ?R1 ((\<lambda>_. None)(src \<mapsto> l)) T) (bread d dst) (\<lambda>b. fsc p d V I R2 (H2 l b) T) ?C" for l
    using ok_bread [OF dev, of "(\<lambda>_. None)(src \<mapsto> l)" dst ?R1 p d V I T] R w by (auto simp: R2_def H2_def)
  have un: "triple (fsc p d ?V ?I R2 (H2 l b) T) (whenM (\<not> rec) (bunpin b)) (\<lambda>x s. x = () \<and> fsc p d ?V ?I R3 (H2 l b) T s)" for l b
    using fsc_bunpin [of "H2 l b" dst b R2 p d ?V ?I T] R(4) H2 by (cases rec) (simp_all add: whenM_def triple_return R2_def R3_def)
  have e: "R' = R3(src := R3 src - 1, dst := R3 dst - 1)" "(\<lambda>_. None) = (H2 l b)(src := None, dst := None)" for l b
    using w(1) R' by (auto simp: R3_def R2_def H2_def fun_eq_iff)
  have R3: "R3 src = R2 src" "R2 src = 1 \<longrightarrow> V src = disk_block I (unat src)" using z w(1) by (auto simp: R3_def R2_def)
  note tail = block_cache.copy_block [OF block_cache_fsc [OF dev], OF H2 w(1,3) R3(2) refl refl un R3(1) e]
  have i': "LOGSIZE \<le> i \<longleftrightarrow> False" using i by simp
  show "ok ?f 3 (fsc p d V I R (\<lambda>_. None) T) (install_one rec i) (\<lambda>x s. x = () \<and> fsc p d ?V ?I R' (\<lambda>_. None) T s) ?C"
    unfolding install_one_def
    apply (rule ok_then_triple [OF fsc_get_log])
    apply (simp only: id_apply K(1) [symmetric] log_word_def [symmetric] K(2) [symmetric])
    apply (rule ok_thenI [OF r1, where l = 2])
     apply (rule ok_then_triple [OF fsc_get_log])
     apply (simp only: id_apply K(1) [symmetric] K(3) [symmetric] i' if_False)
     apply (rule ok_thenI [OF r2 tail])
    by simp_all
qed

subsection \<open>The header\<close>

definition head_bytes :: "int \<Rightarrow> (nat \<Rightarrow> int) \<Rightarrow> nat \<Rightarrow> uint8 list \<Rightarrow> uint8 list" where
  "head_bytes n B k bs = fold (\<lambda>i bs. put_word (4 + 4 * i) (of_int (B i)) bs) [0..<k] (put_word 0 (of_int n) bs)"

lemma head_bytes_0: "head_bytes n B 0 bs = put_word 0 (of_int n) bs"
  by (simp add: head_bytes_def)

lemma head_bytes_Suc: "head_bytes n B (Suc k) bs = put_word (4 + 4 * k) (of_int (B k)) (head_bytes n B k bs)"
  by (simp add: head_bytes_def)

lemma header_fits: "k < LOGSIZE \<Longrightarrow> 4 + 4 * k + 4 \<le> BSIZE"
  by (simp add: LOGSIZE_def MAXOPBLOCKS_def BSIZE_def)

lemma length_head_bytes:
  "k \<le> LOGSIZE \<Longrightarrow> length bs = BSIZE \<Longrightarrow> length (head_bytes n B k bs) = BSIZE"
proof (induction k)
  case 0
  then show ?case by (simp add: head_bytes_0 BSIZE_def)
next
  case (Suc k)
  then show ?case using header_fits [of k] by (simp add: head_bytes_Suc)
qed

lemma head_bytes_words:
  assumes "k \<le> LOGSIZE" "length bs = BSIZE"
  shows "get_word (head_bytes n B k bs) 0 = of_int n"
    "i < k \<Longrightarrow> get_word (head_bytes n B k bs) (4 + 4 * i) = of_int (B i)"
proof -
  show "get_word (head_bytes n B k bs) 0 = of_int n" using assms
  proof (induction k)
    case 0
    then show ?case by (simp add: head_bytes_0 get_put_word_same BSIZE_def)
  next
    case (Suc k)
    have "length (head_bytes n B k bs) = BSIZE" using Suc.prems by (intro length_head_bytes) simp_all
    then show ?case
      using Suc header_fits [of k] by (simp add: head_bytes_Suc get_put_word_other)
  qed
  show "get_word (head_bytes n B k bs) (4 + 4 * i) = of_int (B i)" if "i < k" using assms that
  proof (induction k)
    case (Suc k)
    have l: "length (head_bytes n B k bs) = BSIZE" using Suc.prems by (intro length_head_bytes) simp_all
    show ?case
    proof (cases "i = k")
      case True
      then show ?thesis using l Suc.prems header_fits [of k] by (simp add: head_bytes_Suc get_put_word_same)
    next
      case False
      then show ?thesis using l Suc header_fits [of k] header_fits [of i] by (simp add: head_bytes_Suc get_put_word_other)
    qed
  qed simp
qed

lemma triple_for_each_ix:
  assumes "\<And>i. i < length xs \<Longrightarrow> triple (J i) (body (xs ! i)) (\<lambda>x s. x = () \<and> J (Suc i) s)"
  shows "triple (J 0) (for_each xs body) (\<lambda>x s. x = () \<and> J (length xs) s)"
  using assms
proof (induction xs arbitrary: J)
  case Nil
  show ?case unfolding for_each.simps by (rule triple_return) simp
next
  case (Cons x xs)
  have 1: "triple (J 0) (body x) (\<lambda>x s. x = () \<and> J (Suc 0) s)" using Cons.prems [of 0] by simp
  have 2: "triple (J (Suc 0)) (for_each xs body) (\<lambda>x s. x = () \<and> J (Suc (length xs)) s)"
    using Cons.IH [of "\<lambda>i. J (Suc i)"] Cons.prems by fastforce
  show ?case unfolding for_each.simps list.size One_nat_def add_Suc_right add_0_right by (rule triple_step [OF 1 2])
qed

lemma write_head_fill:
  fixes T :: "'z lstate_scheme"
  assumes "H hw = Some b" "k \<le> LOGSIZE" "length bs = BSIZE" "V hw = head_bytes n B 0 bs" "lh_block (lg_lh (klog T)) = B"
  shows "triple (fsc p d V I R H T)
     (for_each [0..<k] (\<lambda>i.
       if i \<ge> LOGSIZE then fault else
       bind (get_log (\<lambda>l. lh_block (lg_lh l) i)) (\<lambda>v.
       upd_buf b (\<lambda>x. x\<lparr>b_data := put_word (4 + 4 * i) (of_int v) (b_data x)\<rparr>))))
     (\<lambda>x s. x = () \<and> fsc p d (V(hw := head_bytes n B k bs)) I R H T s)"
proof -
  let ?J = "\<lambda>i. fsc p d (V(hw := head_bytes n B i bs)) I R H T"
  let ?body = "\<lambda>i. if i \<ge> LOGSIZE then fault else
       bind (get_log (\<lambda>l. lh_block (lg_lh l) i)) (\<lambda>v.
       upd_buf b (\<lambda>x. x\<lparr>b_data := put_word (4 + 4 * i) (of_int v) (b_data x)\<rparr>)) :: ('z lstate_scheme, unit) M"
  have "triple (?J 0) (for_each [0..<k] ?body) (\<lambda>x s. x = () \<and> ?J (length [0..<k]) s)"
  proof (rule triple_for_each_ix)
    fix i assume "i < length [0..<k]"
    then have i: "i < k" "[0..<k] ! i = i" "\<not> LOGSIZE \<le> i" using assms(2) by simp_all
    have "length (put_word (4 + 4 * i) (of_int (B i)) (head_bytes n B i bs)) = BSIZE"
      using i assms(2,3) header_fits [of i] length_head_bytes [of i bs n B] by simp
    then have u: "triple (?J i) (upd_buf b (\<lambda>x. x\<lparr>b_data := put_word (4 + 4 * i) (of_int (B i)) (b_data x)\<rparr>))
        (\<lambda>x s. x = () \<and> ?J (Suc i) s)"
      using fsc_upd_data [of H hw b "put_word (4 + 4 * i) (of_int (B i))" "V(hw := head_bytes n B i bs)" p d I R T] assms(1)
      by (simp add: head_bytes_Suc)
    show "triple (?J i) (?body ([0..<k] ! i)) (\<lambda>x s. x = () \<and> ?J (Suc i) s)"
      unfolding i(2) if_not_P [OF i(3)]
      by (rule triple_step [OF fsc_get_log]) (use u in \<open>simp only: assms(5)\<close>)
  qed
  moreover have "V(hw := head_bytes n B 0 bs) = V" using assms(4) by (simp add: fun_upd_idem)
  ultimately show ?thesis by simp
qed

lemma ok_write_head:
  fixes T :: "'z lstate_scheme"
  assumes dev: "virtio_device dev"
    and K: "d = of_int (lg_dev (klog T))" "hw = hdr_word (lg_start (klog T))" "n = lh_n (lg_lh (klog T))"
      "B = lh_block (lg_lh (klog T))"
    and n: "nat n \<le> LOGSIZE" and w: "unat hw < 2 ^ 31" and R: "R hw + 1 < 2 ^ 32" "card {v. 0 < R v} < NBUF"
    and X: "X = head_bytes n B (nat n) (V hw)"
  shows "ok (disk_turn dev p) 2 (fsc p d V I R (\<lambda>_. None) T) write_head
     (\<lambda>x s. x = () \<and> fsc p d (V(hw := X)) (put_block (unat hw) X I) R (\<lambda>_. None) T s) (\<lambda>t. image t = I)"
proof (rule ok_pre [OF fsc_length], assumption)
  assume len: "length (V hw) = BSIZE"
  let ?f = "disk_turn dev p" and ?C = "\<lambda>t. image t = I"
  let ?P = "\<lambda>b U J. fsc p d U J (R(hw := R hw + 1)) ((\<lambda>_. None)(hw \<mapsto> b)) T"
  let ?X0 = "head_bytes n B 0 (V hw)"
  have r: "ok ?f 1 (fsc p d V I R (\<lambda>_. None) T) (bread d hw) (\<lambda>b. ?P b V I) ?C"
    by (rule ok_bread [OF dev]) (use R w in auto)
  have u: "triple (?P b V I) (upd_buf b (\<lambda>x. x\<lparr>b_data := put_word 0 (of_int n) (b_data x)\<rparr>))
      (\<lambda>x s. x = () \<and> ?P b (V(hw := ?X0)) I s)" for b
    using fsc_upd_data [of "(\<lambda>_. None)(hw \<mapsto> b)" hw b "put_word 0 (of_int n)" V p d I "R(hw := R hw + 1)" T] len
    by (simp add: head_bytes_0 BSIZE_def)
  have l: "triple (?P b (V(hw := ?X0)) I)
     (for_each [0..<nat n] (\<lambda>i.
       if i \<ge> LOGSIZE then fault else
       bind (get_log (\<lambda>l. lh_block (lg_lh l) i)) (\<lambda>v.
       upd_buf b (\<lambda>x. x\<lparr>b_data := put_word (4 + 4 * i) (of_int v) (b_data x)\<rparr>))))
     (\<lambda>x s. x = () \<and> ?P b (V(hw := X)) I s)" for b
  proof -
    have e: "V(hw := X) = (V(hw := ?X0))(hw := head_bytes n B (nat n) (V hw))" by (simp add: X)
    show ?thesis unfolding e by (rule write_head_fill) (use n len K(4) in simp_all)
  qed
  have lX: "length X = BSIZE" using length_head_bytes n len by (simp add: X)
  have wr: "ok ?f 1 (?P b (V(hw := X)) I) (bwrite b) (\<lambda>x s. x = () \<and> ?P b (V(hw := X)) (put_block (unat hw) X I) s) ?C" for b
    using ok_bwrite [OF dev, of "(\<lambda>_. None)(hw \<mapsto> b)" hw b p d "V(hw := X)" I "R(hw := R hw + 1)" T] w by simp
  have b: "triple (?P b (V(hw := X)) (put_block (unat hw) X I)) (brelse b)
      (\<lambda>x s. x = () \<and> fsc p d (V(hw := X)) (put_block (unat hw) X I) R (\<lambda>_. None) T s)" for b
    using fsc_brelse [of "(\<lambda>_. None)(hw \<mapsto> b)" hw b "R(hw := R hw + 1)" "V(hw := X)" "put_block (unat hw) X I" p d T] lX
    by (simp add: disk_block_put)
  show "ok ?f 2 (fsc p d V I R (\<lambda>_. None) T) write_head
     (\<lambda>x s. x = () \<and> fsc p d (V(hw := X)) (put_block (unat hw) X I) R (\<lambda>_. None) T s) ?C"
    unfolding write_head_def
    apply (rule ok_then_triple [OF fsc_get_log])
    apply (simp only: id_apply K(1) [symmetric] K(2) [unfolded hdr_word_def, symmetric])
    apply (rule ok_thenI [OF r, where l = 1])
     apply (rule ok_then_triple [OF fsc_get_log])
     apply (simp only: K(3) [symmetric])
     apply (rule ok_then_triple [OF u], rule ok_then_triple [OF l])
     apply (rule ok_step [OF wr ok_triple [OF b]])
    by simp_all
qed

definition head_read :: "uint8 list \<Rightarrow> nat \<Rightarrow> log \<Rightarrow> log" where
  "head_read bs k l = fold (\<lambda>i. set_lh_block i (sint (get_word bs (4 + 4 * i)))) [0..<k] (set_lh_n (sint (get_word bs 0)) l)"

lemma head_read_fields [simp]:
  "lg_start (head_read bs k l) = lg_start l" "lg_dev (head_read bs k l) = lg_dev l"
  "lh_n (lg_lh (head_read bs k l)) = sint (get_word bs 0)"
  by (induction k) (simp_all add: head_read_def set_lh_block_def set_lh_n_def)

lemma head_read_block: "i < k \<Longrightarrow> lh_block (lg_lh (head_read bs k l)) i = sint (get_word bs (4 + 4 * i))"
proof (induction k)
  case (Suc k)
  have "head_read bs (Suc k) l = set_lh_block k (sint (get_word bs (4 + 4 * k))) (head_read bs k l)"
    by (simp add: head_read_def)
  then show ?case using Suc by (cases "i = k") (simp_all add: set_lh_block_def)
qed simp

lemma read_head_fill:
  fixes T :: "'z lstate_scheme"
  assumes "k \<le> LOGSIZE"
  shows "triple (fsc p d V I R H (T\<lparr>klog := head_read bs 0 l\<rparr>))
     (for_each [0..<k] (\<lambda>i. if i \<ge> LOGSIZE then fault else upd_log (set_lh_block i (sint (get_word bs (4 + 4 * i))))))
     (\<lambda>x s. x = () \<and> fsc p d V I R H (T\<lparr>klog := head_read bs k l\<rparr>) s)"
proof -
  let ?J = "\<lambda>i. fsc p d V I R H (T\<lparr>klog := head_read bs i l\<rparr>)"
  let ?body = "\<lambda>i. if i \<ge> LOGSIZE then fault else upd_log (set_lh_block i (sint (get_word bs (4 + 4 * i)))) :: ('z lstate_scheme, unit) M"
  have "triple (?J 0) (for_each [0..<k] ?body) (\<lambda>x s. x = () \<and> ?J (length [0..<k]) s)"
  proof (rule triple_for_each_ix)
    fix i assume "i < length [0..<k]"
    then have i: "i < k" "[0..<k] ! i = i" "\<not> LOGSIZE \<le> i" using assms by simp_all
    have "head_read bs (Suc i) l = set_lh_block i (sint (get_word bs (4 + 4 * i))) (head_read bs i l)"
      by (simp add: head_read_def)
    then show "triple (?J i) (?body ([0..<k] ! i)) (\<lambda>x s. x = () \<and> ?J (Suc i) s)"
      unfolding i(2) if_not_P [OF i(3)]
      using fsc_upd_log [of p d V I R H "T\<lparr>klog := head_read bs i l\<rparr>" "set_lh_block i (sint (get_word bs (4 + 4 * i)))"] by simp
  qed
  then show ?thesis by simp
qed

lemma ok_read_head:
  fixes T :: "'z lstate_scheme"
  assumes dev: "virtio_device dev"
    and K: "d = of_int (lg_dev (klog T))" "hw = hdr_word (lg_start (klog T))"
    and n: "nat (sint (get_word (V hw) 0)) \<le> LOGSIZE" and w: "unat hw < 2 ^ 31"
    and R: "R hw + 1 < 2 ^ 32" "card {v. 0 < R v} < NBUF"
  shows "ok (disk_turn dev p) 1 (fsc p d V I R (\<lambda>_. None) T) read_head
     (\<lambda>x s. x = () \<and> fsc p d V I R (\<lambda>_. None)
       (T\<lparr>klog := head_read (V hw) (nat (sint (get_word (V hw) 0))) (klog T)\<rparr>) s) (\<lambda>t. image t = I)"
proof (rule ok_pre [where A = "R hw = 0 \<longrightarrow> V hw = disk_block I (unat hw)"])
  show "\<And>s. fsc p d V I R (\<lambda>_. None) T s \<Longrightarrow> R hw = 0 \<longrightarrow> V hw = disk_block I (unat hw)" using fsc_clean by blast
  assume c: "R hw = 0 \<longrightarrow> V hw = disk_block I (unat hw)"
  let ?f = "disk_turn dev p" and ?C = "\<lambda>t. image t = I"
  let ?n = "nat (sint (get_word (V hw) 0))"
  let ?T = "\<lambda>k. T\<lparr>klog := head_read (V hw) k (klog T)\<rparr>"
  let ?P = "\<lambda>b. fsc p d V I (R(hw := R hw + 1)) ((\<lambda>_. None)(hw \<mapsto> b))"
  have r: "ok ?f 1 (fsc p d V I R (\<lambda>_. None) T) (bread d hw) (\<lambda>b. ?P b T) ?C"
    by (rule ok_bread [OF dev]) (use R w in auto)
  have g: "triple (?P b T) (get_buf b b_data) (\<lambda>x s. x = V hw \<and> ?P b T s)" for b by (rule fsc_data) simp
  have u: "triple (?P b T) (upd_log (set_lh_n (sint (get_word (V hw) 0)))) (\<lambda>x s. x = () \<and> ?P b (?T 0) s)" for b
    using fsc_upd_log [of p d V I "R(hw := R hw + 1)" "(\<lambda>_. None)(hw \<mapsto> b)" T] by (simp add: head_read_def)
  have q: "triple (?P b (?T 0)) (get_log (\<lambda>l. lh_n (lg_lh l))) (\<lambda>x s. x = sint (get_word (V hw) 0) \<and> ?P b (?T 0) s)" for b
    using fsc_get_log [of p d V I _ _ "?T 0" "\<lambda>l. lh_n (lg_lh l)"] by simp
  have l: "triple (?P b (?T 0)) (for_each [0..<?n] (\<lambda>i. if i \<ge> LOGSIZE then fault else
       upd_log (set_lh_block i (sint (get_word (V hw) (4 + 4 * i)))))) (\<lambda>x s. x = () \<and> ?P b (?T ?n) s)" for b
    by (rule read_head_fill [OF n])
  have b: "triple (?P b (?T ?n)) (brelse b) (\<lambda>x s. x = () \<and> fsc p d V I R (\<lambda>_. None) (?T ?n) s)" for b
    using fsc_brelse [of "(\<lambda>_. None)(hw \<mapsto> b)" hw b "R(hw := R hw + 1)" V I p d "?T ?n"] c by simp
  show "ok ?f 1 (fsc p d V I R (\<lambda>_. None) T) read_head (\<lambda>x s. x = () \<and> fsc p d V I R (\<lambda>_. None) (?T ?n) s) ?C"
    unfolding read_head_def
    apply (rule ok_then_triple [OF fsc_get_log])
    apply (simp only: id_apply K(1) [symmetric] K(2) [unfolded hdr_word_def, symmetric])
    apply (rule ok_thenI [OF r, where l = 0])
     apply (rule ok_then_triple [OF g], rule ok_then_triple [OF u], rule ok_then_triple [OF q], rule ok_then_triple [OF l])
     apply (rule ok_triple [OF b])
    by simp
qed

subsection \<open>The loops\<close>

abbreviation blk :: "log \<Rightarrow> nat \<Rightarrow> uint32" where
  "blk K i \<equiv> of_int (lh_block (lg_lh K) i)"

abbreviation log_len :: "log \<Rightarrow> nat" where
  "log_len K \<equiv> nat (lh_n (lg_lh K))"

text \<open>The log in memory names home blocks, and the device is its own.\<close>

definition log_names :: "uint32 \<Rightarrow> log \<Rightarrow> bool" where
  "log_names d K \<longleftrightarrow> log_pos (lg_start K) \<and> d = of_int (lg_dev K) \<and> 0 \<le> lh_n (lg_lh K) \<and>
     home_blocks (lg_start K) (log_len K) (blk K)"

lemma ok_exI:
  assumes "\<And>U J. W U J \<Longrightarrow> ok f k (F U J) m Q C"
  shows "ok f k (\<lambda>s. \<exists>U J. W U J \<and> F U J s) m Q C"
  using assms unfolding ok_def by blast

definition logged ::
  "int \<Rightarrow> (nat \<Rightarrow> uint32) \<Rightarrow> (uint32 \<Rightarrow> uint8 list) \<Rightarrow> (nat \<Rightarrow> uint8) \<Rightarrow> nat \<Rightarrow> (uint32 \<Rightarrow> uint8 list) \<Rightarrow> (nat \<Rightarrow> uint8) \<Rightarrow> bool" where
  "logged st bl V I i U J \<longleftrightarrow>
     (\<forall>w. w \<notin> log_word st ` {..<NLOG} \<longrightarrow> U w = V w \<and> disk_block J (unat w) = disk_block I (unat w)) \<and>
     (\<forall>j < i. U (log_word st j) = V (bl j) \<and> disk_block J (unat (log_word st j)) = V (bl j))"

lemma logged_step:
  assumes l: "logged st bl V I i U J" and i: "i < NLOG" "log_pos st" "bl i \<notin> log_area st" and len: "length (V (bl i)) = BSIZE"
  shows "logged st bl V I (Suc i) (U(log_word st i := U (bl i))) (put_block (unat (log_word st i)) (U (bl i)) J)"
proof -
  have u: "U (bl i) = V (bl i)" using l i(3) by (auto simp: logged_def log_area_def)
  have "log_word st j \<noteq> log_word st i" if "j < i" for j using log_words_neq(2) [OF i(2)] that i(1) by auto
  then show ?thesis
    using l i(1) len unfolding logged_def u by (auto simp: disk_block_put_word less_Suc_eq)
qed

lemma ok_write_log:
  fixes T :: "'z lstate_scheme"
  assumes dev: "virtio_device dev" and K: "K = klog T" "st = lg_start K" "log_names d K"
    and R: "\<And>w. R w + 1 < 2 ^ 32" "\<And>i. i < log_len K \<Longrightarrow> 0 < R (blk K i)" "card {v. 0 < R v} < NBUF"
  shows "ok (disk_turn dev p) (3 * log_len K) (fsc p d V I R (\<lambda>_. None) T) write_log
     (\<lambda>x s. \<exists>U J. logged st (blk K) V I (log_len K) U J \<and> fsc p d U J R (\<lambda>_. None) T s)
     (\<lambda>t. \<forall>w. w \<notin> log_word st ` {..<NLOG} \<longrightarrow> disk_block (image t) (unat w) = disk_block I (unat w))"
proof (rule ok_pre [where A = "\<forall>w. length (V w) = BSIZE"])
  show "\<And>s. fsc p d V I R (\<lambda>_. None) T s \<Longrightarrow> \<forall>w. length (V w) = BSIZE" using fsc_length by blast
  assume len: "\<forall>w. length (V w) = BSIZE"
  have n: "log_pos st" "d = of_int (lg_dev K)" "log_len K \<le> NLOG"
    "\<And>i. i < log_len K \<Longrightarrow> blk K i \<notin> log_area st \<and> unat (blk K i) < 2 ^ 31"
    using K(3) by (auto simp: log_names_def home_blocks_def K(2))
  let ?C = "\<lambda>t. \<forall>w. w \<notin> log_word st ` {..<NLOG} \<longrightarrow> disk_block (image t) (unat w) = disk_block I (unat w)"
  let ?P = "\<lambda>i s. \<exists>U J. logged st (blk K) V I i U J \<and> fsc p d U J R (\<lambda>_. None) T s"
  have "ok (disk_turn dev p) (3 * length [0..<log_len K]) (?P 0) (for_each [0..<log_len K] log_one) (\<lambda>_. ?P (length [0..<log_len K])) ?C"
  proof (rule ok_for_each)
    fix i assume "i < length [0..<log_len K]"
    then have i: "i < log_len K" "[0..<log_len K] ! i = i" "i < NLOG" "i < LOGSIZE" using n(3) NLOG_le(1) by simp_all
    show "ok (disk_turn dev p) 3 (?P i) (log_one ([0..<log_len K] ! i)) (\<lambda>_. ?P (Suc i)) ?C"
      unfolding i(2)
    proof (rule ok_exI)
      fix U J
      assume l: "logged st (blk K) V I i U J"
      have ne: "blk K i \<noteq> log_word st i" using n(4) [OF i(1)] i(3) by (auto simp: log_area_def)
      have "ok (disk_turn dev p) 3 (fsc p d U J R (\<lambda>_. None) T) (log_one i) (\<lambda>x s. x = () \<and> fsc p d (U(log_word st i := U (blk K i)))
          (put_block (unat (log_word st i)) (U (blk K i)) J) R (\<lambda>_. None) T s) (\<lambda>t. image t = J)"
        by (rule ok_log_one [OF dev i(4)])
          (use K(1,2) n(2) n(4) [OF i(1)] ne R i log_words_small(1) [OF n(1) i(3)] in simp_all)
      then show "ok (disk_turn dev p) 3 (fsc p d U J R (\<lambda>_. None) T) (log_one i) (\<lambda>_. ?P (Suc i)) ?C"
      proof (rule ok_weaken)
        show "\<And>x s. x = () \<and> fsc p d (U(log_word st i := U (blk K i))) (put_block (unat (log_word st i)) (U (blk K i)) J) R (\<lambda>_. None) T s \<Longrightarrow>
          ?P (Suc i) s"
          using logged_step [OF l i(3) n(1)] n(4) [OF i(1)] len by blast
      qed (use l in \<open>auto simp: logged_def\<close>)
    qed
  qed
  then have lo: "ok (disk_turn dev p) (3 * log_len K) (?P 0) (for_each [0..<log_len K] log_one) (\<lambda>_. ?P (log_len K)) ?C" by simp
  have "logged st (blk K) V I 0 V I" by (simp add: logged_def)
  then have "ok (disk_turn dev p) (3 * log_len K) (fsc p d V I R (\<lambda>_. None) T) (for_each [0..<log_len K] log_one) (\<lambda>_. ?P (log_len K)) ?C"
    by (intro ok_conseq [OF lo]) auto
  then show "ok (disk_turn dev p) (3 * log_len K) (fsc p d V I R (\<lambda>_. None) T) write_log (\<lambda>_. ?P (log_len K)) ?C"
    unfolding write_log_one by (intro ok_then_triple [OF fsc_get_log]) (simp only: K(1))
qed

definition log_applied ::
  "int \<Rightarrow> (nat \<Rightarrow> uint32) \<Rightarrow> nat \<Rightarrow> (uint32 \<Rightarrow> uint8 list) \<Rightarrow> (nat \<Rightarrow> uint8) \<Rightarrow> nat \<Rightarrow> (uint32 \<Rightarrow> uint8 list) \<Rightarrow> (nat \<Rightarrow> uint8) \<Rightarrow> bool" where
  "log_applied st bl n V I i U J \<longleftrightarrow>
     (\<forall>w. w \<notin> bl ` {..<n} \<longrightarrow> U w = V w \<and> disk_block J (unat w) = disk_block I (unat w)) \<and>
     (\<forall>j < i. U (bl j) = V (log_word st j) \<and> disk_block J (unat (bl j)) = V (log_word st j))"

lemma log_area_neq:
  assumes "w \<notin> log_area st"
  shows "i < NLOG \<Longrightarrow> log_word st i \<noteq> w" "hdr_word st \<noteq> w"
  using assms by (auto simp: log_area_def)

lemma inj_not_before:
  fixes i :: nat
  assumes "inj_on f {..<n}" "i < n"
  shows "f i \<notin> f ` {..<i}"
proof
  assume "f i \<in> f ` {..<i}"
  then obtain j where "j < i" "f i = f j" by blast
  then show False using inj_onD [OF assms(1), of i j] assms(2) by simp
qed

lemma log_applied_step:
  assumes l: "log_applied st bl n V I i U J" and i: "i < n" "home_blocks st n bl" and len: "length (V (log_word st i)) = BSIZE"
  shows "log_applied st bl n V I (Suc i) (U(bl i := U (log_word st i))) (put_block (unat (bl i)) (U (log_word st i)) J)"
proof -
  have "i < NLOG" using i by (simp add: home_blocks_def)
  then have "log_word st i \<notin> bl ` {..<n}" using i(2) log_area_neq(1) by (fastforce simp: home_blocks_def)
  then have u: "U (log_word st i) = V (log_word st i)" using l by (auto simp: log_applied_def)
  have "bl j \<noteq> bl i" if "j < i" for j using i that by (auto simp: home_blocks_def inj_on_def)
  then show ?thesis
    using l i(1) len unfolding log_applied_def u by (auto simp: disk_block_put_word less_Suc_eq)
qed

definition unpinned :: "(nat \<Rightarrow> uint32) \<Rightarrow> nat \<Rightarrow> (uint32 \<Rightarrow> nat) \<Rightarrow> uint32 \<Rightarrow> nat" where
  "unpinned bl n R = (\<lambda>w. if w \<in> bl ` {..<n} then R w - 1 else R w)"

lemma unpinned_Suc:
  assumes "inj_on bl {..<n}" "i < n"
  shows "unpinned bl (Suc i) R = (unpinned bl i R)(bl i := unpinned bl i R (bl i) - 1)"
proof -
  have "bl i \<notin> bl ` {..<i}" using assms by (rule inj_not_before)
  then show ?thesis by (auto simp: unpinned_def fun_eq_iff lessThan_Suc)
qed

lemma unpinned_le: "unpinned bl i R w \<le> R w"
  by (simp add: unpinned_def)

lemma card_unpinned: "card {v :: uint32. 0 < unpinned bl i R v} \<le> card {v. 0 < R v}"
  by (rule card_mono) (auto simp: unpinned_def split: if_splits)

lemma ok_install_trans:
  fixes T :: "'z lstate_scheme"
  assumes dev: "virtio_device dev" and K: "K = klog T" "st = lg_start K" "log_names d K"
    and R: "\<And>w. R w + 1 < 2 ^ 32" "card {v. 0 < R v} < NBUF"
      "rec \<and> card {v. 0 < R v} + 1 < NBUF \<or> \<not> rec \<and> (\<forall>i < log_len K. 0 < R (blk K i))"
  shows "ok (disk_turn dev p) (3 * log_len K) (fsc p d V I R (\<lambda>_. None) T) (install_trans rec)
     (\<lambda>x s. \<exists>U J. log_applied st (blk K) (log_len K) V I (log_len K) U J \<and>
        fsc p d U J (if rec then R else unpinned (blk K) (log_len K) R) (\<lambda>_. None) T s)
     (\<lambda>t. \<forall>w. w \<notin> blk K ` {..<log_len K} \<longrightarrow> disk_block (image t) (unat w) = disk_block I (unat w))"
proof (rule ok_pre [where A = "\<forall>w. length (V w) = BSIZE"])
  show "\<And>s. fsc p d V I R (\<lambda>_. None) T s \<Longrightarrow> \<forall>w. length (V w) = BSIZE" using fsc_length by blast
  assume len: "\<forall>w. length (V w) = BSIZE"
  have n: "log_pos st" "d = of_int (lg_dev K)" "log_len K \<le> NLOG" "home_blocks st (log_len K) (blk K)"
    "inj_on (blk K) {..<log_len K}"
    "\<And>i. i < log_len K \<Longrightarrow> blk K i \<notin> log_area st \<and> unat (blk K i) < 2 ^ 31"
    using K(3) by (auto simp: log_names_def home_blocks_def K(2))
  let ?C = "\<lambda>t. \<forall>w. w \<notin> blk K ` {..<log_len K} \<longrightarrow> disk_block (image t) (unat w) = disk_block I (unat w)"
  let ?R = "\<lambda>i. if rec then R else unpinned (blk K) i R"
  let ?P = "\<lambda>i s. \<exists>U J. log_applied st (blk K) (log_len K) V I i U J \<and> fsc p d U J (?R i) (\<lambda>_. None) T s"
  have "ok (disk_turn dev p) (3 * length [0..<log_len K]) (?P 0) (for_each [0..<log_len K] (install_one rec))
      (\<lambda>_. ?P (length [0..<log_len K])) ?C"
  proof (rule ok_for_each)
    fix i assume "i < length [0..<log_len K]"
    then have i: "i < log_len K" "[0..<log_len K] ! i = i" "i < NLOG" "i < LOGSIZE" using n(3) NLOG_le(1) by simp_all
    show "ok (disk_turn dev p) 3 (?P i) (install_one rec ([0..<log_len K] ! i)) (\<lambda>_. ?P (Suc i)) ?C"
      unfolding i(2)
    proof (rule ok_exI)
      fix U J
      assume l: "log_applied st (blk K) (log_len K) V I i U J"
      have ne: "log_word st i \<noteq> blk K i" using n(6) [OF i(1)] i(3) log_area_neq(1) by blast
      have R1: "?R i w + 1 < 2 ^ 32" for w using R(1) [of w] unpinned_le [of "blk K" i R w] by (auto intro: le_less_trans)
      have R2: "card {v. 0 < ?R i v} < NBUF" using R(2) card_unpinned [of "blk K" i R] by (auto intro: le_less_trans)
      have "blk K i \<notin> blk K ` {..<i}" using n(5) i(1) by (rule inj_not_before)
      then have R3: "0 < ?R i (blk K i) \<or> rec \<and> card {v. 0 < ?R i v} + 1 < NBUF"
        using R(3) i(1) by (auto simp: unpinned_def)
      have R4: "?R (Suc i) = (if rec then ?R i else (?R i)(blk K i := ?R i (blk K i) - 1))"
        using unpinned_Suc [OF n(5) i(1), of R] by simp
      have "ok (disk_turn dev p) 3 (fsc p d U J (?R i) (\<lambda>_. None) T) (install_one rec i)
         (\<lambda>x s. x = () \<and> fsc p d (U(blk K i := U (log_word st i)))
          (put_block (unat (blk K i)) (U (log_word st i)) J) (?R (Suc i)) (\<lambda>_. None) T s) (\<lambda>t. image t = J)"
        by (rule ok_install_one [OF dev i(4) _ _ _ ne _ _ R1 R1 R2 R3 R4])
          (use K(1,2) n(2) n(6) [OF i(1)] log_words_small(1) [OF n(1) i(3)] in simp_all)
      then show "ok (disk_turn dev p) 3 (fsc p d U J (?R i) (\<lambda>_. None) T) (install_one rec i) (\<lambda>_. ?P (Suc i)) ?C"
      proof (rule ok_weaken)
        fix x s
        assume "x = () \<and> fsc p d (U(blk K i := U (log_word st i))) (put_block (unat (blk K i)) (U (log_word st i)) J)
          (?R (Suc i)) (\<lambda>_. None) T s"
        then show "?P (Suc i) s" using log_applied_step [OF l i(1) n(4)] len by blast
      qed (use l in \<open>auto simp: log_applied_def\<close>)
    qed
  qed
  then have lo: "ok (disk_turn dev p) (3 * log_len K) (?P 0) (for_each [0..<log_len K] (install_one rec)) (\<lambda>_. ?P (log_len K)) ?C"
    by (simp only: length_upt minus_nat.diff_0)
  have b: "log_applied st (blk K) (log_len K) V I 0 V I" "?R 0 = R" by (auto simp: log_applied_def unpinned_def)
  have "ok (disk_turn dev p) (3 * log_len K) (fsc p d V I R (\<lambda>_. None) T) (for_each [0..<log_len K] (install_one rec))
      (\<lambda>_. ?P (log_len K)) ?C"
  proof (rule ok_conseq [OF lo])
    fix s assume "fsc p d V I R (\<lambda>_. None) T s"
    then show "?P 0 s" using b by (intro exI [of _ V] exI [of _ I]) simp
  qed (assumption | rule order_refl)+
  then show "ok (disk_turn dev p) (3 * log_len K) (fsc p d V I R (\<lambda>_. None) T) (install_trans rec) (\<lambda>_. ?P (log_len K)) ?C"
    unfolding install_trans_one by (intro ok_then_triple [OF fsc_get_log]) (simp only: K(1))
qed

subsection \<open>The view of recovery at every moment\<close>

lemma hdr_same:
  assumes "disk_block J (unat (hdr_word st)) = disk_block I (unat (hdr_word st))"
  shows "hdr_n st J = hdr_n st I" "hdr_block st J = hdr_block st I"
  using assms by (auto simp: hdr_n_def hdr_block_def fun_eq_iff)

lemma recovered_cong:
  assumes wf: "log_wf st I"
    and eq: "\<And>w. w \<notin> hdr_block st I ` {..<nat (hdr_n st I)} \<Longrightarrow> disk_block J (unat w) = disk_block I (unat w)"
  shows "log_wf st J" "recovered st J w = recovered st I w"
proof -
  have out: "hdr_word st \<notin> hdr_block st I ` {..<nat (hdr_n st I)}"
    "i < NLOG \<Longrightarrow> log_word st i \<notin> hdr_block st I ` {..<nat (hdr_n st I)}" for i
    using wf log_area_neq by (fastforce simp: log_wf_def home_blocks_def)+
  note h = hdr_same [OF eq [OF out(1)]]
  show wf': "log_wf st J" using wf unfolding log_wf_def h .
  show "recovered st J w = recovered st I w"
  proof (cases "w \<in> hdr_block st I ` {..<nat (hdr_n st I)}")
    case True
    then obtain i where i: "i < nat (hdr_n st I)" "w = hdr_block st I i" by blast
    then have "i < NLOG" using wf by (simp add: log_wf_def home_blocks_def)
    then show ?thesis
      using recovered_logged [OF wf i(1)] recovered_logged [OF wf', of i] i eq [OF out(2)] by (simp add: h)
  next
    case False
    then show ?thesis using recovered_other [of w st I] recovered_other [of w st J] eq by (simp add: h)
  qed
qed

definition all_or_nothing :: "int \<Rightarrow> (nat \<Rightarrow> uint8) \<Rightarrow> (uint32 \<Rightarrow> uint8 list) \<Rightarrow> (nat \<Rightarrow> uint8) \<Rightarrow> bool" where
  "all_or_nothing st I V J \<longleftrightarrow> log_wf st J \<and>
     ((\<forall>w. w \<notin> log_area st \<longrightarrow> recovered st J w = disk_block I (unat w)) \<or>
      (\<forall>w. w \<notin> log_area st \<longrightarrow> recovered st J w = V w))"

lemma before_commit:
  assumes p: "log_pos st" and h: "hdr_n st I = 0"
    and eq: "\<forall>w. w \<notin> log_word st ` {..<NLOG} \<longrightarrow> disk_block J (unat w) = disk_block I (unat w)"
  shows "all_or_nothing st I V J"
proof -
  have "hdr_word st \<notin> log_word st ` {..<NLOG}" using log_words_neq(1) [OF p] by (metis imageE lessThan_iff)
  then have "hdr_n st J = hdr_n st I" using eq by (intro hdr_same) blast
  then have n: "hdr_n st J = 0" using h by simp
  then have "recovered st J w = disk_block I (unat w)" if "w \<notin> log_area st" for w
    using recovered_empty [OF n, of w] eq that by (auto simp: log_area_def)
  moreover have "log_wf st J" by (simp add: log_wf_def n home_blocks_def)
  ultimately show ?thesis by (simp add: all_or_nothing_def)
qed

text \<open>Once the header is on disk, recovery yields the new contents.\<close>

lemma committed:
  assumes p: "log_pos st" "0 \<le> n" "home_blocks st (nat n) bl" "\<And>i. bl i = of_int (B i)"
    and l: "logged st bl V I (nat n) U J" and clean: "\<And>w. w \<notin> log_area st \<Longrightarrow> w \<notin> bl ` {..<nat n} \<Longrightarrow> V w = disk_block I (unat w)"
    and X: "X = head_bytes n B (nat n) bs" "length bs = BSIZE"
  defines "J' \<equiv> put_block (unat (hdr_word st)) X J"
  shows "hdr_n st J' = n" "i < nat n \<Longrightarrow> hdr_block st J' i = bl i" "log_wf st J'" "w \<notin> log_area st \<Longrightarrow> recovered st J' w = V w"
proof -
  have n: "nat n \<le> NLOG" using p(3) by (simp add: home_blocks_def)
  then have lX: "length X = BSIZE" using X NLOG_le(2) by (simp add: length_head_bytes)
  have d: "disk_block J' (unat (hdr_word st)) = X" "v \<noteq> hdr_word st \<Longrightarrow> disk_block J' (unat v) = disk_block J (unat v)" for v
    using lX by (simp_all add: J'_def disk_block_put_word)
  have "n \<le> 30" using n p(2) by (simp add: NLOG_def LOGSIZE_def MAXOPBLOCKS_def)
  then have "sint (of_int n :: uint32) = n" using p(2) by (simp add: sint_uint signed_take_bit_int_eq_self uint_word_of_int)
  then show hn: "hdr_n st J' = n" using head_bytes_words(1) [OF NLOG_le(2) [OF n] X(2)] by (simp add: hdr_n_def d X(1))
  show hb: "hdr_block st J' i = bl i" if "i < nat n" for i
    using head_bytes_words(2) [OF NLOG_le(2) [OF n] X(2) that] by (simp add: hdr_block_def d X(1) p(4))
  have hbs: "hdr_block st J' ` {..<nat n} = bl ` {..<nat n}" using hb by auto
  have "inj_on (hdr_block st J') {..<nat n}" using p(3) hb by (simp add: home_blocks_def inj_on_def)
  then show wf: "log_wf st J'" using p(2,3) hb by (simp add: log_wf_def home_blocks_def hn)
  show "recovered st J' w = V w" if w: "w \<notin> log_area st"
  proof (cases "w \<in> bl ` {..<nat n}")
    case True
    then obtain i where i: "i < nat n" "w = bl i" by blast
    then have "recovered st J' w = disk_block J' (unat (log_word st i))"
      using recovered_logged [OF wf, of i] hb by (simp add: hn)
    also have "\<dots> = V w" using i l n d(2) [OF log_words_neq(1) [OF p(1)], of i] by (simp add: logged_def)
    finally show ?thesis .
  next
    case False
    then have "recovered st J' w = disk_block J' (unat w)" using recovered_other [of w st J'] by (simp add: hn hbs)
    also have "\<dots> = disk_block I (unat w)"
      using w d(2) [of w] l by (auto simp: logged_def log_area_def)
    also have "\<dots> = V w" using clean [OF w False] by simp
    finally show ?thesis .
  qed
qed

lemma install_view:
  assumes J2: "log_wf st J2" "hdr_n st J2 = int n" "\<And>i. i < n \<Longrightarrow> hdr_block st J2 i = bl i"
    "\<And>w. w \<notin> log_area st \<Longrightarrow> recovered st J2 w = V w"
    and eq: "\<And>w. w \<notin> bl ` {..<n} \<Longrightarrow> disk_block J (unat w) = disk_block J2 (unat w)"
  shows "log_wf st J" "w \<notin> log_area st \<Longrightarrow> recovered st J w = V w"
proof -
  have e: "w \<notin> hdr_block st J2 ` {..<nat (hdr_n st J2)} \<Longrightarrow> disk_block J (unat w) = disk_block J2 (unat w)" for w
    using J2(2,3) eq [of w] by (auto simp: image_iff)
  show "log_wf st J" by (rule recovered_cong(1) [OF J2(1) e])
  show "recovered st J w = V w" if "w \<notin> log_area st"
    using recovered_cong(2) [OF J2(1) e] J2(4) [OF that] by simp
qed

subsection \<open>\<open>commit\<close>\<close>

text \<open>
  A transaction ready to commit: the header on disk is empty, the blocks in the log are
  pinned in the cache, and every other block is on disk as it is in the cache. A free
  buffer must be left: \<open>commit\<close> reads a block of the log for every block it copies.
\<close>

definition txn_ready :: "uint32 \<Rightarrow> (uint32 \<Rightarrow> uint8 list) \<Rightarrow> (nat \<Rightarrow> uint8) \<Rightarrow> (uint32 \<Rightarrow> nat) \<Rightarrow> log \<Rightarrow> bool" where
  "txn_ready d V I R K \<longleftrightarrow> log_names d K \<and> hdr_n (lg_start K) I = 0 \<and>
     (\<forall>w. w \<notin> log_area (lg_start K) \<and> w \<notin> blk K ` {..<log_len K} \<longrightarrow> V w = disk_block I (unat w)) \<and>
     (\<forall>w. R w + 1 < 2 ^ 32) \<and> (\<forall>i < log_len K. 0 < R (blk K i)) \<and> card {v. 0 < R v} < NBUF"

lemma set_lh_n_fields [simp]:
  "lg_start (set_lh_n n K) = lg_start K" "lg_dev (set_lh_n n K) = lg_dev K" "lh_n (lg_lh (set_lh_n n K)) = n"
  "lh_block (lg_lh (set_lh_n n K)) = lh_block (lg_lh K)"
  by (simp_all add: set_lh_n_def)

lemma set_lh_n_same: "lh_n (lg_lh K) = n \<Longrightarrow> set_lh_n n K = K"
  by (cases K) (auto simp: set_lh_n_def)

definition committed_state ::
  "nat \<Rightarrow> uint32 \<Rightarrow> (uint32 \<Rightarrow> uint8 list) \<Rightarrow> (uint32 \<Rightarrow> nat) \<Rightarrow> 'z lstate_scheme \<Rightarrow> 'z lstate_scheme \<Rightarrow> bool" where
  "committed_state p d V R T s \<longleftrightarrow> (\<exists>U J. (\<forall>w. w \<notin> log_area (lg_start (klog T)) \<longrightarrow> U w = V w \<and> disk_block J (unat w) = V w) \<and>
      hdr_n (lg_start (klog T)) J = 0 \<and> fsc p d U J R (\<lambda>_. None) (T\<lparr>klog := set_lh_n 0 (klog T)\<rparr>) s)"

text \<open>The second half of \<open>commit\<close>: the header is on disk.\<close>

lemma log_applied_clear:
  assumes i: "log_applied st bl n U2 J2 n U J" and l: "length (U (hdr_word st)) = BSIZE"
    and J2: "hdr_n st J2 = int n" "\<And>i. i < n \<Longrightarrow> hdr_block st J2 i = bl i"
      "\<And>w. w \<notin> log_area st \<Longrightarrow> recovered st J2 w = V w"
    and U2: "\<And>i. i < n \<Longrightarrow> U2 (log_word st i) = V (bl i)" "\<And>w. w \<notin> log_area st \<Longrightarrow> w \<notin> bl ` {..<n} \<Longrightarrow> U2 w = V w"
    and X: "X = head_bytes 0 B 0 (U (hdr_word st))"
  shows "hdr_n st (put_block (unat (hdr_word st)) X J) = 0"
    "w \<notin> log_area st \<Longrightarrow> (U(hdr_word st := X)) w = V w \<and> disk_block (put_block (unat (hdr_word st)) X J) (unat w) = V w"
proof -
  have lX: "length X = BSIZE" using l by (simp add: X length_head_bytes)
  then show "hdr_n st (put_block (unat (hdr_word st)) X J) = 0"
    using head_bytes_words(1) [OF _ l, of 0 0 B] by (simp add: hdr_n_def disk_block_put X)
  show "(U(hdr_word st := X)) w = V w \<and> disk_block (put_block (unat (hdr_word st)) X J) (unat w) = V w"
    if w: "w \<notin> log_area st"
  proof -
    have "U w = V w \<and> disk_block J (unat w) = V w"
    proof (cases "w \<in> bl ` {..<n}")
      case True
      then show ?thesis using i U2(1) by (auto simp: log_applied_def)
    next
      case False
      then have "disk_block J2 (unat w) = V w"
        using recovered_other [of w st J2] J2(2) J2(3) [OF w] J2(1) by (auto simp: image_iff)
      then show ?thesis using i False U2(2) [OF w False] by (auto simp: log_applied_def)
    qed
    then show ?thesis using log_area_neq(2) [OF w] lX by (simp add: disk_block_put_word)
  qed
qed

lemma ok_install_clear:
  fixes T :: "'z lstate_scheme"
  assumes dev: "virtio_device dev" and K: "K = klog T" "st = lg_start K" "log_names d K"
    and R: "\<And>w. R w + 1 < 2 ^ 32" "card {v. 0 < R v} < NBUF"
      "rec \<and> card {v. 0 < R v} + 1 < NBUF \<or> \<not> rec \<and> (\<forall>i < log_len K. 0 < R (blk K i))"
    and J2: "log_wf st J2" "hdr_n st J2 = lh_n (lg_lh K)" "\<And>i. i < log_len K \<Longrightarrow> hdr_block st J2 i = blk K i"
      "\<And>w. w \<notin> log_area st \<Longrightarrow> recovered st J2 w = V w"
    and U2: "\<And>i. i < log_len K \<Longrightarrow> U2 (log_word st i) = V (blk K i)"
      "\<And>w. w \<notin> log_area st \<Longrightarrow> w \<notin> blk K ` {..<log_len K} \<Longrightarrow> U2 w = V w"
    and R': "R' = (if rec then R else unpinned (blk K) (log_len K) R)"
  shows "ok (disk_turn dev p) (3 * log_len K + 2) (fsc p d U2 J2 R (\<lambda>_. None) T)
     (bind (install_trans rec) (\<lambda>_. bind (upd_log (set_lh_n 0)) (\<lambda>_. write_head)))
     (\<lambda>_. committed_state p d V R' T)
     (\<lambda>t. log_wf st (image t) \<and> (\<forall>w. w \<notin> log_area st \<longrightarrow> recovered st (image t) w = V w))"
proof -
  let ?f = "disk_turn dev p" and ?n = "log_len K" and ?hw = "hdr_word st"
  let ?C = "\<lambda>t. log_wf st (image t) \<and> (\<forall>w. w \<notin> log_area st \<longrightarrow> recovered st (image t) w = V w)"
  have n: "log_pos st" "d = of_int (lg_dev K)" "hdr_n st J2 = int ?n"
    using K(3) J2(2) by (auto simp: log_names_def K(2))
  note view = install_view [OF J2(1) n(3) J2(3,4)]
  have inst: "ok ?f (3 * ?n) (fsc p d U2 J2 R (\<lambda>_. None) T) (install_trans rec)
     (\<lambda>x s. \<exists>U J. log_applied st (blk K) ?n U2 J2 ?n U J \<and> fsc p d U J R' (\<lambda>_. None) T s) ?C"
    unfolding R' by (rule ok_weaken [OF ok_install_trans [OF dev K R]]) (use view in auto)
  have Rb: "R' ?hw + 1 < 2 ^ 32" "card {v. 0 < R' v} < NBUF"
    using R(1) [of ?hw] unpinned_le [of "blk K" ?n R ?hw] R(2) card_unpinned [of "blk K" ?n R]
    by (auto simp: R' intro: le_less_trans)
  have clear: "ok ?f 2 (fsc p d U J R' (\<lambda>_. None) T) (bind (upd_log (set_lh_n 0)) (\<lambda>_. write_head))
      (\<lambda>_. committed_state p d V R' T) ?C" if i: "log_applied st (blk K) ?n U2 J2 ?n U J" for U J
  proof (rule ok_pre [OF fsc_length], assumption)
    let ?X = "head_bytes 0 (lh_block (lg_lh K)) 0 (U ?hw)"
    let ?T = "T\<lparr>klog := set_lh_n 0 (klog T)\<rparr>"
    assume l: "length (U ?hw) = BSIZE"
    have wh: "ok ?f 2 (fsc p d U J R' (\<lambda>_. None) ?T) write_head (\<lambda>x s. x = () \<and>
        fsc p d (U(?hw := ?X)) (put_block (unat ?hw) ?X J) R' (\<lambda>_. None) ?T s) (\<lambda>t. image t = J)"
      by (rule ok_write_head [OF dev, where n = 0 and B = "lh_block (lg_lh K)"])
        (use K(1,2) n(2) Rb log_words_small(2) [OF n(1)] in simp_all)
    have c: "hdr_n st (put_block (unat ?hw) ?X J) = 0"
      "\<And>w. w \<notin> log_area st \<Longrightarrow> (U(?hw := ?X)) w = V w \<and> disk_block (put_block (unat ?hw) ?X J) (unat w) = V w"
      using log_applied_clear [OF i l n(3) J2(3,4) U2, where X = ?X] by blast+
    have "committed_state p d V R' T s" if "fsc p d (U(?hw := ?X)) (put_block (unat ?hw) ?X J) R' (\<lambda>_. None) ?T s" for s
      unfolding committed_state_def K(1) [symmetric] K(2) [symmetric]
    proof (intro exI conjI allI impI)
      show "hdr_n st (put_block (unat ?hw) ?X J) = 0" by (rule c)
      show "fsc p d (U(?hw := ?X)) (put_block (unat ?hw) ?X J) R' (\<lambda>_. None) (T\<lparr>klog := set_lh_n 0 K\<rparr>) s"
        using that by (simp only: K(1))
    qed (use c(2) in blast)+
    moreover have "?C t" if "image t = J" for t :: "'z lstate_scheme" using view [of J] i that by (auto simp: log_applied_def)
    ultimately have "ok ?f 2 (fsc p d U J R' (\<lambda>_. None) ?T) write_head (\<lambda>_. committed_state p d V R' T) ?C"
      by (intro ok_weaken [OF wh]) blast+
    then show "ok ?f 2 (fsc p d U J R' (\<lambda>_. None) T) (bind (upd_log (set_lh_n 0)) (\<lambda>_. write_head))
      (\<lambda>_. committed_state p d V R' T) ?C"
      by (rule ok_then_triple [OF fsc_upd_log])
  qed
  show ?thesis by (rule ok_thenI [OF inst ok_exI]) (use clear in auto)
qed

lemma ok_commit_head:
  fixes T :: "'z lstate_scheme"
  assumes dev: "virtio_device dev" and K: "K = klog T" "st = lg_start K" and r: "txn_ready d V I R K"
    and l: "logged st (blk K) V I (log_len K) U J"
  shows "ok (disk_turn dev p) (3 * log_len K + 4) (fsc p d U J R (\<lambda>_. None) T)
     (bind write_head (\<lambda>_. bind (install_trans False) (\<lambda>_. bind (upd_log (set_lh_n 0)) (\<lambda>_. write_head))))
     (\<lambda>_. committed_state p d V (unpinned (blk K) (log_len K) R) T) (\<lambda>t. all_or_nothing st I V (image t))"
proof (rule ok_pre [OF fsc_length], assumption)
  let ?hw = "hdr_word st" and ?n = "lh_n (lg_lh K)"
  let ?X = "head_bytes ?n (lh_block (lg_lh K)) (nat ?n) (U (hdr_word st))"
  let ?J = "put_block (unat ?hw) ?X J" and ?U = "U(?hw := ?X)"
  assume len: "length (U ?hw) = BSIZE"
  have n: "log_pos st" "d = of_int (lg_dev K)" "0 \<le> ?n" "home_blocks st (nat ?n) (blk K)" "log_names d K" "nat ?n \<le> NLOG"
    "hdr_n st I = 0" "\<And>w. w \<notin> log_area st \<Longrightarrow> w \<notin> blk K ` {..<log_len K} \<Longrightarrow> V w = disk_block I (unat w)"
    using r by (auto simp: txn_ready_def log_names_def home_blocks_def K(2))
  have R: "\<And>w. R w + 1 < 2 ^ 32" "card {v. 0 < R v} < NBUF" "\<forall>i < log_len K. 0 < R (blk K i)"
    using r by (auto simp: txn_ready_def)
  have wh: "ok (disk_turn dev p) 2 (fsc p d U J R (\<lambda>_. None) T) write_head
      (\<lambda>x s. x = () \<and> fsc p d ?U ?J R (\<lambda>_. None) T s) (\<lambda>t. image t = J)"
    by (rule ok_write_head [OF dev, where n = ?n and B = "lh_block (lg_lh K)"])
      (use K n(2) NLOG_le(2) [OF n(6)] R log_words_small(2) [OF n(1)] in simp_all)
  have J: "all_or_nothing st I V J" by (rule before_commit [OF n(1,7)]) (use l in \<open>simp add: logged_def\<close>)
  note c = committed [OF n(1,3,4) refl l n(8) refl len]
  have U: "?U (log_word st i) = V (blk K i)" if "i < log_len K" for i
    using l that log_words_neq(1) [OF n(1), of i] n(6) by (simp add: logged_def)
  have U': "?U w = V w" if w: "w \<notin> log_area st" for w using l w by (auto simp: logged_def log_area_def)
  have ic: "ok (disk_turn dev p) (3 * log_len K + 2) (fsc p d ?U ?J R (\<lambda>_. None) T)
     (bind (install_trans False) (\<lambda>_. bind (upd_log (set_lh_n 0)) (\<lambda>_. write_head)))
     (\<lambda>_. committed_state p d V (unpinned (blk K) (log_len K) R) T)
     (\<lambda>t. log_wf st (image t) \<and> (\<forall>w. w \<notin> log_area st \<longrightarrow> recovered st (image t) w = V w))"
    by (rule ok_install_clear [OF dev K n(5) R(1,2) _ c(3,1,2,4) U U']) (use R(3) in simp_all)
  show "ok (disk_turn dev p) (3 * log_len K + 4) (fsc p d U J R (\<lambda>_. None) T)
     (bind write_head (\<lambda>_. bind (install_trans False) (\<lambda>_. bind (upd_log (set_lh_n 0)) (\<lambda>_. write_head))))
     (\<lambda>_. committed_state p d V (unpinned (blk K) (log_len K) R) T) (\<lambda>t. all_or_nothing st I V (image t))"
    by (rule ok_step [OF ok_weaken [OF wh] ok_weaken [OF ic]]) (use J in \<open>auto simp: all_or_nothing_def\<close>)
qed

lemma ok_commit:
  fixes T :: "'z lstate_scheme"
  assumes dev: "virtio_device dev" and K: "K = klog T" "st = lg_start K" and r: "txn_ready d V I R K"
  shows "ok (disk_turn dev p) (6 * log_len K + 4) (fsc p d V I R (\<lambda>_. None) T) commit
     (\<lambda>_. committed_state p d V (unpinned (blk K) (log_len K) R) T) (\<lambda>t. all_or_nothing st I V (image t))"
proof (cases "0 < lh_n (lg_lh K)")
  case False
  have n: "lh_n (lg_lh K) = 0" "hdr_n st I = 0" "\<And>w. w \<notin> log_area st \<Longrightarrow> V w = disk_block I (unat w)"
    using r False by (auto simp: txn_ready_def log_names_def K(2))
  have "committed_state p d V (unpinned (blk K) (log_len K) R) T s" if "fsc p d V I R (\<lambda>_. None) T s" for s
    using that n unfolding committed_state_def K(1) [symmetric] K(2) [symmetric] set_lh_n_same [OF n(1)]
    by (intro exI [of _ V] exI [of _ I]) (simp add: K(1) unpinned_def)
  then have t: "triple (fsc p d V I R (\<lambda>_. None) T) (return ()) (\<lambda>_. committed_state p d V (unpinned (blk K) (log_len K) R) T)"
    by (rule triple_return)
  show ?thesis
    unfolding commit_def
    by (rule ok_then_triple [OF fsc_get_log], unfold K(1) [symmetric] whenM_def if_not_P [OF False])
      (rule ok_weaken [OF ok_triple [OF t]], simp_all)
next
  case True
  have n: "log_pos st" "log_names d K" "hdr_n st I = 0" "\<And>w. R w + 1 < 2 ^ 32" "\<And>i. i < log_len K \<Longrightarrow> 0 < R (blk K i)"
    "card {v. 0 < R v} < NBUF"
    using r by (auto simp: txn_ready_def log_names_def K(2))
  have w: "ok (disk_turn dev p) (3 * log_len K) (fsc p d V I R (\<lambda>_. None) T) write_log
     (\<lambda>x s. \<exists>U J. logged st (blk K) V I (log_len K) U J \<and> fsc p d U J R (\<lambda>_. None) T s)
     (\<lambda>t. all_or_nothing st I V (image t))"
    by (rule ok_weaken [OF ok_write_log [OF dev K n(2,4,5,6)]]) (auto intro: before_commit [OF n(1,3)])
  have c: "ok (disk_turn dev p) (6 * log_len K + 4) (fsc p d V I R (\<lambda>_. None) T)
     (bind write_log (\<lambda>_. bind write_head (\<lambda>_. bind (install_trans False) (\<lambda>_. bind (upd_log (set_lh_n 0)) (\<lambda>_. write_head)))))
     (\<lambda>_. committed_state p d V (unpinned (blk K) (log_len K) R) T) (\<lambda>t. all_or_nothing st I V (image t))"
    by (rule ok_thenI [OF w ok_exI]) (use ok_commit_head [OF dev K r] in auto)
  show ?thesis
    unfolding commit_def
    by (rule ok_then_triple [OF fsc_get_log], unfold K(1) [symmetric] whenM_def if_P [OF True]) (rule c)
qed

subsection \<open>Recovery\<close>

lemma head_read_names:
  assumes "log_pos st" "log_wf st I" "bs = disk_block I (unat (hdr_word st))" "st = lg_start K" "d = of_int (lg_dev K)"
  shows "log_names d (head_read bs (nat (hdr_n st I)) K)" "lh_n (lg_lh (head_read bs (nat (hdr_n st I)) K)) = hdr_n st I"
    "i < nat (hdr_n st I) \<Longrightarrow> blk (head_read bs (nat (hdr_n st I)) K) i = hdr_block st I i"
proof -
  let ?K = "head_read bs (nat (hdr_n st I)) K"
  show n: "lh_n (lg_lh ?K) = hdr_n st I" by (simp add: hdr_n_def assms(3))
  show b: "blk ?K i = hdr_block st I i" if "i < nat (hdr_n st I)" for i
    using that by (simp add: head_read_block hdr_block_def assms(3))
  have "home_blocks st (nat (hdr_n st I)) (blk ?K) = home_blocks st (nat (hdr_n st I)) (hdr_block st I)"
    using b by (auto simp: home_blocks_def inj_on_def)
  then show "log_names d ?K" using assms n by (simp add: log_names_def log_wf_def)
qed

lemma ok_recover:
  fixes T :: "'z lstate_scheme"
  assumes dev: "virtio_device dev" and K: "st = lg_start (klog T)" "d = of_int (lg_dev (klog T))" "log_pos st"
    and I: "log_wf st I"
  shows "ok (disk_turn dev p) (3 * NLOG + 3) (fsc p d V I (\<lambda>_. 0) (\<lambda>_. None) T) recover_from_log
     (\<lambda>_ s. \<exists>T'. lg_start (klog T') = st \<and> committed_state p d (recovered st I) (\<lambda>_. 0) T' s)
     (\<lambda>t. log_wf st (image t) \<and> (\<forall>w. w \<notin> log_area st \<longrightarrow> recovered st (image t) w = recovered st I w))"
proof (rule ok_pre [where A = "V = (\<lambda>w. disk_block I (unat w))"])
  show "\<And>s. fsc p d V I (\<lambda>_. 0) (\<lambda>_. None) T s \<Longrightarrow> V = (\<lambda>w. disk_block I (unat w))" using fsc_clean by blast
  assume V: "V = (\<lambda>w. disk_block I (unat w))"
  let ?f = "disk_turn dev p" and ?hw = "hdr_word st"
  let ?C = "\<lambda>t. log_wf st (image t) \<and> (\<forall>w. w \<notin> log_area st \<longrightarrow> recovered st (image t) w = recovered st I w)"
  let ?K = "head_read (V ?hw) (nat (hdr_n st I)) (klog T)"
  let ?T = "T\<lparr>klog := ?K\<rparr>"
  have hn: "sint (get_word (V ?hw) 0) = hdr_n st I" by (simp add: hdr_n_def V)
  have le: "nat (hdr_n st I) \<le> NLOG" "0 \<le> hdr_n st I" using I by (simp_all add: log_wf_def home_blocks_def)
  have Vh: "V ?hw = disk_block I (unat ?hw)" by (simp add: V)
  note k = head_read_names [OF K(3) I Vh K(1,2)]
  have z: "card {v :: uint32. 0 < (0 :: nat)} + 1 < NBUF" by (simp add: NBUF_def MAXOPBLOCKS_def)
  have rh: "ok ?f 1 (fsc p d V I (\<lambda>_. 0) (\<lambda>_. None) T) read_head
      (\<lambda>x s. x = () \<and> fsc p d V I (\<lambda>_. 0) (\<lambda>_. None) ?T s) (\<lambda>t. image t = I)"
    unfolding hn [symmetric]
    by (rule ok_read_head [OF dev]) (use K log_words_small(2) [OF K(3)] le NLOG_le(2) z hn in simp_all)
  have len: "log_len ?K = nat (hdr_n st I)" using k(2) by simp
  have rec1: "recovered st I (blk ?K i) = V (log_word st i)" if "i < nat (hdr_n st I)" for i
    using recovered_logged [OF I that] k(3) [OF that] by (simp add: V)
  have rec2: "recovered st I w = V w" if "w \<notin> blk ?K ` {..<nat (hdr_n st I)}" for w
  proof -
    have "w \<notin> hdr_block st I ` {..<nat (hdr_n st I)}" using that k(3) by (auto simp: image_iff)
    then show ?thesis using recovered_other by (simp add: V)
  qed
  have ic: "ok ?f (3 * log_len ?K + 2) (fsc p d V I (\<lambda>_. 0) (\<lambda>_. None) ?T)
     (bind (install_trans True) (\<lambda>_. bind (upd_log (set_lh_n 0)) (\<lambda>_. write_head)))
     (\<lambda>_. committed_state p d (recovered st I) (\<lambda>_. 0) ?T) ?C"
    by (rule ok_install_clear [OF dev _ _ k(1), where R = "\<lambda>_. 0" and rec = True])
      (use K z I k rec1 rec2 len in simp_all)
  show "ok ?f (3 * NLOG + 3) (fsc p d V I (\<lambda>_. 0) (\<lambda>_. None) T) recover_from_log
     (\<lambda>_ s. \<exists>T'. lg_start (klog T') = st \<and> committed_state p d (recovered st I) (\<lambda>_. 0) T' s) ?C"
    unfolding recover_from_log_def
  proof (rule ok_step [OF ok_weaken [OF rh] ok_weaken [OF ic]])
    show "\<And>x s. committed_state p d (recovered st I) (\<lambda>_. 0) ?T s \<Longrightarrow>
        \<exists>T'. lg_start (klog T') = st \<and> committed_state p d (recovered st I) (\<lambda>_. 0) T' s"
      using K(1) by (intro exI [of _ ?T]) simp
  qed (use I le len in auto)
qed

subsection \<open>Rebooting\<close>

lemma fsc_image: "fsc p d V I R H T s \<Longrightarrow> image s = I"
  unfolding fsc_def using vsim_fields(3) [OF calm_vsim] cst_simps(3) by metis

lemma committed_image:
  assumes "committed_state p d V R T s" "w \<notin> log_area (lg_start (klog T))"
  shows "disk_block (image s) (unat w) = V w"
  using assms fsc_image unfolding committed_state_def by blast

text \<open>The state in which \<open>initlog\<close> runs after a reboot: an empty cache over the disk that is left.\<close>

definition booted ::
  "nat \<Rightarrow> uint32 \<Rightarrow> int \<Rightarrow> (nat \<Rightarrow> uint8) \<Rightarrow> 'z lstate_scheme \<Rightarrow> bool" where
  "booted p d st I s \<longleftrightarrow> (\<exists>V T. fsc p d V I (\<lambda>_. 0) (\<lambda>_. None) T s \<and> lg_start (klog T) = st \<and> d = of_int (lg_dev (klog T)))"

text \<open>Recoveries that are interrupted again, each at any disk request.\<close>

inductive crashes ::
  "('z lstate_scheme \<Rightarrow> 'z lstate_scheme) \<Rightarrow> uint32 \<Rightarrow> int \<Rightarrow> (nat \<Rightarrow> uint8) \<Rightarrow> (nat \<Rightarrow> uint8) \<Rightarrow> bool"
  for dev d st I where
  crashes_none: "crashes dev d st I I"
| crashes_again: "crashes dev d st I J \<Longrightarrow> booted p d st J s \<Longrightarrow>
     recover_from_log (replicate k (disk_turn dev p)) s = Block t \<Longrightarrow> crashes dev d st I (image t)"

lemma ok_booted:
  assumes "virtio_device dev" "log_pos st" "log_wf st I"
  shows "ok (disk_turn dev p) (3 * NLOG + 3) (booted p d st I) recover_from_log
     (\<lambda>_ s. hdr_n st (image s) = 0 \<and> (\<forall>w. w \<notin> log_area st \<longrightarrow> disk_block (image s) (unat w) = recovered st I w))
     (\<lambda>t. log_wf st (image t) \<and> (\<forall>w. w \<notin> log_area st \<longrightarrow> recovered st (image t) w = recovered st I w))"
proof -
  have "ok (disk_turn dev p) (3 * NLOG + 3) (fsc p d V I (\<lambda>_. 0) (\<lambda>_. None) T) recover_from_log
     (\<lambda>_ s. hdr_n st (image s) = 0 \<and> (\<forall>w. w \<notin> log_area st \<longrightarrow> disk_block (image s) (unat w) = recovered st I w))
     (\<lambda>t. log_wf st (image t) \<and> (\<forall>w. w \<notin> log_area st \<longrightarrow> recovered st (image t) w = recovered st I w))"
    if T: "lg_start (klog T) = st" "d = of_int (lg_dev (klog T))" for V T
  proof (rule ok_weaken [OF ok_recover [OF assms(1) T(1) [symmetric] T(2) assms(2,3)]])
    fix s
    assume "\<exists>T'. lg_start (klog T') = st \<and> committed_state p d (recovered st I) (\<lambda>_. 0) T' s"
    then obtain T' where t: "lg_start (klog T') = st" "committed_state p d (recovered st I) (\<lambda>_. 0) T' s" by blast
    then obtain U J where "hdr_n st J = 0" "fsc p d U J (\<lambda>_. 0) (\<lambda>_. None) (T'\<lparr>klog := set_lh_n 0 (klog T')\<rparr>) s"
      unfolding committed_state_def by blast
    then show "hdr_n st (image s) = 0 \<and> (\<forall>w. w \<notin> log_area st \<longrightarrow> disk_block (image s) (unat w) = recovered st I w)"
      using fsc_image committed_image [OF t(2)] t(1) by metis
  qed simp_all
  then show ?thesis unfolding ok_def booted_def by blast
qed

lemma crashes_keep_view:
  assumes "virtio_device dev" "log_pos st" "crashes dev d st I J" "log_wf st I"
  shows "log_wf st J \<and> (\<forall>w. w \<notin> log_area st \<longrightarrow> recovered st J w = recovered st I w)"
  using assms(3,4)
proof induction
  case (crashes_again J p s k t)
  then have wf: "log_wf st J" and eq: "\<forall>w. w \<notin> log_area st \<longrightarrow> recovered st J w = recovered st I w" by auto
  from okD [OF ok_booted [OF assms(1,2) wf] crashes_again.hyps(2), of k] crashes_again.hyps(3) eq
  show ?case by auto
qed simp

subsection \<open>Properties\<close>

lemma ok_case:
  assumes "ok f l P m Q C" "P s"
  shows "case m (replicate k f) s of Ret x _ s' \<Rightarrow> Q x s' | Block t \<Rightarrow> C t | _ \<Rightarrow> False"
  using okD [OF assms, of k] by auto

lemma ok_returns:
  assumes "ok f l P m Q C" "P s" "l \<le> k"
  shows "\<exists>x e s'. m (replicate k f) s = Ret x e s' \<and> Q x s'"
  using okD [OF assms(1,2), of k] assms(3) by auto

text \<open>A machine with an empty cache, and one with a transaction of one block, 50, ready to commit.\<close>

definition bufs_ring :: "nat \<Rightarrow> buf" where
  "bufs_ring b = buf0\<lparr>b_next := (if b = NBUF then 0 else b + 1), b_prev := (if b = 0 then NBUF else b - 1)\<rparr>"

definition log_one_block :: log where
  "log_one_block = \<lparr>lg_start = 2, lg_size = 30, lg_outstanding = 0, lg_committing = 1, lg_dev = 1,
     lg_lh = \<lparr>lh_n = 1, lh_block = (\<lambda>_. 50)\<rparr>\<rparr>"

definition lst :: "(nat \<Rightarrow> buf) \<Rightarrow> log \<Rightarrow> (nat \<Rightarrow> uint8) \<Rightarrow> lstate" where
  "lst bs K I = vstate.extend (vst0\<lparr>bufs := bs, image := I\<rparr>) (lstate.fields K)"

definition view50 :: "uint32 \<Rightarrow> uint8 list" where
  "view50 w = (if w = 50 then replicate BSIZE 9 else replicate BSIZE 0)"

definition bufs50 :: "nat \<Rightarrow> buf" where
  "bufs50 = bufs_ring(0 := (bufs_ring 0)\<lparr>b_dev := 1, b_blockno := 50, b_valid := 1, b_refcnt := 1, b_data := replicate BSIZE 9\<rparr>)"

lemma lst_calm: "calm 1 {} (lst bs K I) (lst bs K I)"
proof -
  have "dcfg {} (Some 1) 1 (RUNNING, None) disk0 (lst bs K I) (lst bs K I)"
    by (simp add: dcfg_def lh_def lst_def vst0_def sst0_def sstate.defs pstate.defs vstate.defs lstate.defs pst0_def
        myid_def lock_free_def cpu0_def proc0_def NPROC_def spinlock0_def)
  moreover have "idle disk0" by (simp add: idle_def disk0_def used0_def avail0_def)
  ultimately show ?thesis unfolding calm_def by blast
qed

lemma lst_fields:
  "klog (lst bs K I) = K" "p_pid (procs (lst bs K I) 1) = 7" "slocks (lst bs K I) l = \<lparr>sl_locked = 0, sl_name = '''', sl_pid = 0\<rparr>"
  "cst (lst bs K I) bs (slocks (lst bs K I)) I = lst bs K I"
  by (simp_all add: cst_def lst_def vst0_def sst0_def sstate.defs pstate.defs vstate.defs lstate.defs pst0_def)

lemma dlist_ring: "dlist bufs_ring [0..<NBUF]"
proof -
  have "lnk (b_next \<circ> bufs_ring) (b_prev \<circ> bufs_ring) bhead [0..<30] bhead"
    by (simp add: upt_rec bufs_ring_def NBUF_def MAXOPBLOCKS_def)
  then show ?thesis by (auto simp: dlist_def NBUF_def MAXOPBLOCKS_def)
qed

lemma zero_block [simp]: "disk_block (\<lambda>_. 0) n = replicate BSIZE 0"
  by (simp add: disk_block_def map_replicate_const)

lemma boot_fsc: "fsc 1 1 (\<lambda>w. disk_block I (unat w)) I (\<lambda>_. 0) (\<lambda>_. None) (lst bufs_ring K I) (lst bufs_ring K I)"
proof (rule fscI)
  show "calm 1 {} (cst (lst bufs_ring K I) bufs_ring (slocks (lst bufs_ring K I)) I) (lst bufs_ring K I)"
    unfolding lst_fields by (rule lst_calm)
  show "bcache (p_pid (procs (lst bufs_ring K I) 1)) 1 (\<lambda>w. disk_block I (unat w)) I (\<lambda>_. 0) (\<lambda>_. None) bufs_ring (slocks (lst bufs_ring K I))"
    by (rule bcacheI [OF dlist_ring]) (simp_all add: lst_fields bufs_ring_def buf0_def)
qed

lemma txn_bcache:
  defines "s \<equiv> lst bufs50 log_one_block (\<lambda>_. 0)"
  shows "bcache (p_pid (procs s 1)) 1 view50 (\<lambda>_. 0) ((\<lambda>_. 0)(50 := 1)) (\<lambda>_. None) bufs50 (slocks s)"
proof -
  have "dlist bufs50 [0..<NBUF]" using dlist_ring by (subst dlist_cong [of _ bufs_ring]) (auto simp: bufs50_def)
  then show ?thesis
    by (rule bcacheI)
      (auto simp: s_def lst_fields bufs50_def bufs_ring_def buf0_def view50_def NBUF_def MAXOPBLOCKS_def split: if_splits)
qed

lemma txn_fsc:
  "fsc 1 1 view50 (\<lambda>_. 0) ((\<lambda>_. 0)(50 := 1)) (\<lambda>_. None) (lst bufs50 log_one_block (\<lambda>_. 0)) (lst bufs50 log_one_block (\<lambda>_. 0))"
proof (rule fscI [OF txn_bcache])
  let ?s = "lst bufs50 log_one_block (\<lambda>_. 0)"
  show "calm 1 {} (cst ?s bufs50 (slocks ?s) (\<lambda>_. 0)) ?s" unfolding lst_fields by (rule lst_calm)
qed

lemma txn0_ready: "txn_ready 1 view50 (\<lambda>_. 0) ((\<lambda>_. 0)(50 := 1)) log_one_block"
proof -
  have p: "log_pos 2" by (simp add: log_pos_def NLOG_def LOGSIZE_def MAXOPBLOCKS_def)
  have "(50 :: uint32) \<notin> log_area 2"
  proof
    assume "(50 :: uint32) \<in> log_area 2"
    then consider "(50 :: uint32) = hdr_word 2" | i where "i < NLOG" "(50 :: uint32) = log_word 2 i"
      unfolding log_area_def by blast
    then show False
      using unat_log_words [OF p] by cases (auto simp: NLOG_def LOGSIZE_def MAXOPBLOCKS_def dest!: arg_cong [where f = unat])
  qed
  moreover have "hdr_n 2 (\<lambda>_. 0) = 0"
    by (simp add: hdr_n_def get_word_def of_le_def BSIZE_def) (simp add: numeral_eq_Suc)
  moreover have "{v :: uint32. 0 < ((\<lambda>_. 0)(50 := 1 :: nat)) v} = {50}" by auto
  ultimately show ?thesis
    using p by (simp add: txn_ready_def log_names_def home_blocks_def log_one_block_def view50_def NBUF_def NLOG_def LOGSIZE_def MAXOPBLOCKS_def
        lessThan_Suc)
qed

text \<open>
  C3. \<open>commit\<close> is atomic with respect to crashes. The machine may stop at any of its disk
  requests: either \<open>commit\<close> has returned, and the blocks of the transaction are on disk, or
  the disk at that moment is one from which recovery yields all the old contents of the
  file system or all the new ones, block for block.
\<close>

theorem commit_crash_safe:
  fixes T :: "'z lstate_scheme"
  assumes "virtio_device dev" "txn_ready d V I R (klog T)" "fsc p d V I R (\<lambda>_. None) T s"
  shows "case commit (replicate k (disk_turn dev p)) s of
      Ret _ _ s' \<Rightarrow> committed_state p d V (unpinned (blk (klog T)) (log_len (klog T)) R) T s'
    | Block t \<Rightarrow> all_or_nothing (lg_start (klog T)) I V (image t)
    | _ \<Rightarrow> False"
  by (rule ok_case [OF ok_commit [OF assms(1) refl refl assms(2)] assms(3)])

theorem commit_crash_safe_witness:
  "case commit (replicate 5 (disk_turn blk_device 1)) (lst bufs50 log_one_block (\<lambda>_. 0)) of
      Ret _ _ s' \<Rightarrow> True
    | Block t \<Rightarrow> all_or_nothing 2 (\<lambda>_. 0) view50 (image t)
    | _ \<Rightarrow> False"
  using commit_crash_safe [OF virtio_device_blk, where T = "lst bufs50 log_one_block (\<lambda>_. 0)" and k = 5,
      unfolded lst_fields, OF txn0_ready txn_fsc]
  by (simp add: log_one_block_def split: outcome.splits)

text \<open>
  C5. \<open>commit\<close> of a transaction of \<open>n\<close> blocks returns after at most \<open>6 n + 4\<close> disk requests:
  it neither deadlocks on its own buffers, nor panics, nor loops, and afterwards the blocks
  are on disk, unpinned, and the log is empty in memory and on disk.
\<close>

theorem commit_completes:
  fixes T :: "'z lstate_scheme"
  assumes "virtio_device dev" "txn_ready d V I R (klog T)" "fsc p d V I R (\<lambda>_. None) T s" "6 * log_len (klog T) + 4 \<le> k"
  shows "\<exists>e s'. commit (replicate k (disk_turn dev p)) s = Ret () e s' \<and>
     committed_state p d V (unpinned (blk (klog T)) (log_len (klog T)) R) T s'"
  using ok_returns [OF ok_commit [OF assms(1) refl refl assms(2)] assms(3,4)] by auto

theorem commit_completes_witness:
  "\<exists>e s'. commit (replicate 10 (disk_turn blk_device 1)) (lst bufs50 log_one_block (\<lambda>_. 0)) = Ret () e s' \<and>
     disk_block (image s') 50 = replicate BSIZE 9"
proof -
  let ?s = "lst bufs50 log_one_block (\<lambda>_. 0)"
  obtain e s' where s': "commit (replicate 10 (disk_turn blk_device 1)) ?s = Ret () e s'"
    "committed_state 1 1 view50 (unpinned (blk (klog ?s)) (log_len (klog ?s)) ((\<lambda>_. 0)(50 := 1))) ?s s'"
    using commit_completes [OF virtio_device_blk _ txn_fsc, of 10] txn0_ready by (auto simp: lst_fields log_one_block_def)
  have "(50 :: uint32) \<notin> log_area (lg_start (klog ?s))"
    using txn0_ready by (auto simp: lst_fields txn_ready_def log_names_def home_blocks_def log_one_block_def)
  from committed_image [OF s'(2) this] s'(1) show ?thesis by (simp add: view50_def)
qed

text \<open>
  C4. Recovery after a reboot. \<open>recover_from_log\<close> installs the blocks of a committed
  transaction and clears the header; if the machine stops again at any disk request, the
  disk it leaves has the same recovered contents, so that recovery can be repeated. It
  returns after at most \<open>3 NLOG + 3\<close> disk requests.
\<close>

theorem recovery_correct:
  fixes dev :: "'z lstate_scheme \<Rightarrow> 'z lstate_scheme"
  assumes "virtio_device dev" "log_pos st" "log_wf st I" "booted p d st I s"
  shows "case recover_from_log (replicate k (disk_turn dev p)) s of
      Ret _ _ s' \<Rightarrow> hdr_n st (image s') = 0 \<and> (\<forall>w. w \<notin> log_area st \<longrightarrow> disk_block (image s') (unat w) = recovered st I w)
    | Block t \<Rightarrow> k < 3 * NLOG + 3 \<and> log_wf st (image t) \<and>
        (\<forall>w. w \<notin> log_area st \<longrightarrow> recovered st (image t) w = recovered st I w)
    | _ \<Rightarrow> False"
  using okD [OF ok_booted [OF assms(1-3)] assms(4), of k] by auto

lemma booted_lst: "lg_start K = st \<Longrightarrow> lg_dev K = 1 \<Longrightarrow> booted 1 1 st I (lst bufs_ring K I)"
  unfolding booted_def using boot_fsc [of I K] by (intro exI conjI) (auto simp: lst_fields)

lemma log_wf_empty: "hdr_n st I = 0 \<Longrightarrow> log_wf st I"
  by (simp add: log_wf_def home_blocks_def)

theorem recovery_correct_witness:
  "\<exists>e s'. recover_from_log (replicate 93 (disk_turn blk_device 1)) (lst bufs_ring log_one_block (\<lambda>_. 0)) = Ret () e s' \<and>
     hdr_n 2 (image s') = 0"
proof -
  have w: "log_pos 2" "log_wf 2 (\<lambda>_. 0)"
    using txn0_ready log_wf_empty by (auto simp: txn_ready_def log_names_def log_one_block_def)
  show ?thesis
    using recovery_correct [OF virtio_device_blk w booted_lst [of log_one_block 2], of 93]
    by (auto simp: log_one_block_def NLOG_def LOGSIZE_def MAXOPBLOCKS_def split: outcome.splits)
qed

subsection \<open>The first disk request of a commit\<close>

lemma bread_miss_blocks:
  fixes s :: "'z vstate_scheme"
  assumes c: "bcache (p_pid (procs T p)) d V I R H bs sl" and s: "calm p {} (cst T bs sl I) s"
    and n: "\<And>i. i < NBUF \<Longrightarrow> \<not> (b_dev (bs i) = d \<and> b_blockno (bs i) = w)"
    and f: "card {v. 0 < R v} < NBUF" and w: "unat w < 2 ^ 31"
  shows "\<exists>t. bread d w [] s = Block t"
proof -
  obtain xs where xs: "dlist bs xs" using bcacheD(1) [OF c] by blast
  have miss: "find (\<lambda>b. b_dev (bs b) = d \<and> b_blockno (bs b) = w) xs = None"
    using n xs by (auto simp: find_None_iff dlist_def)
  have "find (\<lambda>b. b_refcnt (bs b) = 0) (rev xs) \<noteq> None"
    using free_buffer [OF c f] xs by (auto simp: find_None_iff dlist_def)
  then obtain b where b: "find (\<lambda>b. b_refcnt (bs b) = 0) (rev xs) = Some b" by blast
  then have "b \<in> set xs" "b_refcnt (bs b) = 0" by (auto simp: find_Some_iff) (metis nth_mem length_rev set_rev)
  then have l: "sl_locked (sl (Buf_lock b)) = 0" using bcache_unlocked [OF c] xs by (auto simp: dlist_def)
  let ?x = "(bs b)\<lparr>b_dev := d, b_blockno := w, b_valid := 0, b_refcnt := 1\<rparr>"
  let ?S = "cst T (bs(b := ?x)) (sl(Buf_lock b := lock_of (p_pid (procs T p)) (sl (Buf_lock b)))) I"
  have "triple (calm p {} (cst T bs sl I)) (bget d w) (\<lambda>x s. x = b \<and> calm p {} ?S s)"
    by (rule bget_miss [where xs = xs]) (fact xs miss b l)+
  from tripleD [OF this s, of "[]"] obtain s1 where s1: "bget d w [] s = Ret b [] s1" "calm p {} ?S s1" by auto
  have "bufs s1 b = ?x" using vsim_fields(1) [OF calm_vsim [OF s1(2)]] by simp
  moreover obtain t where "virtio_disk_rw b False [] s1 = Block t"
    using virtio_disk_rw_exec(1) [OF virtio_device_blk s1(2), of b False] w by auto
  ultimately show ?thesis using s1(1) by (simp add: bread_def get_buf_def)
qed

end
