(* ===== verification/Transaction.thy ===== *)
theory Transaction
  imports Journal
begin

section \<open>Transactions: \<open>begin_op\<close>, \<open>log_write\<close>, \<open>end_op\<close>\<close>

text \<open>
  The interface of the log that file system code uses. A system call brackets its updates
  with \<open>begin_op\<close> and \<open>end_op\<close> and makes each of them by the pattern that the comment of
  \<open>log_write\<close> gives: \<open>bread\<close>, modify, \<open>log_write\<close>, \<open>brelse\<close>. The theory shows that such a
  transaction takes effect at once or not at all, whatever the disk request at which the
  machine stops, and that a sequence of them is cut, if at all, between two.
\<close>

subsection \<open>The cache under a spinlock\<close>

definition fscl ::
  "lockid set \<Rightarrow> nat \<Rightarrow> uint32 \<Rightarrow> (uint32 \<Rightarrow> uint8 list) \<Rightarrow> (nat \<Rightarrow> uint8) \<Rightarrow> (uint32 \<Rightarrow> nat) \<Rightarrow> (uint32 \<Rightarrow> nat option) \<Rightarrow>
   'z vstate_scheme \<Rightarrow> 'z vstate_scheme \<Rightarrow> bool" where
  "fscl L p d V I R H T s \<longleftrightarrow> (\<exists>bs sl. calm p L (cst T bs sl I) s \<and> bcache (p_pid (procs T p)) d V I R H bs sl)"

lemma fscl_empty: "fscl {} = fsc"
  by (intro ext) (simp add: fscl_def fsc_def)

lemma triple_fsclI:
  assumes "\<And>bs sl. bcache (p_pid (procs T p)) d V I R H bs sl \<Longrightarrow> triple (calm p L (cst T bs sl I)) m Q"
  shows "triple (fscl L p d V I R H T) m Q"
  using assms unfolding triple_def fscl_def by blast

lemma fsclI: "bcache (p_pid (procs T p)) d V I R H bs sl \<Longrightarrow> calm p L (cst T bs sl I) s \<Longrightarrow> fscl L p d V I R H T s"
  unfolding fscl_def by blast

lemma fscl_keep:
  assumes "\<And>S. triple (calm p L S) m (\<lambda>x s. x = () \<and> calm p M S s)"
  shows "triple (fscl L p d V I R H T) m (\<lambda>x s. x = () \<and> fscl M p d V I R H T s)"
  by (rule triple_fsclI, rule triple_last [OF assms]) (auto intro: fsclI)

lemma fscl_enter: "triple (fsc p d V I R H T) (acquire l) (\<lambda>x s. x = () \<and> fscl {l} p d V I R H T s)"
  unfolding fscl_empty [symmetric] by (rule fscl_keep) (rule calm_enter)

lemma fscl_leave: "triple (fscl {l} p d V I R H T) (release l) (\<lambda>x s. x = () \<and> fsc p d V I R H T s)"
  unfolding fscl_empty [symmetric] by (rule fscl_keep) (rule calm_enter)

lemma fscl_wakeup: "triple (fscl {Log_lock} p d V I R H T) (wakeup ch) (\<lambda>x s. x = () \<and> fscl {Log_lock} p d V I R H T s)"
  by (rule fscl_keep) (rule calm_triples(10), simp)

lemma fscl_klog: "fscl L p d V I R H T s \<Longrightarrow> klog s = klog T"
  unfolding fscl_def using vsim_klog [OF calm_vsim] klog_cst(1) by metis

lemma fscl_get_log: "triple (fscl L p d V I R H T) (get_log f) (\<lambda>x s. x = f (klog T) \<and> fscl L p d V I R H T s)"
  by (rule tripleI) (auto simp: get_log_def fscl_klog)

lemma fscl_upd_log:
  "triple (fscl L p d V I R H T) (upd_log g) (\<lambda>x s. x = () \<and> fscl L p d V I R H (T\<lparr>klog := g (klog T)\<rparr>) s)"
proof (rule tripleI)
  fix e s
  assume s: "fscl L p d V I R H T s"
  then obtain bs sl where c: "calm p L (cst T bs sl I) s" "bcache (p_pid (procs T p)) d V I R H bs sl"
    unfolding fscl_def by blast
  have "calm p L (cst (T\<lparr>klog := g (klog T)\<rparr>) bs sl I) (s\<lparr>klog := g (klog s)\<rparr>)"
    using calm_klog [OF c(1), of "g (klog T)"] fscl_klog [OF s] by (simp add: cst_klog)
  then have "fscl L p d V I R H (T\<lparr>klog := g (klog T)\<rparr>) (s\<lparr>klog := g (klog s)\<rparr>)"
    using c(2) by (intro fsclI) simp_all
  then show "\<exists>x s'. upd_log g e s = Ret x e s' \<and> x = () \<and> fscl L p d V I R H (T\<lparr>klog := g (klog T)\<rparr>) s'"
    by (simp add: upd_log_def)
qed

lemma fscl_blockno:
  assumes "H w = Some b"
  shows "triple (fscl L p d V I R H T) (get_buf b b_blockno) (\<lambda>x s. x = w \<and> fscl L p d V I R H T s)"
proof (rule triple_fsclI)
  fix bs sl
  assume c: "bcache (p_pid (procs T p)) d V I R H bs sl"
  show "triple (calm p L (cst T bs sl I)) (get_buf b b_blockno) (\<lambda>x s. x = w \<and> fscl L p d V I R H T s)"
    using c bcacheD(12) [OF c assms] by (intro triple_last [OF calm_triples(3)]) (auto intro: fsclI)
qed

lemma fscl_bpin:
  assumes b: "H w = Some b" and w: "R w + 1 < 2 ^ 32" and L: "Bcache_lock \<notin> L"
  shows "triple (fscl L p d V I R H T) (bpin b) (\<lambda>x s. x = () \<and> fscl L p d V I (R(w := R w + 1)) H T s)"
proof (rule triple_fsclI)
  fix bs sl
  assume c: "bcache (p_pid (procs T p)) d V I R H bs sl"
  note B = bcacheD(10-14) [OF c b]
  let ?r = "b_refcnt (bs b) + 1"
  let ?bs = "bs(b := (bs b)\<lparr>b_refcnt := ?r\<rparr>)"
  have r: "unat ?r = R w + 1" using bcacheD(6) [OF c B(1,2)] B(3) w by (simp add: unat_inc)
  have "bcache (p_pid (procs T p)) d V I (R(w := unat ?r)) (H(w := Some b)) ?bs (sl(Buf_lock b := sl (Buf_lock b)))"
    using B(5) by (intro bcache_ref [OF c B(1-3)]) (simp_all add: r)
  then have "bcache (p_pid (procs T p)) d V I (R(w := R w + 1)) H ?bs sl"
    using b by (simp add: r fun_upd_idem)
  note e = fsclI [OF this]
  have rel: "triple (calm p (insert Bcache_lock L) S) (release Bcache_lock) (\<lambda>x s. x = () \<and> calm p L S s)" for S
    using calm_triples(2) [of Bcache_lock "insert Bcache_lock L" p S] L by simp
  have pin: "triple (calm p L (cst T bs sl I)) (bpin b) (\<lambda>x s. x = () \<and> calm p L (cst T ?bs sl I) s)"
    unfolding bpin_def by (rule triple_step [OF calm_triples(1) [OF L]], rule triple_step [OF calm_upd_buf], rule rel)
  show "triple (calm p L (cst T bs sl I)) (bpin b) (\<lambda>x s. x = () \<and> fscl L p d V I (R(w := R w + 1)) H T s)"
    by (rule triple_last [OF pin], intro conjI refl, erule e)
qed

subsection \<open>What \<open>log_write\<close> notes\<close>

definition note_pos :: "uint32 \<Rightarrow> log \<Rightarrow> nat" where
  "note_pos w K = (case find (\<lambda>i. blk K i = w) [0..<log_len K] of Some i \<Rightarrow> i | None \<Rightarrow> log_len K)"

definition noted :: "uint32 \<Rightarrow> log \<Rightarrow> log" where
  "noted w K = (if int (note_pos w K) = lh_n (lg_lh K)
     then set_lh_n (lh_n (lg_lh K) + 1) (set_lh_block (note_pos w K) (sint w) K)
     else set_lh_block (note_pos w K) (sint w) K)"

definition pinned :: "log \<Rightarrow> uint32 set" where
  "pinned K = blk K ` {..<log_len K}"

definition pins :: "log \<Rightarrow> uint32 \<Rightarrow> nat" where
  "pins K w = (if w \<in> pinned K then 1 else 0)"

lemma set_lh_block_fields [simp]:
  "lg_start (set_lh_block i v K) = lg_start K" "lg_dev (set_lh_block i v K) = lg_dev K"
  "lg_size (set_lh_block i v K) = lg_size K" "lg_outstanding (set_lh_block i v K) = lg_outstanding K"
  "lg_committing (set_lh_block i v K) = lg_committing K" "lh_n (lg_lh (set_lh_block i v K)) = lh_n (lg_lh K)"
  "lh_block (lg_lh (set_lh_block i v K)) = (lh_block (lg_lh K))(i := v)"
  "lg_size (set_lh_n n K) = lg_size K" "lg_outstanding (set_lh_n n K) = lg_outstanding K"
  "lg_committing (set_lh_n n K) = lg_committing K"
  by (simp_all add: set_lh_block_def set_lh_n_def)

lemma noted_fields [simp]:
  "lg_start (noted w K) = lg_start K" "lg_dev (noted w K) = lg_dev K" "lg_size (noted w K) = lg_size K"
  "lg_outstanding (noted w K) = lg_outstanding K" "lg_committing (noted w K) = lg_committing K"
  by (simp_all add: noted_def)

lemma of_sint [simp]: "(of_int (sint (w :: uint32)) :: uint32) = w"
  by simp

lemma note_pos_old:
  assumes "w \<in> pinned K"
  shows "note_pos w K < log_len K" "blk K (note_pos w K) = w"
proof -
  obtain i where i: "find (\<lambda>i. blk K i = w) [0..<log_len K] = Some i"
    using assms by (cases "find (\<lambda>i. blk K i = w) [0..<log_len K]") (auto simp: pinned_def find_None_iff)
  then have "note_pos w K = i" by (simp add: note_pos_def)
  then show "note_pos w K < log_len K" "blk K (note_pos w K) = w"
    using i by (auto simp: find_Some_iff)
qed

lemma note_pos_new: "w \<notin> pinned K \<Longrightarrow> note_pos w K = log_len K"
  by (auto simp: note_pos_def pinned_def find_Some_iff split: option.splits)

lemma noted_old:
  assumes "w \<in> pinned K" "0 \<le> lh_n (lg_lh K)"
  shows "log_len (noted w K) = log_len K" "blk (noted w K) i = blk K i" "0 \<le> lh_n (lg_lh (noted w K))"
proof -
  have "int (note_pos w K) \<noteq> lh_n (lg_lh K)" using note_pos_old(1) [OF assms(1)] assms(2) by auto
  then have "noted w K = set_lh_block (note_pos w K) (sint w) K" by (simp add: noted_def)
  then show "log_len (noted w K) = log_len K" "blk (noted w K) i = blk K i" "0 \<le> lh_n (lg_lh (noted w K))"
    using note_pos_old(2) [OF assms(1)] assms(2) by auto
qed

lemma noted_new:
  assumes "w \<notin> pinned K" "0 \<le> lh_n (lg_lh K)"
  shows "log_len (noted w K) = Suc (log_len K)" "blk (noted w K) i = (if i = log_len K then w else blk K i)"
    "0 \<le> lh_n (lg_lh (noted w K))"
proof -
  have "int (note_pos w K) = lh_n (lg_lh K)" using note_pos_new [OF assms(1)] assms(2) by simp
  then have "noted w K = set_lh_n (lh_n (lg_lh K) + 1) (set_lh_block (log_len K) (sint w) K)"
    using note_pos_new [OF assms(1)] by (simp add: noted_def)
  then show "log_len (noted w K) = Suc (log_len K)" "blk (noted w K) i = (if i = log_len K then w else blk K i)"
      "0 \<le> lh_n (lg_lh (noted w K))"
    using assms(2) by (auto simp: nat_add_distrib)
qed

lemma pinned_noted: "0 \<le> lh_n (lg_lh K) \<Longrightarrow> pinned (noted w K) = insert w (pinned K)"
  by (cases "w \<in> pinned K") (auto simp: pinned_def noted_old noted_new lessThan_Suc)

lemma log_names_noted:
  assumes "log_names d K" "w \<notin> log_area (lg_start K)" "unat w < 2 ^ 31" "log_len K < NLOG"
  shows "log_names d (noted w K)"
proof -
  have n: "0 \<le> lh_n (lg_lh K)" using assms(1) by (simp add: log_names_def)
  show ?thesis
  proof (cases "w \<in> pinned K")
    case True
    then show ?thesis using assms(1) by (simp add: log_names_def noted_old [OF True n])
  next
    case False
    then have "inj_on (blk (noted w K)) {..<Suc (log_len K)}"
      using assms(1) unfolding log_names_def home_blocks_def
      by (auto simp: inj_on_def noted_new [OF False n] pinned_def less_Suc_eq)
    then show ?thesis
      using assms by (auto simp: log_names_def home_blocks_def noted_new [OF False n] less_Suc_eq)
  qed
qed

lemma card_pinned: "inj_on (blk K) {..<log_len K} \<Longrightarrow> card (pinned K) = log_len K"
  by (simp add: pinned_def card_image)

lemma pins_set: "{v. 0 < pins K v} = pinned K"
  by (auto simp: pins_def)

text \<open>
  \<open>log_write\<close> on a locked buffer, inside a transaction and with room in the log: the block is
  noted, once, and stays in the cache until the commit.
\<close>

definition log_room :: "log \<Rightarrow> bool" where
  "log_room K \<longleftrightarrow> 0 \<le> lh_n (lg_lh K) \<and> log_len K < NLOG \<and> lh_n (lg_lh K) < lg_size K - 1 \<and> 1 \<le> lg_outstanding K"

lemma log_roomD:
  "log_room K \<Longrightarrow> \<not> (int LOGSIZE \<le> lh_n (lg_lh K) \<or> lg_size K - 1 \<le> lh_n (lg_lh K))"
  "log_room K \<Longrightarrow> \<not> lg_outstanding K < 1"
  by (auto simp: log_room_def NLOG_def)

lemma fsc_log_write:
  fixes T :: "'z lstate_scheme"
  assumes b: "H w = Some b" "R w + 1 < 2 ^ 32" and K: "K = klog T" "log_room K"
    and R': "R' = (if w \<in> pinned K then R else R(w := R w + 1))"
  shows "triple (fsc p d V I R H T) (log_write b) (\<lambda>x s. x = () \<and> fsc p d V I R' H (T\<lparr>klog := noted w K\<rparr>) s)"
proof -
  let ?L = "{Log_lock}" and ?i = "note_pos w K" and ?n = "lh_n (lg_lh K)"
  let ?K1 = "set_lh_block ?i (sint w) K"
  have new: "int ?i = ?n \<longleftrightarrow> w \<notin> pinned K"
    using note_pos_new [of w K] note_pos_old(1) [of w K] K(2) by (auto simp: log_room_def)
  have pin: "triple (fscl ?L p d V I R H (T\<lparr>klog := ?K1\<rparr>))
      (whenM (int ?i = ?n) (bind (bpin b) (\<lambda>_. upd_log (\<lambda>l. set_lh_n (lh_n (lg_lh l) + 1) l))))
      (\<lambda>x s. x = () \<and> fscl ?L p d V I R' H (T\<lparr>klog := noted w K\<rparr>) s)"
  proof (cases "w \<in> pinned K")
    case True
    then show ?thesis using new by (simp add: whenM_def triple_return R' noted_def)
  next
    case False
    have u: "triple (fscl ?L p d V I R' H (T\<lparr>klog := ?K1\<rparr>)) (upd_log (\<lambda>l. set_lh_n (lh_n (lg_lh l) + 1) l))
        (\<lambda>x s. x = () \<and> fscl ?L p d V I R' H (T\<lparr>klog := noted w K\<rparr>) s)"
      using fscl_upd_log [of ?L p d V I R' H "T\<lparr>klog := ?K1\<rparr>" "\<lambda>l. set_lh_n (lh_n (lg_lh l) + 1) l"] False new
      by (simp add: noted_def)
    have "triple (fscl ?L p d V I R H (T\<lparr>klog := ?K1\<rparr>)) (bpin b) (\<lambda>x s. x = () \<and> fscl ?L p d V I R' H (T\<lparr>klog := ?K1\<rparr>) s)"
      using fscl_bpin [of H w b R ?L p d V I "T\<lparr>klog := ?K1\<rparr>"] b False by (simp add: R')
    from triple_step [OF this u] show ?thesis using False new by (simp add: whenM_def)
  qed
  have set_k: "triple (fscl ?L p d V I R H T) (upd_log (set_lh_block ?i (sint w)))
      (\<lambda>x s. x = () \<and> fscl ?L p d V I R H (T\<lparr>klog := ?K1\<rparr>) s)"
    using fscl_upd_log [of ?L p d V I R H T "set_lh_block ?i (sint w)"] K(1) by simp
  have tail: "triple (fscl ?L p d V I R H T)
      (bind (return ?i) (\<lambda>i. bind (upd_log (set_lh_block i (sint w))) (\<lambda>_.
        bind (whenM (int i = ?n) (bind (bpin b) (\<lambda>_. upd_log (\<lambda>l. set_lh_n (lh_n (lg_lh l) + 1) l)))) (\<lambda>_.
        release Log_lock))))
      (\<lambda>x s. x = () \<and> fsc p d V I R' H (T\<lparr>klog := noted w K\<rparr>) s)"
    unfolding bind_return_left
    by (rule triple_step [OF set_k], rule triple_step [OF pin], rule fscl_leave)
  show ?thesis
    unfolding log_write_def
    apply (rule triple_step [OF fscl_enter])
    apply (rule triple_step [OF fscl_get_log])
    apply (simp only: id_apply K(1) [symmetric] log_roomD [OF K(2)] if_False)
    apply (rule triple_step [OF fscl_blockno [of H w b, OF b(1)]])
    unfolding note_pos_def [symmetric] by (rule tail)
qed

text \<open>The use of the log that its comment describes.\<close>

definition logged_update :: "uint32 \<Rightarrow> uint32 \<Rightarrow> (uint8 list \<Rightarrow> uint8 list) \<Rightarrow> ('z lstate_scheme, unit) M" where
  "logged_update d w g =
     bind (bread d w) (\<lambda>b.
     bind (upd_buf b (\<lambda>x. x\<lparr>b_data := g (b_data x)\<rparr>)) (\<lambda>_.
     bind (log_write b) (\<lambda>_.
     brelse b)))"

lemma pins_noted: "0 \<le> lh_n (lg_lh K) \<Longrightarrow> pins (noted w K) = (pins K)(w := 1)"
  by (auto simp: pins_def pinned_noted fun_eq_iff)

lemma ok_logged_update:
  fixes T :: "'z lstate_scheme"
  assumes dev: "virtio_device dev" and K: "K = klog T" "log_room K" "inj_on (blk K) {..<log_len K}"
    and w: "unat w < 2 ^ 31" and g: "\<And>bs. length bs = BSIZE \<Longrightarrow> length (g bs) = BSIZE"
  shows "ok (disk_turn dev p) 1 (fsc p d V I (pins K) (\<lambda>_. None) T) (logged_update d w g)
     (\<lambda>x s. x = () \<and> fsc p d (V(w := g (V w))) I (pins (noted w K)) (\<lambda>_. None) (T\<lparr>klog := noted w K\<rparr>) s) (\<lambda>t. image t = I)"
proof (rule ok_pre [OF fsc_length], assumption)
  let ?R1 = "(pins K)(w := pins K w + 1)" and ?H = "\<lambda>b. (\<lambda>_. None)(w \<mapsto> b :: nat)" and ?V = "V(w := g (V w))"
  define R2 where "R2 = (pins K)(w := 2)"
  assume len: "length (V w) = BSIZE"
  have n: "0 \<le> lh_n (lg_lh K)" using K(2) by (simp add: log_room_def)
  have c: "card {v. 0 < pins K v} < NBUF"
    using K(2) card_pinned [OF K(3)] by (auto simp: pins_set log_room_def NLOG_def NBUF_def LOGSIZE_def)
  have r: "ok (disk_turn dev p) 1 (fsc p d V I (pins K) (\<lambda>_. None) T) (bread d w)
      (\<lambda>b. fsc p d V I ?R1 (?H b) T) (\<lambda>t. image t = I)"
    by (rule ok_bread [OF dev]) (use w c in \<open>auto simp: pins_def\<close>)
  have u: "triple (fsc p d V I ?R1 (?H b) T) (upd_buf b (\<lambda>x. x\<lparr>b_data := g (b_data x)\<rparr>))
      (\<lambda>x s. x = () \<and> fsc p d ?V I ?R1 (?H b) T s)" for b
    by (rule fsc_upd_data) (use g len in auto)
  have lw: "triple (fsc p d ?V I ?R1 (?H b) T) (log_write b) (\<lambda>x s. x = () \<and> fsc p d ?V I R2 (?H b) (T\<lparr>klog := noted w K\<rparr>) s)" for b
    by (rule fsc_log_write [where w = w, OF _ _ K(1,2)]) (auto simp: pins_def R2_def fun_eq_iff)
  have rel: "triple (fsc p d ?V I R2 (?H b) (T\<lparr>klog := noted w K\<rparr>)) (brelse b)
      (\<lambda>x s. x = () \<and> fsc p d ?V I (pins (noted w K)) (\<lambda>_. None) (T\<lparr>klog := noted w K\<rparr>) s)" for b
    using fsc_brelse [of "?H b" w b R2 ?V I p d "T\<lparr>klog := noted w K\<rparr>"] by (simp add: R2_def pins_noted [OF n])
  show "ok (disk_turn dev p) 1 (fsc p d V I (pins K) (\<lambda>_. None) T) (logged_update d w g)
     (\<lambda>x s. x = () \<and> fsc p d ?V I (pins (noted w K)) (\<lambda>_. None) (T\<lparr>klog := noted w K\<rparr>) s) (\<lambda>t. image t = I)"
    unfolding logged_update_def
    by (rule ok_thenI [OF r, where l = 0])
      (rule ok_then_triple [OF u], rule ok_then_triple [OF lw], rule ok_triple [OF rel], simp)
qed

subsection \<open>A transaction\<close>

type_synonym update = "uint32 \<times> (uint8 list \<Rightarrow> uint8 list)"

definition apply_update :: "update \<Rightarrow> (uint32 \<Rightarrow> uint8 list) \<Rightarrow> uint32 \<Rightarrow> uint8 list" where
  "apply_update u V = V(fst u := snd u (V (fst u)))"

definition transaction :: "uint32 \<Rightarrow> update list \<Rightarrow> ('z lstate_scheme, unit) M" where
  "transaction d us =
     bind begin_op (\<lambda>_.
     bind (for_each us (\<lambda>u. logged_update d (fst u) (snd u))) (\<lambda>_.
     end_op))"

text \<open>
  The updates one system call may make: blocks outside the log, whole blocks, and no more
  than \<open>MAXOPBLOCKS\<close> different ones, which is what \<open>begin_op\<close> reserves.
\<close>

definition fits :: "int \<Rightarrow> update list \<Rightarrow> bool" where
  "fits st us \<longleftrightarrow> card (fst ` set us) \<le> MAXOPBLOCKS \<and>
     (\<forall>u \<in> set us. fst u \<notin> log_area st \<and> unat (fst u) < 2 ^ 31 \<and> (\<forall>bs. length bs = BSIZE \<longrightarrow> length (snd u bs) = BSIZE))"

definition log_ready :: "uint32 \<Rightarrow> int \<Rightarrow> log \<Rightarrow> bool" where
  "log_ready d st K \<longleftrightarrow> log_pos st \<and> lg_start K = st \<and> d = of_int (lg_dev K) \<and> lg_size K = int LOGSIZE \<and>
     lg_committing K = 0 \<and> lh_n (lg_lh K) = 0"

lemma log_ready_names: "log_ready d st K \<Longrightarrow> log_names d K" "log_ready d st K \<Longrightarrow> pins K = (\<lambda>_. 0)"
  by (auto simp: log_ready_def log_names_def home_blocks_def pins_def pinned_def)

lemma ok_updates:
  fixes T :: "'z lstate_scheme"
  assumes dev: "virtio_device dev" and K: "klog T = K" "log_names d K" "lg_start K = st" "lg_size K = int LOGSIZE" "1 \<le> lg_outstanding K"
    and c: "card (pinned K \<union> fst ` set us) \<le> MAXOPBLOCKS"
    and u: "\<forall>u \<in> set us. fst u \<notin> log_area st \<and> unat (fst u) < 2 ^ 31 \<and> (\<forall>bs. length bs = BSIZE \<longrightarrow> length (snd u bs) = BSIZE)"
  shows "ok (disk_turn dev p) (length us) (fsc p d V I (pins K) (\<lambda>_. None) T)
     (for_each us (\<lambda>u. logged_update d (fst u) (snd u)))
     (\<lambda>x s. x = () \<and> fsc p d (fold apply_update us V) I (pins (fold (\<lambda>u. noted (fst u)) us K)) (\<lambda>_. None)
        (T\<lparr>klog := fold (\<lambda>u. noted (fst u)) us K\<rparr>) s) (\<lambda>t. image t = I)"
  using K c u
proof (induction us arbitrary: T K V)
  case Nil
  show ?case
    unfolding for_each.simps list.size fold.simps id_apply
    by (rule ok_triple [OF triple_return]) (use Nil.prems(1) in auto)
next
  case (Cons u us)
  obtain w g where wg: "u = (w, g)" by (cases u)
  let ?K = "noted (fst u) K"
  have inj: "inj_on (blk K) {..<log_len K}" "0 \<le> lh_n (lg_lh K)" using Cons.prems(2) by (simp_all add: log_names_def home_blocks_def)
  have "finite (pinned K \<union> fst ` set (u # us))" by (simp add: pinned_def)
  then have "card (pinned K) \<le> MAXOPBLOCKS" using Cons.prems(6) card_mono le_trans by (metis Un_upper1)
  then have len: "log_len K \<le> MAXOPBLOCKS" using card_pinned [OF inj(1)] by simp
  then have room: "log_room K" "log_len K < NLOG"
    using Cons.prems(4,5) inj(2) by (simp_all add: log_room_def NLOG_def LOGSIZE_def MAXOPBLOCKS_def)
  have n: "log_names d ?K" by (rule log_names_noted) (use Cons.prems(2,3,7) room(2) wg in auto)
  have "pinned ?K \<union> fst ` set us = pinned K \<union> fst ` set (u # us)" using wg by (auto simp: pinned_noted [OF inj(2)])
  then have c: "card (pinned ?K \<union> fst ` set us) \<le> MAXOPBLOCKS" using Cons.prems(6) by simp
  have V: "apply_update (w, g) V = V(w := g (V w))" by (simp add: apply_update_def)
  have s1: "ok (disk_turn dev p) 1 (fsc p d V I (pins K) (\<lambda>_. None) T) (logged_update d (fst u) (snd u))
      (\<lambda>x s. x = () \<and> fsc p d (apply_update u V) I (pins ?K) (\<lambda>_. None) (T\<lparr>klog := ?K\<rparr>) s) (\<lambda>t. image t = I)"
    unfolding wg V fst_conv snd_conv
    by (rule ok_logged_update [OF dev Cons.prems(1) [symmetric] room(1) inj(1)]) (use Cons.prems(7) wg in auto)
  have s2: "ok (disk_turn dev p) (length us) (fsc p d (apply_update u V) I (pins ?K) (\<lambda>_. None) (T\<lparr>klog := ?K\<rparr>))
     (for_each us (\<lambda>u. logged_update d (fst u) (snd u)))
     (\<lambda>x s. x = () \<and> fsc p d (fold apply_update us (apply_update u V)) I (pins (fold (\<lambda>u. noted (fst u)) us ?K)) (\<lambda>_. None)
        (T\<lparr>klog := ?K, klog := fold (\<lambda>u. noted (fst u)) us ?K\<rparr>) s) (\<lambda>t. image t = I)"
    by (rule Cons.IH) (use n c Cons.prems(3-7) in simp_all)
  have e: "T\<lparr>klog := ?K, klog := k\<rparr> = T\<lparr>klog := k\<rparr>" for k by simp
  show ?case
    unfolding for_each.simps fold.simps comp_apply by (rule ok_step [OF s1 s2 [unfolded e]]) simp
qed

lemma fold_noted:
  assumes "log_names d K" "fits (lg_start K) us" "pinned K \<union> fst ` set us \<subseteq> B" "finite B" "card B \<le> MAXOPBLOCKS"
  shows "log_names d (fold (\<lambda>u. noted (fst u)) us K) \<and> log_len (fold (\<lambda>u. noted (fst u)) us K) \<le> MAXOPBLOCKS \<and>
     pinned (fold (\<lambda>u. noted (fst u)) us K) = pinned K \<union> fst ` set us \<and>
     lg_start (fold (\<lambda>u. noted (fst u)) us K) = lg_start K \<and> lg_dev (fold (\<lambda>u. noted (fst u)) us K) = lg_dev K \<and>
     lg_size (fold (\<lambda>u. noted (fst u)) us K) = lg_size K \<and>
     lg_outstanding (fold (\<lambda>u. noted (fst u)) us K) = lg_outstanding K \<and> lg_committing (fold (\<lambda>u. noted (fst u)) us K) = lg_committing K"
  using assms(1-3)
proof (induction us arbitrary: K)
  case Nil
  have "card (pinned K) \<le> card B" using Nil.prems(3) assms(4) by (simp add: card_mono)
  then show ?case using Nil.prems(1) assms(5) card_pinned [of K] by (simp add: log_names_def home_blocks_def)
next
  case (Cons u us)
  let ?w = "fst u"
  have k: "0 \<le> lh_n (lg_lh K)" "inj_on (blk K) {..<log_len K}" using Cons.prems(1) by (simp_all add: log_names_def home_blocks_def)
  have "card (pinned K) \<le> card B" using Cons.prems(3) assms(4) by (intro card_mono) auto
  then have "log_len K < NLOG" using card_pinned [OF k(2)] assms(5) by (simp add: NLOG_def LOGSIZE_def MAXOPBLOCKS_def)
  then have n: "log_names d (noted ?w K)"
    using Cons.prems(1,2) by (intro log_names_noted) (auto simp: fits_def)
  have "card (fst ` set us) \<le> card (fst ` set (u # us))" by (intro card_mono) auto
  then have "fits (lg_start (noted ?w K)) us" using Cons.prems(2) unfolding fits_def by auto
  from Cons.IH [OF n this] Cons.prems(3) show ?case by (auto simp: pinned_noted [OF k(1)])
qed

lemma calm_log:
  fixes S :: "'z lstate_scheme"
  shows "triple (calm p L S) (get_log f) (\<lambda>x s. x = f (klog S) \<and> calm p L S s)"
    "triple (calm p L S) (upd_log g) (\<lambda>x s. x = () \<and> calm p L (S\<lparr>klog := g (klog S)\<rparr>) s)"
proof -
  have k: "klog s = klog S" if "calm p L S s" for s by (rule vsim_klog [OF calm_vsim [OF that]])
  show "triple (calm p L S) (get_log f) (\<lambda>x s. x = f (klog S) \<and> calm p L S s)"
    by (rule tripleI) (auto simp: get_log_def k)
  show "triple (calm p L S) (upd_log g) (\<lambda>x s. x = () \<and> calm p L (S\<lparr>klog := g (klog S)\<rparr>) s)"
    by (rule tripleI) (use calm_klog in \<open>auto simp: upd_log_def k\<close>)
qed

definition begin_body :: "('z lstate_scheme, unit option) M" where
  "begin_body =
     bind (get_log id) (\<lambda>l.
        if lg_committing l \<noteq> 0 then
          bind (sleep Chan_log Log_lock) (\<lambda>_. return None)
        else if lh_n (lg_lh l) + (lg_outstanding l + 1) * int MAXOPBLOCKS > int LOGSIZE then
          bind (sleep Chan_log Log_lock) (\<lambda>_. return None)
        else
          bind (upd_log (\<lambda>l. l\<lparr>lg_outstanding := lg_outstanding l + 1\<rparr>)) (\<lambda>_.
          bind (release Log_lock) (\<lambda>_.
          return (Some ()))))"

lemma begin_op_body: "begin_op = bind (acquire Log_lock) (\<lambda>_. while_sleep begin_body)"
  unfolding begin_op_def begin_body_def ..

definition admits :: "log \<Rightarrow> bool" where
  "admits K \<longleftrightarrow> lg_committing K = 0 \<and> lh_n (lg_lh K) + (lg_outstanding K + 1) * int MAXOPBLOCKS \<le> int LOGSIZE"

definition opened :: "log \<Rightarrow> log" where
  "opened K = K\<lparr>lg_outstanding := lg_outstanding K + 1\<rparr>"

lemma calm_begin_op:
  fixes S :: "'z lstate_scheme"
  assumes K: "K = klog S" "admits K"
  shows "triple (calm p {} S) begin_op (\<lambda>x s. x = () \<and> calm p {} (S\<lparr>klog := opened K\<rparr>) s)"
proof -
  have c: "(lg_committing K \<noteq> 0) = False" "(lh_n (lg_lh K) + (lg_outstanding K + 1) * int MAXOPBLOCKS > int LOGSIZE) = False"
    using K(2) by (simp_all add: admits_def)
  have u: "triple (calm p {Log_lock} S) (upd_log (\<lambda>l. l\<lparr>lg_outstanding := lg_outstanding l + 1\<rparr>))
      (\<lambda>x s. x = () \<and> calm p {Log_lock} (S\<lparr>klog := opened K\<rparr>) s)"
    using calm_log(2) [of p "{Log_lock}" S "\<lambda>l. l\<lparr>lg_outstanding := lg_outstanding l + 1\<rparr>"] K(1) by (simp add: opened_def)
  have b: "triple (calm p {Log_lock} S) begin_body (\<lambda>x s. x = Some () \<and> calm p {} (S\<lparr>klog := opened K\<rparr>) s)"
    unfolding begin_body_def
    apply (rule triple_step [OF calm_log(1)])
    apply (simp only: id_apply K(1) [symmetric] c if_False)
    by (rule triple_step [OF u], rule triple_step [OF calm_enter(2)], rule triple_return) simp
  show ?thesis
    unfolding begin_op_body by (rule triple_step [OF calm_enter(1)], rule triple_while_sleep [OF b])
qed

text \<open>Without room the caller sleeps, and the log stays as it is.\<close>

lemma calm_begin_op_waits:
  fixes S :: "'z lstate_scheme"
  assumes s: "calm p {} S s" and K: "K = klog S" "\<not> admits K"
  shows "\<exists>t. begin_op [] s = Block t \<and> klog t = K"
proof -
  obtain s1 where s1: "acquire Log_lock [] s = Ret () [] s1" "calm p {Log_lock} S s1"
    using tripleD [OF calm_enter(1) s, of Log_lock "[]"] by auto
  obtain d ch where d: "dcfg {Log_lock} (Some p) p (RUNNING, ch) d S s1" using s1(2) unfolding calm_def by blast
  note z = dcfg_asleep [OF d, of Chan_log]
  have "klog (asleep p Chan_log Log_lock s1) = K"
    using z(3) K(1) vsim_klog unfolding dcfg_def by blast
  moreover have "klog s1 = K" using vsim_klog [OF calm_vsim [OF s1(2)]] K(1) by simp
  then have "begin_body [] s1 = Block (asleep p Chan_log Log_lock s1)"
    using K(2) z(1) by (auto simp: begin_body_def get_log_def admits_def)
  then have "begin_op [] s = Block (asleep p Chan_log Log_lock s1)"
    unfolding begin_op_body using s1(1) by (simp add: while_sleep_Block)
  ultimately show ?thesis by blast
qed

lemma triple_begin_op:
  fixes T :: "'z lstate_scheme"
  assumes K: "K = klog T" "admits K"
  shows "triple (fsc p d V I R H T) begin_op (\<lambda>x s. x = () \<and> fsc p d V I R H (T\<lparr>klog := opened K\<rparr>) s)"
proof (rule triple_fscI)
  fix bs sl
  assume c: "bcache (p_pid (procs T p)) d V I R H bs sl"
  have b: "triple (calm p {} (cst T bs sl I)) begin_op (\<lambda>x s. x = () \<and> calm p {} (cst (T\<lparr>klog := opened K\<rparr>) bs sl I) s)"
    unfolding cst_klog by (rule calm_begin_op) (use K in simp_all)
  show "triple (calm p {} (cst T bs sl I)) begin_op (\<lambda>x s. x = () \<and> fsc p d V I R H (T\<lparr>klog := opened K\<rparr>) s)"
    by (rule triple_last [OF b]) (use c in \<open>auto intro: fscI\<close>)
qed

lemma log_ready_admits: "log_ready d st K \<Longrightarrow> lg_outstanding K = 0 \<Longrightarrow> admits K"
  by (simp add: log_ready_def admits_def MAXOPBLOCKS_def LOGSIZE_def)

text \<open>
  The state between transactions, when the file system has contents \<open>V\<close>: nothing is pinned,
  the log is empty in memory and on disk.
\<close>

definition fs_idle :: "nat \<Rightarrow> uint32 \<Rightarrow> int \<Rightarrow> (uint32 \<Rightarrow> uint8 list) \<Rightarrow> 'z lstate_scheme \<Rightarrow> bool" where
  "fs_idle p d st V s \<longleftrightarrow> (\<exists>U I T. (\<forall>w. w \<notin> log_area st \<longrightarrow> U w = V w) \<and> hdr_n st I = 0 \<and>
     log_ready d st (klog T) \<and> lg_outstanding (klog T) = 0 \<and> fsc p d U I (\<lambda>_. 0) (\<lambda>_. None) T s)"

text \<open>A disk from which recovery restores \<open>V\<close>.\<close>

definition recovers_to :: "int \<Rightarrow> (uint32 \<Rightarrow> uint8 list) \<Rightarrow> (nat \<Rightarrow> uint8) \<Rightarrow> bool" where
  "recovers_to st V I \<longleftrightarrow> log_wf st I \<and> (\<forall>w. w \<notin> log_area st \<longrightarrow> recovered st I w = V w)"

lemma unpinned_pins: "unpinned (blk K) (log_len K) (pins K) = (\<lambda>_. 0)"
  by (auto simp: unpinned_def pins_def pinned_def fun_eq_iff)

text \<open>The end of \<open>end_op\<close>, after the commit.\<close>

lemma end_op_done:
  fixes T :: "'z lstate_scheme"
  assumes K: "log_pos st" "lg_start K = st" "d = of_int (lg_dev K)" "lg_size K = int LOGSIZE" "lg_outstanding K = 0" "klog T = K"
  shows "triple (committed_state p d V (\<lambda>_. 0) T)
     (bind (acquire Log_lock) (\<lambda>_. bind (upd_log (\<lambda>l. l\<lparr>lg_committing := 0\<rparr>)) (\<lambda>_.
        bind (wakeup (Some Chan_log)) (\<lambda>_. release Log_lock))))
     (\<lambda>x. fs_idle p d st V)"
proof -
  let ?K = "set_lh_n 0 K"
  have t: "triple (fsc p d U J (\<lambda>_. 0) (\<lambda>_. None) (T\<lparr>klog := ?K\<rparr>))
     (bind (acquire Log_lock) (\<lambda>_. bind (upd_log (\<lambda>l. l\<lparr>lg_committing := 0\<rparr>)) (\<lambda>_.
        bind (wakeup (Some Chan_log)) (\<lambda>_. release Log_lock))))
     (\<lambda>x s. x = () \<and> fsc p d U J (\<lambda>_. 0) (\<lambda>_. None) (T\<lparr>klog := ?K\<lparr>lg_committing := 0\<rparr>\<rparr>) s)" for U J
  proof -
    have u: "triple (fscl {Log_lock} p d U J (\<lambda>_. 0) (\<lambda>_. None) (T\<lparr>klog := ?K\<rparr>)) (upd_log (\<lambda>l. l\<lparr>lg_committing := 0\<rparr>))
        (\<lambda>x s. x = () \<and> fscl {Log_lock} p d U J (\<lambda>_. 0) (\<lambda>_. None) (T\<lparr>klog := ?K\<lparr>lg_committing := 0\<rparr>\<rparr>) s)"
      using fscl_upd_log [of "{Log_lock}" p d U J "\<lambda>_. 0" "\<lambda>_. None" "T\<lparr>klog := ?K\<rparr>" "\<lambda>l. l\<lparr>lg_committing := 0\<rparr>"] by simp
    show ?thesis
      by (rule triple_step [OF fscl_enter], rule triple_step [OF u], rule triple_step [OF fscl_wakeup], rule fscl_leave)
  qed
  have r: "log_ready d st (?K\<lparr>lg_committing := 0\<rparr>)" "lg_outstanding (?K\<lparr>lg_committing := 0\<rparr>) = 0"
    using K by (simp_all add: log_ready_def set_lh_n_def)
  show ?thesis
  proof (rule tripleI)
    fix e s
    assume "committed_state p d V (\<lambda>_. 0) T s"
    then obtain U J where s: "\<forall>w. w \<notin> log_area st \<longrightarrow> U w = V w" "hdr_n st J = 0"
        "fsc p d U J (\<lambda>_. 0) (\<lambda>_. None) (T\<lparr>klog := ?K\<rparr>) s"
      unfolding committed_state_def K(6) K(2) by blast
    from tripleD [OF t s(3)] r s(1,2)
    show "\<exists>x s'. bind (acquire Log_lock) (\<lambda>_. bind (upd_log (\<lambda>l. l\<lparr>lg_committing := 0\<rparr>)) (\<lambda>_.
        bind (wakeup (Some Chan_log)) (\<lambda>_. release Log_lock))) e s = Ret x e s' \<and> fs_idle p d st V s'"
      unfolding fs_idle_def by (metis (no_types, lifting) lstate.select_convs(1) lstate.update_convs(1) lstate.surjective)
  qed
qed

lemma ok_end_op:
  fixes T :: "'z lstate_scheme"
  assumes dev: "virtio_device dev" and T: "klog T = K" and n: "log_names d K" "lg_start K = st" "lg_size K = int LOGSIZE"
    and K: "lg_outstanding K = 1" "lg_committing K = 0" and r: "hdr_n st I = 0" "log_len K < NBUF"
  shows "ok (disk_turn dev p) (6 * log_len K + 4) (fsc p d V I (pins K) (\<lambda>_. None) T) end_op
     (\<lambda>_. fs_idle p d st V) (\<lambda>t. all_or_nothing st I V (image t))"
proof (rule ok_pre [where A = "\<forall>w. w \<notin> pinned K \<longrightarrow> V w = disk_block I (unat w)"])
  show "\<And>s. fsc p d V I (pins K) (\<lambda>_. None) T s \<Longrightarrow> \<forall>w. w \<notin> pinned K \<longrightarrow> V w = disk_block I (unat w)"
    using fsc_clean by (fastforce simp: pins_def)
  assume c: "\<forall>w. w \<notin> pinned K \<longrightarrow> V w = disk_block I (unat w)"
  let ?f = "disk_turn dev p" and ?C = "\<lambda>t. all_or_nothing st I V (image t)"
  let ?K1 = "K\<lparr>lg_outstanding := 0\<rparr>"
  define K2 where "K2 = ?K1\<lparr>lg_committing := 1\<rparr>"
  have K2: "lg_lh K2 = lg_lh K" "lg_start K2 = st" "lg_dev K2 = lg_dev K" "lg_size K2 = int LOGSIZE" "lg_outstanding K2 = 0"
    using n by (simp_all add: K2_def)
  have pins2: "pins K2 = pins K" by (simp add: pins_def pinned_def fun_eq_iff K2)
  have inj: "inj_on (blk K) {..<log_len K}" using n(1) by (simp add: log_names_def home_blocks_def)
  have ready: "txn_ready d V I (pins K2) K2"
    unfolding txn_ready_def pins_set pins2 using n(1,2) r c card_pinned [OF inj]
    by (auto simp: log_names_def K2 pins_def pinned_def)
  have u1: "triple (fscl {Log_lock} p d V I (pins K) (\<lambda>_. None) T) (upd_log (\<lambda>l. l\<lparr>lg_outstanding := lg_outstanding l - 1\<rparr>))
      (\<lambda>x s. x = () \<and> fscl {Log_lock} p d V I (pins K) (\<lambda>_. None) (T\<lparr>klog := ?K1\<rparr>) s)"
    using fscl_upd_log [of "{Log_lock}" p d V I "pins K" "\<lambda>_. None" T "\<lambda>l. l\<lparr>lg_outstanding := lg_outstanding l - 1\<rparr>"] K(1) T by simp
  have u2: "triple (fscl {Log_lock} p d V I (pins K) (\<lambda>_. None) (T\<lparr>klog := ?K1\<rparr>)) (upd_log (\<lambda>l. l\<lparr>lg_committing := 1\<rparr>))
      (\<lambda>x s. x = () \<and> fscl {Log_lock} p d V I (pins K2) (\<lambda>_. None) (T\<lparr>klog := K2\<rparr>) s)"
    using fscl_upd_log [of "{Log_lock}" p d V I "pins K" "\<lambda>_. None" "T\<lparr>klog := ?K1\<rparr>" "\<lambda>l. l\<lparr>lg_committing := 1\<rparr>"] by (simp add: K2_def [symmetric] pins2)
  have cm: "ok ?f (6 * log_len K + 4) (fsc p d V I (pins K2) (\<lambda>_. None) (T\<lparr>klog := K2\<rparr>)) commit
      (\<lambda>_. committed_state p d V (\<lambda>_. 0) (T\<lparr>klog := K2\<rparr>)) ?C"
    using ok_commit [OF dev, of K2 "T\<lparr>klog := K2\<rparr>" st d V I "pins K2" p] ready K2(1,2) unpinned_pins [of K2] by simp
  have dn: "triple (committed_state p d V (\<lambda>_. 0) (T\<lparr>klog := K2\<rparr>))
     (bind (acquire Log_lock) (\<lambda>_. bind (upd_log (\<lambda>l. l\<lparr>lg_committing := 0\<rparr>)) (\<lambda>_.
        bind (wakeup (Some Chan_log)) (\<lambda>_. release Log_lock)))) (\<lambda>x. fs_idle p d st V)"
    by (rule end_op_done [where K = K2]) (use n K2 in \<open>simp_all add: log_names_def\<close>)
  have c12: "(lg_committing ?K1 \<noteq> 0) = False" "(lg_outstanding ?K1 = 0) = True" using K by simp_all
  have sel: "klog (T\<lparr>klog := ?K1\<rparr>) = ?K1" by simp
  show "ok ?f (6 * log_len K + 4) (fsc p d V I (pins K) (\<lambda>_. None) T) end_op (\<lambda>_. fs_idle p d st V) ?C"
    unfolding end_op_def
    apply (rule ok_then_triple [OF fscl_enter])
    apply (rule ok_then_triple [OF u1])
    apply (rule ok_then_triple [OF fscl_get_log])
    apply (simp only: id_apply sel c12 if_False if_True bind_assoc)
    apply (rule ok_then_triple [OF u2])
    apply (simp only: bind_return_left)
    apply (rule ok_then_triple [OF fscl_leave])
    apply (simp only: whenM_def if_True)
    by (rule ok_thenI [OF cm ok_triple [OF dn]]) simp
qed

subsection \<open>A whole transaction\<close>

definition txn_cost :: "update list \<Rightarrow> nat" where
  "txn_cost us = length us + 6 * MAXOPBLOCKS + 4"

lemma fold_updates_cong:
  assumes "\<forall>u \<in> set us. fst u \<notin> A" "\<forall>w. w \<notin> A \<longrightarrow> U w = V w"
  shows "\<forall>w. w \<notin> A \<longrightarrow> fold apply_update us U w = fold apply_update us V w"
  using assms
proof (induction us arbitrary: U V)
  case (Cons u us)
  have "\<forall>w. w \<notin> A \<longrightarrow> apply_update u U w = apply_update u V w" using Cons.prems by (auto simp: apply_update_def)
  with Cons show ?case by simp
qed simp

lemma recovers_to_cong: "recovers_to st V I \<Longrightarrow> (\<And>w. w \<notin> log_area st \<Longrightarrow> V w = W w) \<Longrightarrow> recovers_to st W I"
  by (simp add: recovers_to_def)

lemma fs_idle_cong: "fs_idle p d st V s \<Longrightarrow> (\<And>w. w \<notin> log_area st \<Longrightarrow> V w = W w) \<Longrightarrow> fs_idle p d st W s"
  unfolding fs_idle_def by metis

lemma fs_idle_disk:
  assumes "fs_idle p d st V s" "w \<notin> log_area st"
  shows "disk_block (image s) (unat w) = V w"
proof -
  obtain U I T where s: "U w = V w" "fsc p d U I (\<lambda>_. 0) (\<lambda>_. None) T s" using assms unfolding fs_idle_def by blast
  then show ?thesis using fsc_clean [OF s(2), of w] fsc_image [OF s(2)] by simp
qed

lemma all_or_nothing_recovers:
  "all_or_nothing st I V J \<longleftrightarrow> recovers_to st (\<lambda>w. disk_block I (unat w)) J \<or> recovers_to st V J"
  by (auto simp: all_or_nothing_def recovers_to_def)

lemma recovers_empty: "hdr_n st I = 0 \<Longrightarrow> recovers_to st (\<lambda>w. disk_block I (unat w)) I"
  by (simp add: recovers_to_def log_wf_def home_blocks_def recovered_def)

lemma ok_transaction_at:
  fixes T :: "'z lstate_scheme"
  assumes dev: "virtio_device dev" and us: "fits st us" and K: "log_ready d st (klog T)" "lg_outstanding (klog T) = 0"
    and I: "hdr_n st I = 0"
  shows "ok (disk_turn dev p) (txn_cost us) (fsc p d U I (\<lambda>_. 0) (\<lambda>_. None) T) (transaction d us)
     (\<lambda>_. fs_idle p d st (fold apply_update us U))
     (\<lambda>t. recovers_to st (\<lambda>w. disk_block I (unat w)) (image t) \<or> recovers_to st (fold apply_update us U) (image t))"
proof -
  let ?f = "disk_turn dev p" and ?V = "fold apply_update us U"
  let ?C = "\<lambda>t. recovers_to st (\<lambda>w. disk_block I (unat w)) (image t) \<or> recovers_to st ?V (image t)"
  define K0 where "K0 = opened (klog T)"
  define K1 where "K1 = fold (\<lambda>u. noted (fst u)) us K0"
  have k0: "log_names d K0" "lg_start K0 = st" "lg_size K0 = int LOGSIZE" "lg_outstanding K0 = 1" "lg_committing K0 = 0"
      "pinned K0 = {}" "pins K0 = (\<lambda>_. 0)"
    using K log_ready_names [OF K(1)] by (auto simp: K0_def opened_def log_ready_def log_names_def pinned_def pins_def)
  have b: "triple (fsc p d U I (\<lambda>_. 0) (\<lambda>_. None) T) begin_op
      (\<lambda>x s. x = () \<and> fsc p d U I (pins K0) (\<lambda>_. None) (T\<lparr>klog := K0\<rparr>) s)"
    unfolding k0(7) unfolding K0_def by (rule triple_begin_op [OF refl log_ready_admits [OF K]])
  have up: "ok ?f (length us) (fsc p d U I (pins K0) (\<lambda>_. None) (T\<lparr>klog := K0\<rparr>))
     (for_each us (\<lambda>u. logged_update d (fst u) (snd u)))
     (\<lambda>x s. x = () \<and> fsc p d ?V I (pins K1) (\<lambda>_. None) (T\<lparr>klog := K0, klog := K1\<rparr>) s) (\<lambda>t. image t = I)"
    unfolding K1_def by (rule ok_updates [OF dev]) (use k0 us in \<open>auto simp: fits_def\<close>)
  have fn: "log_names d K1" "log_len K1 \<le> MAXOPBLOCKS" "lg_start K1 = st" "lg_size K1 = int LOGSIZE" "lg_outstanding K1 = 1"
      "lg_committing K1 = 0"
    using fold_noted [of d K0 us "fst ` set us"] k0 us by (simp_all add: K1_def fits_def)
  have e: "ok ?f (6 * log_len K1 + 4) (fsc p d ?V I (pins K1) (\<lambda>_. None) (T\<lparr>klog := K0, klog := K1\<rparr>)) end_op
     (\<lambda>_. fs_idle p d st ?V) ?C"
    unfolding all_or_nothing_recovers [symmetric]
    by (rule ok_end_op [OF dev]) (use fn I in \<open>simp_all add: NBUF_def MAXOPBLOCKS_def\<close>)
  have up': "ok ?f (length us) (fsc p d U I (pins K0) (\<lambda>_. None) (T\<lparr>klog := K0\<rparr>))
     (for_each us (\<lambda>u. logged_update d (fst u) (snd u)))
     (\<lambda>x s. x = () \<and> fsc p d ?V I (pins K1) (\<lambda>_. None) (T\<lparr>klog := K0, klog := K1\<rparr>) s) ?C"
    by (rule ok_weaken [OF up]) (use recovers_empty [OF I] in auto)
  show ?thesis
    unfolding transaction_def
    by (rule ok_then_triple [OF b], rule ok_step [OF up' e]) (use fn(2) in \<open>simp add: txn_cost_def\<close>)
qed

lemma ok_transaction:
  fixes dev :: "'z lstate_scheme \<Rightarrow> 'z lstate_scheme"
  assumes "virtio_device dev" "fits st us"
  shows "ok (disk_turn dev p) (txn_cost us) (fs_idle p d st V) (transaction d us) (\<lambda>_. fs_idle p d st (fold apply_update us V))
     (\<lambda>t. recovers_to st V (image t) \<or> recovers_to st (fold apply_update us V) (image t))"
proof -
  have "ok (disk_turn dev p) (txn_cost us) (fsc p d U I (\<lambda>_. 0) (\<lambda>_. None) T) (transaction d us)
      (\<lambda>_. fs_idle p d st (fold apply_update us V))
      (\<lambda>t. recovers_to st V (image t) \<or> recovers_to st (fold apply_update us V) (image t))"
    if i: "\<forall>w. w \<notin> log_area st \<longrightarrow> U w = V w" "hdr_n st I = 0" "log_ready d st (klog T)" "lg_outstanding (klog T) = 0"
    for U I and T :: "'z lstate_scheme"
  proof (rule ok_pre [where A = "\<forall>w. U w = disk_block I (unat w)"])
    show "\<And>s. fsc p d U I (\<lambda>_. 0) (\<lambda>_. None) T s \<Longrightarrow> \<forall>w. U w = disk_block I (unat w)" using fsc_clean by metis
    assume U: "\<forall>w. U w = disk_block I (unat w)"
    have f: "\<forall>w. w \<notin> log_area st \<longrightarrow> fold apply_update us U w = fold apply_update us V w"
      by (rule fold_updates_cong) (use i(1) assms(2) in \<open>auto simp: fits_def\<close>)
    show "ok (disk_turn dev p) (txn_cost us) (fsc p d U I (\<lambda>_. 0) (\<lambda>_. None) T) (transaction d us)
      (\<lambda>_. fs_idle p d st (fold apply_update us V))
      (\<lambda>t. recovers_to st V (image t) \<or> recovers_to st (fold apply_update us V) (image t))"
      by (rule ok_weaken [OF ok_transaction_at [OF assms i(3,4,2)]])
        (use f U i(1) in \<open>auto simp: recovers_to_def elim: fs_idle_cong\<close>)
  qed
  then show ?thesis unfolding ok_def fs_idle_def by blast
qed

subsection \<open>The interface of the log\<close>

text \<open>
  What code above the log relies on: each transaction takes the state from one value to the
  next, and a machine that stops in it leaves the one value or the other.
\<close>

locale atomic_store =
  fixes turn :: "'s \<Rightarrow> 's" and idle :: "'v \<Rightarrow> 's \<Rightarrow> bool" and leaves :: "'v \<Rightarrow> 's \<Rightarrow> bool"
    and tx :: "'u \<Rightarrow> ('s, unit) M" and app :: "'u \<Rightarrow> 'v \<Rightarrow> 'v" and fit :: "'u \<Rightarrow> bool" and cost :: "'u \<Rightarrow> nat"
  assumes tx_law: "fit u \<Longrightarrow> ok turn (cost u) (idle v) (tx u) (\<lambda>_. idle (app u v)) (\<lambda>t. leaves v t \<or> leaves (app u v) t)"
begin

text \<open>A sequence of transactions is cut between two of them.\<close>

lemma tx_sequence:
  assumes "\<forall>u \<in> set us. fit u"
  shows "ok turn (sum_list (map cost us)) (idle v) (for_each us tx) (\<lambda>_. idle (fold app us v))
     (\<lambda>t. \<exists>n \<le> length us. leaves (fold app (take n us) v) t)"
  using assms
proof (induction us arbitrary: v)
  case Nil
  show ?case unfolding for_each.simps list.map sum_list.Nil by (rule ok_triple [OF triple_return]) simp
next
  case (Cons u us)
  let ?C = "\<lambda>t. \<exists>n \<le> length (u # us). leaves (fold app (take n (u # us)) v) t"
  have pre: "leaves v t \<Longrightarrow> ?C t" "leaves (app u v) t \<Longrightarrow> ?C t" for t
    using exI [of "\<lambda>n. n \<le> length (u # us) \<and> leaves (fold app (take n (u # us)) v) t" 0]
      exI [of "\<lambda>n. n \<le> length (u # us) \<and> leaves (fold app (take n (u # us)) v) t" 1] by simp_all
  have 1: "ok turn (cost u) (idle v) (tx u) (\<lambda>_. idle (app u v)) ?C"
    by (rule ok_weaken [OF tx_law]) (use Cons.prems pre in auto)
  have 2: "ok turn (sum_list (map cost us)) (idle (app u v)) (for_each us tx) (\<lambda>_. idle (fold app us (app u v))) ?C"
    by (rule ok_weaken [OF Cons.IH]) (use Cons.prems in \<open>auto intro: exI [of _ "Suc _"]\<close>)
  show ?case unfolding for_each.simps fold.simps comp_apply list.map sum_list.Cons by (rule ok_bind [OF 1 2])
qed

end

lemma atomic_store_transaction:
  fixes dev :: "'z lstate_scheme \<Rightarrow> 'z lstate_scheme"
  assumes "virtio_device dev"
  shows "atomic_store (disk_turn dev p) (fs_idle p d st) (\<lambda>V t. recovers_to st V (image t)) (transaction d)
     (fold apply_update) (fits st) txn_cost"
  by unfold_locales (rule ok_transaction [OF assms])

interpretation blk_log: atomic_store "disk_turn blk_device p" "fs_idle p d st" "\<lambda>V t. recovers_to st V (image t)"
  "transaction d" "fold apply_update" "fits st" txn_cost
  for p d st
  by (rule atomic_store_transaction [OF virtio_device_blk])

subsection \<open>Properties\<close>

definition log0 :: log where
  "log0 = \<lparr>lg_start = 2, lg_size = 30, lg_outstanding = 0, lg_committing = 0, lg_dev = 1, lg_lh = \<lparr>lh_n = 0, lh_block = (\<lambda>_. 0)\<rparr>\<rparr>"

definition fill50 :: "update list" where
  "fill50 = [(50, \<lambda>_. replicate BSIZE 9)]"

lemma log0_ready: "log_ready 1 2 log0"
  by (simp add: log_ready_def log0_def log_pos_def NLOG_def LOGSIZE_def MAXOPBLOCKS_def)

lemma hdr_n_zero: "hdr_n 2 (\<lambda>_. 0) = 0"
  using txn0_ready by (simp add: txn_ready_def log_one_block_def)

lemma idle0: "fs_idle 1 1 2 (\<lambda>_. replicate BSIZE 0) (lst bufs_ring log0 (\<lambda>_. 0))"
  unfolding fs_idle_def using boot_fsc [of "\<lambda>_. 0" log0] hdr_n_zero log0_ready
  by (intro exI conjI) (auto simp: lst_fields log0_def)

lemma fits_fill50: "fits 2 fill50"
  using txn0_ready
  by (auto simp: fits_def fill50_def txn_ready_def log_names_def home_blocks_def log_one_block_def MAXOPBLOCKS_def)

lemma fill50_blocks: "\<exists>t. for_each [fill50] (transaction 1) [] (lst bufs_ring log0 (\<lambda>_. 0)) = Block t"
proof -
  let ?s = "lst bufs_ring log0 (\<lambda>_. 0)" and ?K = "opened log0"
  let ?S = "cst ?s bufs_ring (slocks ?s) (\<lambda>_. 0)"
  have s0: "calm 1 {} ?S ?s" unfolding lst_fields by (rule lst_calm)
  have k: "log0 = klog ?S" by (simp add: lst_fields)
  have "admits log0" using log_ready_admits [OF log0_ready] by (simp add: log0_def)
  from tripleD [OF calm_begin_op [OF k this] s0, of "[]"]
  obtain s1 where s1: "begin_op [] ?s = Ret () [] s1" "calm 1 {} (cst (?s\<lparr>klog := ?K\<rparr>) bufs_ring (slocks ?s) (\<lambda>_. 0)) s1"
    unfolding cst_klog by blast
  have "\<exists>t. bread 1 50 [] s1 = Block t"
  proof (rule bread_miss_blocks [OF _ s1(2)])
    show "bcache (p_pid (procs (?s\<lparr>klog := ?K\<rparr>) 1)) 1 (\<lambda>_. replicate BSIZE 0) (\<lambda>_. 0) (\<lambda>_. 0) (\<lambda>_. None) bufs_ring (slocks ?s)"
      by (rule bcacheI [OF dlist_ring]) (simp_all add: lst_fields bufs_ring_def buf0_def)
  qed (simp_all add: bufs_ring_def buf0_def NBUF_def MAXOPBLOCKS_def)
  then show ?thesis using s1(1) by (auto simp: transaction_def fill50_def logged_update_def)
qed

text \<open>
  C2. Transactions are atomic and ordered. Run any sequence of transactions, each of at most
  \<open>MAXOPBLOCKS\<close> different blocks, and let the machine stop at any of its disk requests: the
  disk it leaves is one from which recovery restores exactly the effect of a prefix of the
  sequence, and if the sequence returns, the disk holds the effect of all of it.
\<close>

theorem transactions_atomic:
  fixes dev :: "'z lstate_scheme \<Rightarrow> 'z lstate_scheme"
  assumes "virtio_device dev" "fs_idle p d st V s" "\<forall>us \<in> set uss. fits st us"
  shows "case for_each uss (transaction d) (replicate k (disk_turn dev p)) s of
      Ret _ _ s' \<Rightarrow> fs_idle p d st (fold (fold apply_update) uss V) s'
    | Block t \<Rightarrow> k < sum_list (map txn_cost uss) \<and> (\<exists>n \<le> length uss. recovers_to st (fold (fold apply_update) (take n uss) V) (image t))
    | _ \<Rightarrow> False"
  using okD [OF atomic_store.tx_sequence [OF atomic_store_transaction [OF assms(1)] assms(3)] assms(2), of k] by auto

theorem transactions_atomic_witness:
  "case for_each [fill50] (transaction 1) (replicate 9 (disk_turn blk_device 1)) (lst bufs_ring log0 (\<lambda>_. 0)) of
      Ret _ _ s' \<Rightarrow> True | Block t \<Rightarrow> \<exists>n \<le> 1. recovers_to 2 (fold (fold apply_update) (take n [fill50]) (\<lambda>_. replicate BSIZE 0)) (image t)
    | _ \<Rightarrow> False"
  using transactions_atomic [OF virtio_device_blk idle0, of "[fill50]" 9] fits_fill50
  by (auto split: outcome.splits)

text \<open>
  C6. The log's contract with \<open>begin_op\<close>. A transaction that returns leaves the state ready
  for the next one with every block of the file system updated on disk, and it does return
  when the disk serves its requests: at most one for each block it reads, and six for each
  block of the commit and four more.
\<close>

theorem transaction_completes:
  fixes dev :: "'z lstate_scheme \<Rightarrow> 'z lstate_scheme"
  assumes "virtio_device dev" "fs_idle p d st V s" "fits st us" "length us + 6 * MAXOPBLOCKS + 4 \<le> k"
  shows "\<exists>e s'. transaction d us (replicate k (disk_turn dev p)) s = Ret () e s' \<and> fs_idle p d st (fold apply_update us V) s' \<and>
     (\<forall>w. w \<notin> log_area st \<longrightarrow> disk_block (image s') (unat w) = fold apply_update us V w)"
proof -
  obtain e s' where s': "transaction d us (replicate k (disk_turn dev p)) s = Ret () e s'" "fs_idle p d st (fold apply_update us V) s'"
    using ok_returns [OF ok_transaction [OF assms(1,3)] assms(2), of k] assms(4) by (auto simp: txn_cost_def)
  then show ?thesis using fs_idle_disk by blast
qed

theorem transaction_completes_witness:
  "\<exists>e s'. transaction 1 fill50 (replicate 65 (disk_turn blk_device 1)) (lst bufs_ring log0 (\<lambda>_. 0)) = Ret () e s' \<and>
     disk_block (image s') 50 = replicate BSIZE 9"
proof -
  have "(50 :: uint32) \<notin> log_area 2" using fits_fill50 by (simp add: fits_def fill50_def)
  then show ?thesis
    using transaction_completes [OF virtio_device_blk idle0 fits_fill50, of 65]
    by (auto simp: fill50_def apply_update_def MAXOPBLOCKS_def dest!: spec [of _ "50 :: uint32"])
qed

text \<open>
  C7. \<open>begin_op\<close> admits a system call exactly when no commit is in progress and the blocks
  noted so far and \<open>MAXOPBLOCKS\<close> for each call in progress, this one included, are at most
  \<open>LOGSIZE\<close>; it then counts the call, so that the bound holds for the state it returns in.
  Otherwise it sleeps and leaves the log as it is.
\<close>

theorem begin_op_reserves:
  fixes S :: "'z lstate_scheme"
  assumes "calm p {} S s"
  shows "case begin_op [] s of
      Ret _ _ s' \<Rightarrow> lg_committing (klog S) = 0 \<and> klog s' = (klog S)\<lparr>lg_outstanding := lg_outstanding (klog S) + 1\<rparr> \<and>
        lh_n (lg_lh (klog s')) + lg_outstanding (klog s') * int MAXOPBLOCKS \<le> int LOGSIZE
    | Block t \<Rightarrow> klog t = klog S \<and>
        (lg_committing (klog S) \<noteq> 0 \<or> lh_n (lg_lh (klog S)) + (lg_outstanding (klog S) + 1) * int MAXOPBLOCKS > int LOGSIZE)
    | _ \<Rightarrow> False"
proof (cases "admits (klog S)")
  case True
  obtain s' where s': "begin_op [] s = Ret () [] s'" "calm p {} (S\<lparr>klog := opened (klog S)\<rparr>) s'"
    using tripleD [OF calm_begin_op [OF refl True] assms, of "[]"] by auto
  have "klog s' = opened (klog S)" using vsim_klog [OF calm_vsim [OF s'(2)]] by simp
  then show ?thesis using s'(1) True by (simp add: admits_def opened_def)
next
  case False
  then show ?thesis using calm_begin_op_waits [OF assms refl False] by (auto simp: admits_def)
qed

theorem begin_op_reserves_witness:
  "\<exists>t. begin_op [] (lst bufs_ring (log0\<lparr>lg_outstanding := 3\<rparr>) (\<lambda>_. 0)) = Block t \<and> lg_outstanding (klog t) = 3"
proof -
  let ?s = "lst bufs_ring (log0\<lparr>lg_outstanding := 3\<rparr>) (\<lambda>_. 0)"
  show ?thesis
    using begin_op_reserves [OF lst_calm [of bufs_ring "log0\<lparr>lg_outstanding := 3\<rparr>" "\<lambda>_. 0"]]
    by (auto simp: lst_fields log0_def MAXOPBLOCKS_def LOGSIZE_def split: outcome.splits)
qed



text \<open>
  C10. \<open>bread\<close> returns a buffer that holds the contents of the block, locked by the caller,
  whether the block is in the cache or comes from disk; at most one disk request is made, no
  block's contents and no other reference or lock change, and while the request is pending
  the disk is as before.
\<close>

theorem bread_correct:
  fixes dev :: "'z vstate_scheme \<Rightarrow> 'z vstate_scheme"
  assumes "virtio_device dev" "fsc p d V I R H T s" "H w = None" "R w + 1 < 2 ^ 32" "unat w < 2 ^ 31"
    "0 < R w \<or> card {v. 0 < R v} < NBUF"
  shows "case bread d w (replicate k (disk_turn dev p)) s of
      Ret b e s' \<Rightarrow> k \<le> length e + 1 \<and> b < NBUF \<and> b_blockno (bufs s' b) = w \<and> b_data (bufs s' b) = V w \<and>
        taken_by (p_pid (procs T p)) (slocks s' (Buf_lock b)) \<and> fsc p d V I (R(w := R w + 1)) (H(w \<mapsto> b)) T s'
    | Block t \<Rightarrow> k = 0 \<and> image t = I
    | _ \<Rightarrow> False"
proof -
  have held: "b < NBUF \<and> b_blockno (bufs s' b) = w \<and> b_data (bufs s' b) = V w \<and> taken_by (p_pid (procs T p)) (slocks s' (Buf_lock b))"
    if s': "fsc p d V I (R(w := R w + 1)) (H(w \<mapsto> b)) T s'" for b s'
  proof -
    obtain bs sl where c: "calm p {} (cst T bs sl I) s'" "bcache (p_pid (procs T p)) d V I (R(w := R w + 1)) (H(w \<mapsto> b)) bs sl"
      using s' unfolding fsc_def by blast
    have "bufs s' = bs" "slocks s' = sl" using vsim_fields [OF calm_vsim [OF c(1)]] by simp_all
    then show ?thesis using bcacheD(5) [OF c(2)] bcacheD(10-14) [OF c(2), of w b] by simp
  qed
  show ?thesis
    using okD [OF ok_bread [OF assms(1), of H w R, OF assms(3-6)] assms(2), of k] held by auto
qed

theorem bread_correct_witness:
  "\<exists>b e s'. bread 1 50 (replicate 1 (disk_turn blk_device 1)) (lst bufs_ring log0 (\<lambda>_. 0)) = Ret b e s' \<and>
     b_data (bufs s' b) = replicate BSIZE 0"
  using bread_correct [OF virtio_device_blk boot_fsc [of "\<lambda>_. 0" log0], of "50 :: uint32" 1]
  by (auto simp: NBUF_def MAXOPBLOCKS_def split: outcome.splits)

end
