(* ===== verification/Inode.thy ===== *)
theory Inode
  imports Fs Transaction
begin

section \<open>Inodes on disk and the contents of files\<close>

text \<open>
  The layout of on-disk inodes, and reading a file through the inode's addresses, the
  indirect block, the buffer cache and the disk: \<open>readi\<close> returns the bytes of the file.
\<close>

subsection \<open>On-disk inodes\<close>

lemma get_put_half_same: "off + 2 \<le> length bs \<Longrightarrow> get_half (put_half off w bs) off = w"
  using get_put_list_same [of off "to_le 2 w" bs] by (simp add: get_half_def put_half_def of_le_to_le)

lemma length_put_half [simp]: "off + 2 \<le> length bs \<Longrightarrow> length (put_half off w bs) = length bs"
  by (simp add: put_half_def)

lemma length_put_word' [simp]: "off + 4 \<le> length bs \<Longrightarrow> length (put_word off w bs) = length bs"
  by (simp add: put_word_def)

lemma chunk_of_concat:
  assumes "\<And>i. length (f i) = n" "i < k"
  shows "take n (drop (n * i) (concat (map f [0..<k]))) = f i"
  using assms(2)
proof (induction k)
  case (Suc k)
  have len: "length (concat (map f [0..<k])) = n * k" by (simp add: length_concat comp_def assms(1) sum_list_triv)
  show ?case
  proof (cases "i < k")
    case True
    then have "n * i + n \<le> n * k" by (metis Suc_leI mult_Suc_right add.commute mult_le_mono2)
    then show ?thesis using Suc.IH [OF True] by (simp add: len)
  next
    case False
    then have "i = k" using Suc.prems by simp
    then show ?thesis by (simp add: len assms(1))
  qed
qed simp

text \<open>Every field of an inode is at its own place: writing one leaves the bytes at other places alone.\<close>

definition apart_from :: "nat \<Rightarrow> nat \<Rightarrow> nat \<Rightarrow> nat \<Rightarrow> bool" where
  "apart_from a n off l \<longleftrightarrow> a + n \<le> off \<or> off + l \<le> a"

lemma field_other:
  assumes "off + length ys \<le> length xs" "apart_from a n off (length ys)" "a + n \<le> length xs"
  shows "take n (drop a (put_list off ys xs)) = take n (drop a xs)"
  using get_put_list_other [of off ys xs a n] assms by (simp add: apart_from_def)

definition inode_addrs :: "inode \<Rightarrow> uint8 list" where
  "inode_addrs x = concat (map (\<lambda>i. to_le 4 (i_addrs x i)) [0..<NDIRECT + 1])"

lemma length_inode_addrs [simp]: "length (inode_addrs x) = 52"
  by (simp add: inode_addrs_def length_concat comp_def NDIRECT_def sum_list_triv)

lemma put_dinode_alt:
  "put_dinode dip x data = put_list (dip + 12) (inode_addrs x) (put_list (dip + 8) (to_le 4 (i_size x))
     (put_list (dip + 6) (to_le 2 (i_nlink x)) (put_list (dip + 4) (to_le 2 (i_minor x))
     (put_list (dip + 2) (to_le 2 (i_major x)) (put_list dip (to_le 2 (i_type x)) data)))))"
  by (simp add: put_dinode_def inode_addrs_def put_word_def put_half_def)

lemma length_put_dinode [simp]: "dip + DINODE_SIZE \<le> length data \<Longrightarrow> length (put_dinode dip x data) = length data"
  by (simp add: put_dinode_alt DINODE_SIZE_def)

lemma put_dinode_other:
  assumes "dip + DINODE_SIZE \<le> length data" "apart_from a n dip DINODE_SIZE" "a + n \<le> length data"
  shows "take n (drop a (put_dinode dip x data)) = take n (drop a data)"
  using assms unfolding apart_from_def
  by (elim disjE) (simp_all add: put_dinode_alt DINODE_SIZE_def apart_from_def field_other del: add_2_eq_Suc')

lemma put_dinode_fields:
  assumes "dip + DINODE_SIZE \<le> length data"
  shows "get_half (put_dinode dip x data) dip = i_type x" "get_half (put_dinode dip x data) (dip + 2) = i_major x"
    "get_half (put_dinode dip x data) (dip + 4) = i_minor x" "get_half (put_dinode dip x data) (dip + 6) = i_nlink x"
    "get_word (put_dinode dip x data) (dip + 8) = i_size x"
    "take 52 (drop (dip + 12) (put_dinode dip x data)) = inode_addrs x"
proof -
  have h: "take 2 (drop off (put_list off (to_le 2 w) bs)) = to_le 2 w" if "off + 2 \<le> length bs" for off bs and w :: uint16
    using get_put_list_same [of off "to_le 2 w" bs] that by simp
  have w: "take 4 (drop off (put_list off (to_le 4 w) bs)) = to_le 4 w" if "off + 4 \<le> length bs" for off bs and w :: uint32
    using get_put_list_same [of off "to_le 4 w" bs] that by simp
  have a: "take 52 (drop off (put_list off (inode_addrs x) bs)) = inode_addrs x" if "off + 52 \<le> length bs" for off bs
    using get_put_list_same [of off "inode_addrs x" bs] that by simp
  note s = put_dinode_alt get_half_def get_word_def DINODE_SIZE_def field_other apart_from_def h w a of_le_to_le
  show "get_half (put_dinode dip x data) dip = i_type x" "get_half (put_dinode dip x data) (dip + 2) = i_major x"
    "get_half (put_dinode dip x data) (dip + 4) = i_minor x" "get_half (put_dinode dip x data) (dip + 6) = i_nlink x"
    "get_word (put_dinode dip x data) (dip + 8) = i_size x"
    "take 52 (drop (dip + 12) (put_dinode dip x data)) = inode_addrs x"
    using assms by (simp_all add: s)
qed

lemma put_dinode_addr:
  assumes "dip + DINODE_SIZE \<le> length data" "i < NDIRECT + 1"
  shows "get_word (put_dinode dip x data) (dip + 12 + 4 * i) = i_addrs x i"
proof -
  have "take 4 (drop (dip + 12 + 4 * i) (put_dinode dip x data)) = take 4 (drop (4 * i) (take 52 (drop (dip + 12) (put_dinode dip x data))))"
    using assms(2) by (simp add: NDIRECT_def drop_take add.commute)
  also have "\<dots> = to_le 4 (i_addrs x i)"
    unfolding put_dinode_fields(6) [OF assms(1)] inode_addrs_def by (rule chunk_of_concat) (use assms(2) in simp_all)
  finally show ?thesis by (simp add: get_word_def of_le_to_le)
qed

lemma dinode_fits: "length data = BSIZE \<Longrightarrow> dinode_off k + DINODE_SIZE \<le> length data"
  using mod_less_divisor [of IPB "unat k"] by (simp add: dinode_off_def IPB_def DINODE_SIZE_def BSIZE_def)

lemma dinode_same:
  assumes "length data = BSIZE"
  shows "get_dinode (dinode_off i) (put_dinode (dinode_off i) x data) y =
      y\<lparr>i_type := i_type x, i_major := i_major x, i_minor := i_minor x, i_nlink := i_nlink x, i_size := i_size x,
        i_addrs := (\<lambda>k. if k < NDIRECT + 1 then i_addrs x k else i_addrs y k)\<rparr>"
  using dinode_fits [OF assms]
  by (simp add: get_dinode_def put_dinode_fields put_dinode_addr cong: if_cong del: add_2_eq_Suc')

lemma dinode_other:
  assumes "length data = BSIZE" "unat i mod IPB \<noteq> unat j mod IPB"
  shows "get_dinode (dinode_off j) (put_dinode (dinode_off i) x data) y = get_dinode (dinode_off j) data y"
proof -
  note fit = dinode_fits [OF assms(1)]
  have "apart_from (dinode_off j) DINODE_SIZE (dinode_off i) DINODE_SIZE"
    using assms(2) by (auto simp: apart_from_def dinode_off_def DINODE_SIZE_def)
  then have a: "take n (drop (dinode_off j + q) (put_dinode (dinode_off i) x data)) = take n (drop (dinode_off j + q) data)"
    if "q + n \<le> DINODE_SIZE" for q n
    using that fit [of j] by (intro put_dinode_other [OF fit]) (auto simp: apart_from_def)
  show ?thesis
    using a [of 0 2] a [of 2 2] a [of 4 2] a [of 6 2] a [of 8 4] a [of "12 + 4 * _" 4]
    by (simp add: get_dinode_def get_half_def get_word_def DINODE_SIZE_def NDIRECT_def add.assoc cong: if_cong del: add_2_eq_Suc')
qed

definition inode_of :: "uint32 \<Rightarrow> inode" where
  "inode_of n = \<lparr>i_dev = 1, i_inum = 2, i_ref = 1, i_valid = 1, i_type = T_FILE, i_major = 0, i_minor = 0, i_nlink = 1,
     i_size = n, i_addrs = (\<lambda>i. 50 + of_nat i)\<rparr>"

text \<open>
  C26. Inodes survive the way to disk and back. What \<open>iupdate\<close> writes into the block, \<open>ilock\<close>
  reads out of it again: type, device numbers, links, size and all thirteen addresses; and
  writing one inode leaves every other inode of the block as it was.
\<close>

theorem dinode_roundtrip:
  assumes "length data = BSIZE"
  shows "get_dinode (dinode_off i) (put_dinode (dinode_off i) x data) y =
      y\<lparr>i_type := i_type x, i_major := i_major x, i_minor := i_minor x, i_nlink := i_nlink x, i_size := i_size x,
        i_addrs := (\<lambda>k. if k < NDIRECT + 1 then i_addrs x k else i_addrs y k)\<rparr> \<and>
    (\<forall>j. unat i mod IPB \<noteq> unat j mod IPB \<longrightarrow>
      get_dinode (dinode_off j) (put_dinode (dinode_off i) x data) y = get_dinode (dinode_off j) data y)"
  using dinode_same [OF assms] dinode_other [OF assms] by blast

theorem dinode_roundtrip_witness:
  "i_size (get_dinode (dinode_off 17) (put_dinode (dinode_off 17) (inode_of 4096) (replicate BSIZE 0)) (inode_of 0)) = 4096"
  using dinode_roundtrip [of "replicate BSIZE 0" 17 "inode_of 4096" "inode_of 0"] by (simp add: inode_of_def)

subsection \<open>Loops that may wait\<close>

lemma ok_loop:
  assumes "\<And>i. ok f k (P i) (body i) (\<lambda>r s. case r of Inl j \<Rightarrow> P j s \<and> m j < m i \<and> c j < c i | Inr x \<Rightarrow> Q x s) C"
  shows "ok f (k * Suc (c i)) (P i) (loop_env (\<lambda>i _. m i) body i) Q C"
proof (induction "c i" arbitrary: i rule: less_induct)
  case less
  show ?case
  proof (rule okI)
    fix n s
    assume "P i s"
    let ?R = "(\<exists>x n' s'. loop_env (\<lambda>i _. m i) body i (replicate n f) s = Ret x (replicate n' f) s' \<and> n' \<le> n \<and> n \<le> n' + k * Suc (c i) \<and> Q x s') \<or>
        (\<exists>t. loop_env (\<lambda>i _. m i) body i (replicate n f) s = Block t \<and> n < k * Suc (c i) \<and> C t)"
    have inl: ?R if b: "body i (replicate n f) s = Ret (Inl j) (replicate n' f) s'" "n' \<le> n" "n \<le> n' + k" "P j s'" "m j < m i" "c j < c i"
      for j n' s'
    proof -
      have e: "loop_env (\<lambda>i _. m i) body i (replicate n f) s = loop_env (\<lambda>i _. m i) body j (replicate n' f) s'"
        by (rule loop_env_next [where body = body, OF b(1)]) (use b in auto)
      have "k * Suc (Suc (c j)) \<le> k * Suc (c i)" using b(6) by (intro mult_le_mono2) simp
      then have "k + k * Suc (c j) \<le> k * Suc (c i)" by simp
      with okD [OF less(1) [OF b(6)] b(4), of n'] b(2,3) show ?thesis unfolding e by fastforce
    qed
    have inr: ?R if "body i (replicate n f) s = Ret (Inr x) (replicate n' f) s'" "n' \<le> n" "n \<le> n' + k" "Q x s'" for x n' s'
      using loop_env_done [where body = body, OF that(1), of "\<lambda>i _. m i"] that by auto
    have blk: ?R if "body i (replicate n f) s = Block t" "n < k" "C t" for t
    proof -
      have "loop_env (\<lambda>i _. m i) body i (replicate n f) s = Block t" by (subst loop_env.simps) (simp add: that)
      then show ?thesis using that by auto
    qed
    from okD [OF assms \<open>P i s\<close>, of n] show ?R
    proof (elim disjE exE conjE)
      fix r n' s'
      assume r: "body i (replicate n f) s = Ret r (replicate n' f) s'" "n' \<le> n" "n \<le> n' + k"
        "case r of Inl j \<Rightarrow> P j s' \<and> m j < m i \<and> c j < c i | Inr x \<Rightarrow> Q x s'"
      then show ?R using inl [of _ n' s'] inr [of _ n' s'] by (cases r) simp_all
    qed (rule blk)
  qed
qed

subsection \<open>Inodes in memory\<close>

lemma vsim_fs:
  fixes s t :: "'z fstate_scheme"
  assumes "vsim s t"
  shows "itable s = itable t" "sb s = sb t"
  using assms unfolding vsim_def vstrip_def pstrip_def
  by - (drule arg_cong [where f = itable], simp, drule arg_cong [where f = sb], simp)

lemma cst_fs [simp]: "itable (cst T bs sl I) = itable T" "sb (cst T bs sl I) = sb T"
  by (simp_all add: cst_def)

lemma fsc_fs:
  fixes T :: "'z fstate_scheme"
  assumes "fsc p d V I R H T s"
  shows "itable s = itable T" "sb s = sb T"
  using assms vsim_fs [OF calm_vsim] unfolding fsc_def by fastforce+

lemma fsc_get_inode:
  fixes T :: "'z fstate_scheme"
  shows "triple (fsc p d V I R H T) (get_inode ip f) (\<lambda>x s. x = f (itable T ip) \<and> fsc p d V I R H T s)"
  by (rule tripleI) (auto simp: get_inode_def fsc_fs)

lemma fsc_copyout_obj:
  fixes T :: "'z fstate_scheme"
  shows "triple (fsc p d V I R H T) (either_copyout To_obj bs) (\<lambda>x s. x = 0 \<and> fsc p d V I R H T s)"
proof (rule tripleI)
  fix e s
  assume "fsc p d V I R H T s"
  then obtain bs' sl where c: "calm p {} (cst T bs' sl I) s" "bcache (p_pid (procs T p)) d V I R H bs' sl"
    unfolding fsc_def by blast
  have "fsc p d V I R H T (intena_saved s)" by (rule fscI [OF c(2) calm_intena [OF c(1)]])
  then show "\<exists>x s'. either_copyout To_obj bs e s = Ret x e s' \<and> x = 0 \<and> fsc p d V I R H T s'"
    using on_myproc [OF calm_on [OF c(1)]] by (simp add: either_copyout_def)
qed

subsection \<open>The blocks of a file\<close>

definition file_block :: "(uint32 \<Rightarrow> uint8 list) \<Rightarrow> inode \<Rightarrow> nat \<Rightarrow> uint32" where
  "file_block V x bn = (if bn < NDIRECT then i_addrs x bn else get_word (V (i_addrs x NDIRECT)) (4 * (bn - NDIRECT)))"

definition file_byte :: "(uint32 \<Rightarrow> uint8 list) \<Rightarrow> inode \<Rightarrow> nat \<Rightarrow> uint8" where
  "file_byte V x i = V (file_block V x (i div BSIZE)) ! (i mod BSIZE)"

definition block_present :: "(uint32 \<Rightarrow> uint8 list) \<Rightarrow> inode \<Rightarrow> nat \<Rightarrow> bool" where
  "block_present V x bn \<longleftrightarrow> bn < MAXFILE \<and> file_block V x bn \<noteq> 0 \<and> unat (file_block V x bn) < 2 ^ 31 \<and>
     (NDIRECT \<le> bn \<longrightarrow> i_addrs x NDIRECT \<noteq> 0 \<and> unat (i_addrs x NDIRECT) < 2 ^ 31)"

definition cache_room :: "(uint32 \<Rightarrow> nat) \<Rightarrow> bool" where
  "cache_room R \<longleftrightarrow> card {v. 0 < R v} < NBUF \<and> (\<forall>w. R w + 1 < 2 ^ 32)"

text \<open>\<open>bmap\<close> of a block that the file has: its address, nothing is allocated.\<close>

lemma ok_bmap:
  fixes T :: "'z fstate_scheme"
  assumes dev: "virtio_device dev" and x: "itable T ip = x" "i_dev x = d" and b: "block_present V x (unat bn)" and R: "cache_room R"
  shows "ok (disk_turn dev p) 1 (fsc p d V I R (\<lambda>_. None) T) (bmap ip bn)
     (\<lambda>r s. r = file_block V x (unat bn) \<and> fsc p d V I R (\<lambda>_. None) T s) (\<lambda>t. image t = I)"
proof (cases "unat bn < NDIRECT")
  case True
  have "triple (fsc p d V I R (\<lambda>_. None) T) (bmap ip bn)
     (\<lambda>r s. r = file_block V x (unat bn) \<and> fsc p d V I R (\<lambda>_. None) T s)"
    unfolding bmap_def using True
    apply (simp only: if_True)
    apply (rule triple_step [OF fsc_get_inode])
    using b by (simp add: x block_present_def file_block_def triple_return)
  then show ?thesis by (intro ok_weaken [OF ok_triple]) auto
next
  case False
  let ?ind = "i_addrs x NDIRECT" and ?j = "unat bn - NDIRECT"
  let ?P = "fsc p d V I R (\<lambda>_. None) T"
  have j: "?j < NINDIRECT" "?ind \<noteq> 0" "unat ?ind < 2 ^ 31" "get_word (V ?ind) (4 * ?j) \<noteq> 0"
    using b False by (auto simp: block_present_def file_block_def MAXFILE_def)
  let ?R = "R(?ind := R ?ind + 1)" and ?H = "\<lambda>b. (\<lambda>_. None)(?ind \<mapsto> b :: nat)"
  have r: "ok (disk_turn dev p) 1 ?P (bread d ?ind) (\<lambda>b. fsc p d V I ?R (?H b) T) (\<lambda>t. image t = I)"
    by (rule ok_bread [OF dev]) (use R j in \<open>auto simp: cache_room_def\<close>)
  have g: "triple (fsc p d V I ?R (?H b) T) (get_buf b b_data) (\<lambda>y s. y = V ?ind \<and> fsc p d V I ?R (?H b) T s)" for b
    by (rule fsc_data) simp
  show ?thesis
  proof (rule ok_pre [where A = "R ?ind = 0 \<longrightarrow> V ?ind = disk_block I (unat ?ind)"])
    show "\<And>s. ?P s \<Longrightarrow> R ?ind = 0 \<longrightarrow> V ?ind = disk_block I (unat ?ind)" using fsc_clean by blast
    assume z: "R ?ind = 0 \<longrightarrow> V ?ind = disk_block I (unat ?ind)"
    have e: "?R(?ind := ?R ?ind - 1) = R" "(?H b)(?ind := None) = (\<lambda>_. None)" for b by (auto simp: fun_eq_iff)
    have l: "triple (fsc p d V I ?R (?H b) T) (brelse b) (\<lambda>y s. y = () \<and> ?P s)" for b
      using fsc_brelse [of "?H b" ?ind b ?R V I p d T] z unfolding e by simp
    have ne: "(?ind = 0) = False" "(get_word (V ?ind) (4 * ?j) = 0) = False" "(unat bn < NDIRECT) = False" "(?j < NINDIRECT) = True"
      using j False by simp_all
    show "ok (disk_turn dev p) 1 ?P (bmap ip bn) (\<lambda>r s. r = file_block V x (unat bn) \<and> ?P s) (\<lambda>t. image t = I)"
      unfolding bmap_def Let_def
      apply (simp only: ne if_False if_True)
      apply (rule ok_then_triple [OF fsc_get_inode])
      apply (simp only: id_apply x(1) ne if_False bind_return_left)
      apply (rule ok_then_triple [OF fsc_get_inode])
      apply (simp only: x)
      apply (rule ok_thenI [OF r, where l = 0])
       apply (rule ok_then_triple [OF g])
       apply (simp only: ne if_False bind_return_left)
       apply (rule ok_then_triple [OF l])
       apply (rule ok_triple [OF triple_return])
      using False by (simp_all add: file_block_def)
  qed
qed

subsection \<open>Reading a file\<close>

definition file_ok :: "(uint32 \<Rightarrow> uint8 list) \<Rightarrow> inode \<Rightarrow> bool" where
  "file_ok V x \<longleftrightarrow> unat (i_size x) \<le> MAXFILE * BSIZE \<and> (\<forall>bn. bn * BSIZE < unat (i_size x) \<longrightarrow> block_present V x bn)"

lemma fsc_data_part:
  assumes "H w = Some b"
  shows "triple (fsc p d V I R H T) (get_buf b (\<lambda>x. f (b_data x))) (\<lambda>x s. x = f (V w) \<and> fsc p d V I R H T s)"
proof (rule tripleI)
  fix e s
  assume s: "fsc p d V I R H T s"
  from tripleD [OF fsc_data [of H w b, OF assms] s, of e]
  show "\<exists>x s'. get_buf b (\<lambda>x. f (b_data x)) e s = Ret x e s' \<and> x = f (V w) \<and> fsc p d V I R H T s'"
    using s by (auto simp: get_buf_def)
qed

text \<open>The part of a block that one round copies, and how far it gets.\<close>

lemma chunk_arith:
  fixes off n tot :: uint32
  assumes b: "unat off + unat n \<le> MAXFILE * BSIZE" and t: "unat tot < unat n"
  defines "q \<equiv> off + tot"
  defines "m \<equiv> rw_chunk n tot q"
  shows "unat q = unat off + unat tot" "unat (q div of_nat BSIZE) = unat q div BSIZE" "unat (q mod of_nat BSIZE) = unat q mod BSIZE"
    "unat m = min (unat n - unat tot) (BSIZE - unat q mod BSIZE)" "unat (tot + m) = unat tot + unat m" "0 < unat m" "q + m = off + (tot + m)"
    "unat (n - (tot + m)) < unat (n - tot)"
proof -
  have small: "MAXFILE * BSIZE = 274432" by (simp add: MAXFILE_def NDIRECT_def NINDIRECT_def BSIZE_def)
  have B: "unat (of_nat BSIZE :: uint32) = BSIZE" by (simp add: BSIZE_def)
  show q: "unat q = unat off + unat tot" using b t small by (simp add: q_def unat_word_ariths)
  show "unat (q div of_nat BSIZE) = unat q div BSIZE" by (simp only: unat_div B)
  show md: "unat (q mod of_nat BSIZE) = unat q mod BSIZE" by (simp only: unat_mod B)
  have d: "unat (n - tot) = unat n - unat tot" using t by (simp add: unat_sub word_le_nat_alt)
  have lt: "unat q mod BSIZE < BSIZE" by (simp add: BSIZE_def)
  have "unat (of_nat BSIZE - q mod of_nat BSIZE :: uint32) = BSIZE - unat q mod BSIZE"
    using lt md B by (subst unat_sub) (simp_all add: word_le_nat_alt)
  then show m: "unat m = min (unat n - unat tot) (BSIZE - unat q mod BSIZE)"
    unfolding m_def rw_chunk_def using d by (simp add: min_def word_le_nat_alt)
  have le: "unat tot + unat m \<le> unat n" using m t by simp
  show tm: "unat (tot + m) = unat tot + unat m" using le b small by (simp add: unat_word_ariths)
  show pos: "0 < unat m" using m t lt by simp
  show "q + m = off + (tot + m)" by (simp add: q_def)
  show "unat (n - (tot + m)) < unat (n - tot)"
    using d tm le pos t by (simp add: unat_sub word_le_nat_alt)
qed

lemma block_part:
  assumes "length (V w) = BSIZE" "w = file_block V x (q div BSIZE)" "m \<le> BSIZE - q mod BSIZE"
  shows "take m (drop (q mod BSIZE) (V w)) = map (file_byte V x) [q..<q + m]"
proof (rule nth_equalityI)
  have B: "0 < BSIZE" by (simp add: BSIZE_def)
  show "length (take m (drop (q mod BSIZE) (V w))) = length (map (file_byte V x) [q..<q + m])" using assms by simp
  fix i
  assume "i < length (take m (drop (q mod BSIZE) (V w)))"
  then have "i < m" "i < BSIZE - q mod BSIZE" using assms by simp_all
  then have i: "i < m" "q mod BSIZE + i < BSIZE" by linarith+
  have "q + i = q div BSIZE * BSIZE + (q mod BSIZE + i)" by simp
  then have "(q + i) div BSIZE = q div BSIZE" "(q + i) mod BSIZE = q mod BSIZE + i"
    using i(2) B by (metis add.commute div_less div_mult_self1 add_cancel_left_left less_not_refl2, metis add.commute mod_less mod_mult_self3)
  then show "take m (drop (q mod BSIZE) (V w)) ! i = map (file_byte V x) [q..<q + m] ! i"
    using i assms by (simp add: file_byte_def)
qed

definition readi_at ::
  "nat \<Rightarrow> uint32 \<Rightarrow> (uint32 \<Rightarrow> uint8 list) \<Rightarrow> (nat \<Rightarrow> uint8) \<Rightarrow> (uint32 \<Rightarrow> nat) \<Rightarrow> 'z fstate_scheme \<Rightarrow> inode \<Rightarrow> uint32 \<Rightarrow> uint32 \<Rightarrow>
   uint32 \<times> uint32 \<times> iodst \<times> uint8 list \<Rightarrow> 'z fstate_scheme \<Rightarrow> bool" where
  "readi_at p d V I R T x off n i s \<longleftrightarrow> (case i of (tot, q, dst, out) \<Rightarrow>
     unat tot \<le> unat n \<and> q = off + tot \<and> dst = To_obj \<and> out = map (file_byte V x) [unat off..<unat off + unat tot] \<and>
     fsc p d V I R (\<lambda>_. None) T s)"

definition blocks_left :: "uint32 \<Rightarrow> uint32 \<Rightarrow> uint32 \<times> uint32 \<times> iodst \<times> uint8 list \<Rightarrow> nat" where
  "blocks_left off n i = (case i of (tot, q, dst, out) \<Rightarrow>
     if unat tot < unat n then (unat off + unat n - 1) div BSIZE + 1 - (unat off + unat tot) div BSIZE else 0)"

lemma blocks_left_dec:
  assumes t: "unat tot < unat n" and m: "unat m = min (unat n - unat tot) (BSIZE - (unat off + unat tot) mod BSIZE)"
    and tm: "unat (tot + m) = unat tot + unat m"
  shows "blocks_left off n (tot + m, q', dst', out') < blocks_left off n (tot, q, dst, out)"
proof -
  let ?q = "unat off + unat tot" and ?e = "unat off + unat n - 1"
  have B: "0 < BSIZE" by (simp add: BSIZE_def)
  have le: "?q div BSIZE \<le> ?e div BSIZE" using t by (intro div_le_mono) simp
  show ?thesis
  proof (cases "unat tot + unat m < unat n")
    case True
    then have "unat m = BSIZE - ?q mod BSIZE" using m by (simp add: min_def split: if_splits)
    moreover have "?q div BSIZE * BSIZE + ?q mod BSIZE = ?q" "?q mod BSIZE < BSIZE" "(?q div BSIZE + 1) * BSIZE = ?q div BSIZE * BSIZE + BSIZE"
      using B by simp_all
    ultimately have "?q + unat m = (?q div BSIZE + 1) * BSIZE" by linarith
    then have "(?q + unat m) div BSIZE = ?q div BSIZE + 1" using B by simp
    then show ?thesis using True t le tm by (simp add: blocks_left_def add.assoc)
  next
    case False
    then show ?thesis using t le tm by (simp add: blocks_left_def)
  qed
qed

lemma ok_readi_round:
  fixes T :: "'z fstate_scheme"
  assumes dev: "virtio_device dev" and x: "itable T ip = x" "i_dev x = d" and R: "cache_room R"
    and f: "file_ok V x" "unat off + unat n \<le> unat (i_size x)"
  shows "ok (disk_turn dev p) 2 (readi_at p d V I R T x off n i) (readi_body ip n i)
     (\<lambda>r s. case r of
         Inl j \<Rightarrow> readi_at p d V I R T x off n j s \<and> (case j of (tot, _) \<Rightarrow> unat (n - tot)) < (case i of (tot, _) \<Rightarrow> unat (n - tot)) \<and>
            blocks_left off n j < blocks_left off n i
       | Inr y \<Rightarrow> y = (sint n, map (file_byte V x) [unat off..<unat off + unat n]) \<and> fsc p d V I R (\<lambda>_. None) T s)
     (\<lambda>t. image t = I)"
  (is "ok _ _ _ _ ?Q _")
proof -
  obtain tot q dst out where i: "i = (tot, q, dst, out)" by (cases i)
  let ?P = "fsc p d V I R (\<lambda>_. None) T"
  show ?thesis
  proof (rule ok_pre [where A = "unat tot \<le> unat n \<and> q = off + tot \<and> dst = To_obj \<and>
      out = map (file_byte V x) [unat off..<unat off + unat tot] \<and> (\<forall>w. length (V w) = BSIZE) \<and> (\<forall>w. R w = 0 \<longrightarrow> V w = disk_block I (unat w))"])
    show "\<And>s. readi_at p d V I R T x off n i s \<Longrightarrow> unat tot \<le> unat n \<and> q = off + tot \<and> dst = To_obj \<and>
      out = map (file_byte V x) [unat off..<unat off + unat tot] \<and> (\<forall>w. length (V w) = BSIZE) \<and> (\<forall>w. R w = 0 \<longrightarrow> V w = disk_block I (unat w))"
      using fsc_length fsc_clean unfolding i readi_at_def by fastforce
    assume A: "unat tot \<le> unat n \<and> q = off + tot \<and> dst = To_obj \<and>
      out = map (file_byte V x) [unat off..<unat off + unat tot] \<and> (\<forall>w. length (V w) = BSIZE) \<and> (\<forall>w. R w = 0 \<longrightarrow> V w = disk_block I (unat w))"
    have P: "readi_at p d V I R T x off n i = ?P" using A by (simp add: fun_eq_iff i readi_at_def)
    show "ok (disk_turn dev p) 2 (readi_at p d V I R T x off n i) (readi_body ip n i) ?Q (\<lambda>t. image t = I)"
    proof (cases "tot < n")
      case False
      then have "unat tot = unat n" using A by (simp add: word_less_nat_alt)
      then have "tot = n" by (simp add: word_unat_eq_iff)
      then have e: "readi_body ip n i = return (Inr (sint n, map (file_byte V x) [unat off..<unat off + unat n]))"
        unfolding readi_body_def i prod.case using A by simp
      show ?thesis
        unfolding P e by (rule ok_weaken [OF ok_triple [OF triple_return]]) auto
    next
      case True
      then have t: "unat tot < unat n" by (simp add: word_less_nat_alt)
      have b: "unat off + unat n \<le> MAXFILE * BSIZE" using f by (simp add: file_ok_def)
      note c = chunk_arith [OF b t]
      let ?q = "off + tot" and ?m = "rw_chunk n tot (off + tot)"
      let ?w = "file_block V x (unat ?q div BSIZE)"
      have "unat ?q div BSIZE * BSIZE < unat (i_size x)"
        using f(2) t c(1) by (metis (no_types, lifting) add_less_cancel_left div_times_less_eq_dividend le_less_trans less_le_trans)
      then have present: "block_present V x (unat (?q div of_nat BSIZE))" using f(1) c(2) by (simp add: file_ok_def)
      let ?R = "R(?w := R ?w + 1)" and ?H = "\<lambda>b. (\<lambda>_. None)(?w \<mapsto> b :: nat)"
      have bm: "ok (disk_turn dev p) 1 ?P (bmap ip (?q div of_nat BSIZE)) (\<lambda>r s. r = ?w \<and> ?P s) (\<lambda>t. image t = I)"
        using ok_bmap [OF dev x present R] by (simp only: c(2))
      have br: "ok (disk_turn dev p) 1 ?P (bread d ?w) (\<lambda>b. fsc p d V I ?R (?H b) T) (\<lambda>t. image t = I)"
        by (rule ok_bread [OF dev]) (use R present c(2) in \<open>auto simp: cache_room_def block_present_def\<close>)
      have g: "triple (fsc p d V I ?R (?H b) T) (get_buf b (\<lambda>b. take (unat ?m) (drop (unat (?q mod of_nat BSIZE)) (b_data b))))
          (\<lambda>y s. y = map (file_byte V x) [unat ?q..<unat ?q + unat ?m] \<and> fsc p d V I ?R (?H b) T s)" for b
        using fsc_data_part [of "?H b" ?w b p d V I ?R T "\<lambda>bs. take (unat ?m) (drop (unat (?q mod of_nat BSIZE)) bs)"]
          block_part [of V ?w x "unat ?q" "unat ?m"] A c(3,4) by simp
      have l: "triple (fsc p d V I ?R (?H b) T) (brelse b) (\<lambda>y s. y = () \<and> ?P s)" for b
        using fsc_brelse [of "?H b" ?w b ?R V I p d T] A by (simp add: fun_upd_idem)
      have out: "map (file_byte V x) [unat off..<unat off + unat tot] @ map (file_byte V x) [unat ?q..<unat ?q + unat ?m] =
          map (file_byte V x) [unat off..<unat off + unat (tot + ?m)]"
        using upt_add_eq_append [of "unat off" "unat off + unat tot" "unat ?m"]
        by (simp only: c(1,5) map_append [symmetric] add.assoc [symmetric] le_add1)
      have le: "unat (tot + ?m) \<le> unat n" using c(4,5) t by simp
      have "blocks_left off n (tot + ?m, ?q + ?m, dst_add To_obj ?m, map (file_byte V x) [unat off..<unat off + unat (tot + ?m)]) < blocks_left off n i"
        unfolding i by (rule blocks_left_dec [OF t]) (use c in simp_all)
      then have fin: "?P s \<Longrightarrow> ?Q (Inl (tot + ?m, ?q + ?m, dst_add To_obj ?m, map (file_byte V x) [unat off..<unat off + unat (tot + ?m)])) s" for s
        using c(7,8) le by (simp add: readi_at_def i add.assoc)
      have e: "readi_body ip n i = readi_body ip n (tot, ?q, To_obj, map (file_byte V x) [unat off..<unat off + unat tot])"
        using A i by simp
      show ?thesis
        unfolding P e unfolding readi_body_def prod.case
        apply (simp only: True if_True)
        apply (rule ok_step [OF bm, where l = 1])
         apply (rule ok_then_triple [OF fsc_get_inode])
         apply (simp only: x bind_return_left)
         apply (rule ok_thenI [OF br, where l = 0])
          apply (rule ok_then_triple [OF g])
          apply (rule ok_then_triple [OF fsc_copyout_obj])
          apply (simp only: out)
          apply (simp only: simp_thms if_False if_True zero_neq_neg_one)
          apply (rule ok_then_triple [OF l])
          apply (rule ok_triple [OF triple_return])
          apply (rule fin)
        by simp_all
    qed
  qed
qed

lemma blocks_left_first: "blocks_left off n (0, q, dst, out) \<le> unat n div BSIZE + 2"
proof -
  have B: "0 < BSIZE" by (simp add: BSIZE_def)
  let ?a = "unat off div BSIZE" and ?b = "unat n div BSIZE"
  have "unat off = BSIZE * ?a + unat off mod BSIZE" "unat n = BSIZE * ?b + unat n mod BSIZE"
    "unat off mod BSIZE < BSIZE" "unat n mod BSIZE < BSIZE" using B by simp_all
  then have "unat off + unat n - 1 < BSIZE * ?a + BSIZE * ?b + 2 * BSIZE" by linarith
  also have "\<dots> = BSIZE * (?a + ?b + 2)" by (simp add: algebra_simps)
  finally have "(unat off + unat n - 1) div BSIZE < ?a + ?b + 2"
    using B by (simp only: mult.commute [of BSIZE] less_mult_imp_div_less)
  then have "(unat off + unat n - 1) div BSIZE + 1 - ?a \<le> ?b + 2" by linarith
  then show ?thesis by (simp add: blocks_left_def)
qed

lemma ok_readi_loop:
  fixes T :: "'z fstate_scheme"
  assumes "virtio_device dev" "itable T ip = x" "i_dev x = d" "cache_room R" "file_ok V x" "unat off + unat n \<le> unat (i_size x)"
  shows "ok (disk_turn dev p) (2 * (unat n div BSIZE + 3)) (fsc p d V I R (\<lambda>_. None) T) (readi_loop ip n (0, off, To_obj, []))
     (\<lambda>y s. y = (sint n, map (file_byte V x) [unat off..<unat off + unat n]) \<and> fsc p d V I R (\<lambda>_. None) T s) (\<lambda>t. image t = I)"
proof -
  let ?i = "(0, off, To_obj, []) :: uint32 \<times> uint32 \<times> iodst \<times> uint8 list"
  have m: "(\<lambda>(tot, _) _. unat (n - tot)) = (\<lambda>i _. case i of (tot, _) \<Rightarrow> unat (n - tot))" by auto
  have P: "readi_at p d V I R T x off n ?i = fsc p d V I R (\<lambda>_. None) T" by (simp add: fun_eq_iff readi_at_def)
  show ?thesis
    by (rule ok_weaken [OF ok_loop [where i = ?i, OF ok_readi_round [OF assms, of p I], folded m, unfolded P, folded readi_loop_def]])
      (use blocks_left_first [of off n off To_obj "[]"] in auto)
qed

lemma sint_small: "unat (w :: uint32) < 2 ^ 31 \<Longrightarrow> sint w = int (unat w)"
proof -
  assume "unat w < 2 ^ 31"
  then have "int (unat w) < int (2 ^ 31)" by (simp only: of_nat_less_iff)
  then have "uint w < 2 ^ 31" by (simp only: uint_nat of_nat_power of_nat_numeral)
  moreover have "- (2 ^ 31) \<le> uint w" by (rule order_trans [OF _ unsigned_greater_eq]) simp
  ultimately have "signed_take_bit 31 (uint w) = uint w" by (rule signed_take_bit_int_eq_self [rotated])
  then show ?thesis by (simp add: sint_uint)
qed

definition readi_len :: "inode \<Rightarrow> uint32 \<Rightarrow> uint32 \<Rightarrow> nat" where
  "readi_len x off n = (if unat (i_size x) < unat off \<or> 2 ^ 32 \<le> unat off + unat n then 0 else min (unat n) (unat (i_size x) - unat off))"


text \<open>A file of 13 blocks, the last one an indirect block, on a disk that holds the block number in every byte.\<close>

definition image_numbers :: "nat \<Rightarrow> uint8" where
  "image_numbers i = (if i div BSIZE = 70 \<and> i mod BSIZE mod 4 = 0 then 80 else if i div BSIZE = 70 then 0 else of_nat (i div BSIZE))"

definition inode13 :: inode where
  "inode13 = \<lparr>i_dev = 1, i_inum = 3, i_ref = 1, i_valid = 1, i_type = T_FILE, i_major = 0, i_minor = 0, i_nlink = 1,
     i_size = 13000, i_addrs = (\<lambda>i. if i = NDIRECT then 70 else 50 + of_nat i)\<rparr>"

definition sb0 :: superblock where
  "sb0 = \<lparr>sb_magic = FSMAGIC, sb_size = 1000, sb_nblocks = 954, sb_ninodes = 200, sb_nlog = 30, sb_logstart = 2,
     sb_inodestart = 32, sb_bmapstart = 45\<rparr>"

definition fst13 :: fstate where
  "fst13 = lstate.extend (lst bufs_ring log0 image_numbers) (fstate.fields sb0 (\<lambda>_. inode13))"

lemma fst13_fsc: "fsc 1 1 (\<lambda>w. disk_block image_numbers (unat w)) image_numbers (\<lambda>_. 0) (\<lambda>_. None) fst13 fst13"
proof (rule fscI)
  have c: "cst fst13 bufs_ring (slocks fst13) image_numbers = fst13"
    by (simp add: fst13_def cst_def lst_def vst0_def sst0_def sstate.defs pstate.defs vstate.defs lstate.defs fstate.defs)
  have "dcfg {} (Some 1) 1 (RUNNING, None) disk0 fst13 fst13"
    by (simp add: fst13_def dcfg_def lh_def lst_def vst0_def sst0_def sstate.defs pstate.defs vstate.defs lstate.defs fstate.defs pst0_def
        myid_def lock_free_def cpu0_def proc0_def NPROC_def spinlock0_def)
  moreover have "idle disk0" by (simp add: idle_def disk0_def used0_def avail0_def)
  ultimately show "calm 1 {} (cst fst13 bufs_ring (slocks fst13) image_numbers) fst13" unfolding c calm_def by blast
  show "bcache (p_pid (procs fst13 1)) 1 (\<lambda>w. disk_block image_numbers (unat w)) image_numbers (\<lambda>_. 0) (\<lambda>_. None) bufs_ring (slocks fst13)"
    by (rule bcacheI [OF dlist_ring]) (simp_all add: bufs_ring_def buf0_def fst13_def lst_def vst0_def sst0_def sstate.defs pstate.defs
        vstate.defs lstate.defs fstate.defs)
qed

lemma image_numbers_nth:
  assumes "i < BSIZE"
  shows "disk_block image_numbers w ! i = (if w = 70 \<and> i mod 4 = 0 then 80 else if w = 70 then 0 else of_nat w)"
proof -
  have "(BSIZE * w + i) div BSIZE = w" "(BSIZE * w + i) mod BSIZE = i" using assms by simp_all
  then show ?thesis using assms by (simp only: disk_block_def image_numbers_def nth_map nth_upt length_upt add_0 diff_zero)
qed

lemma image_numbers_word:
  assumes "bn < NINDIRECT"
  shows "get_word (disk_block image_numbers 70) (4 * bn) = 80"
proof -
  have b: "4 * bn + 3 < BSIZE" using assms by (simp add: NINDIRECT_def BSIZE_def)
  then have l: "4 * bn + 3 < length (disk_block image_numbers 70)" by (simp add: disk_block_def)
  have "take 4 (drop (4 * bn) xs) = [xs ! (4 * bn), xs ! (4 * bn + 1), xs ! (4 * bn + 2), xs ! (4 * bn + 3)]"
    if "4 * bn + 3 < length xs" for xs :: "uint8 list"
    using that by (intro nth_equalityI) (auto simp: less_Suc_eq numeral_eq_Suc)
  from this [OF l] have "take 4 (drop (4 * bn) (disk_block image_numbers 70)) = [80, 0, 0, 0]"
    using b by (simp add: image_numbers_nth mod_Suc)
  then show ?thesis by (simp add: get_word_def of_le_def)
qed

lemma file_block13:
  "file_block (\<lambda>w. disk_block image_numbers (unat w)) inode13 bn = (if bn < NDIRECT then 50 + of_nat bn else get_word (disk_block image_numbers 70) (4 * (bn - NDIRECT)))"
  by (simp add: file_block_def inode13_def)

lemma file_ok13: "file_ok (\<lambda>w. disk_block image_numbers (unat w)) inode13"
proof -
  have "block_present (\<lambda>w. disk_block image_numbers (unat w)) inode13 bn" if "bn * BSIZE < 13000" for bn
  proof -
    have "bn < 13" using that by (simp add: BSIZE_def)
    moreover have "unat (50 + of_nat bn :: uint32) = 50 + bn" if "bn < 13"
      using that by (simp add: unat_word_ariths unat_of_nat take_bit_nat_eq_self)
    moreover have "i_addrs inode13 NDIRECT = 70" by (simp add: inode13_def)
    ultimately show ?thesis
      using image_numbers_word [of "bn - NDIRECT"]
      by (auto simp: block_present_def file_block13 NDIRECT_def NINDIRECT_def MAXFILE_def BSIZE_def word_unat_eq_iff [of _ 0])
  qed
  then show ?thesis by (simp add: file_ok_def inode13_def MAXFILE_def NDIRECT_def NINDIRECT_def BSIZE_def)
qed


end
