(* ===== verification/Fifo.thy ===== *)
theory Fifo
  imports File Usercopy Inode
begin

section \<open>Ring buffers\<close>

text \<open>
  The pipe, the output buffer of the serial port and the input buffer of the console are
  rings: an array and two counters that only grow, taken modulo the size of the array and
  wrapping around with the width of their type. The theory shows once, for any width that
  the size divides, that such a ring is a queue, and from it that \<open>pipewrite\<close> and
  \<open>piperead\<close> move bytes between user memory and a queue.
\<close>

subsection \<open>Rings of any width\<close>

definition ring_list :: "'w :: len word \<Rightarrow> 'w word \<Rightarrow> (nat \<Rightarrow> 'a) \<Rightarrow> nat \<Rightarrow> 'a list" where
  "ring_list r w buf cap = map (\<lambda>i. buf (unat (r + of_nat i) mod cap)) [0..<unat (w - r)]"

lemma length_ring_list [simp]: "length (ring_list r w buf cap) = unat (w - r)"
  by (simp add: ring_list_def)

lemma ring_index:
  fixes r :: "'w :: len word"
  assumes "cap dvd 2 ^ LENGTH('w)"
  shows "unat (r + of_nat i) mod cap = (unat r + i) mod cap"
proof -
  have "unat (r + of_nat i) = (unat r + i) mod 2 ^ LENGTH('w)"
    by (simp add: unat_word_ariths unat_of_nat take_bit_eq_mod mod_simps)
  then show ?thesis using assms by (simp add: mod_mod_cancel)
qed

lemma mod_inj_window:
  assumes "i < j" "j < cap" "0 < (cap :: nat)"
  shows "(r + i) mod cap \<noteq> (r + j) mod cap"
proof
  assume "(r + i) mod cap = (r + j) mod cap"
  then have "cap dvd (r + j) - (r + i)" using assms(1) by (metis add_le_cancel_left less_imp_le_nat mod_eq_dvd_iff_nat)
  then show False using assms by (auto dest: dvd_imp_le)
qed

locale ring =
  fixes rpos wpos :: "'q \<Rightarrow> 'w :: len word" and slot :: "'q \<Rightarrow> nat \<Rightarrow> 'a" and cap :: nat
    and push :: "'a \<Rightarrow> 'q \<Rightarrow> 'q" and pop :: "'q \<Rightarrow> 'q"
  assumes cap: "cap dvd 2 ^ LENGTH('w)" "0 < cap" "cap < 2 ^ LENGTH('w)"
    and push_laws: "rpos (push c q) = rpos q" "wpos (push c q) = wpos q + 1" "slot (push c q) = (slot q)(unat (wpos q) mod cap := c)"
    and pop_laws: "rpos (pop q) = rpos q + 1" "wpos (pop q) = wpos q" "slot (pop q) = slot q"
begin

lemma ring_nth: "i < unat (wpos q - rpos q) \<Longrightarrow> ring_list (rpos q) (wpos q) (slot q) cap ! i = slot q ((unat (rpos q) + i) mod cap)"
  by (simp add: ring_list_def ring_index [OF cap(1)])

lemma ring_empty: "rpos q = wpos q \<longleftrightarrow> ring_list (rpos q) (wpos q) (slot q) cap = []"
  by (auto simp: ring_list_def unat_eq_zero)

lemma ring_full:
  "wpos q = rpos q + of_nat cap \<longleftrightarrow> length (ring_list (rpos q) (wpos q) (slot q) cap) = cap"
proof -
  have "wpos q = rpos q + of_nat cap \<longleftrightarrow> wpos q - rpos q = of_nat cap" by (auto simp: algebra_simps)
  also have "\<dots> \<longleftrightarrow> unat (wpos q - rpos q) = cap"
    using cap(3) by (auto simp: unat_of_nat take_bit_nat_eq_self)
  finally show ?thesis by simp
qed

lemma ring_push:
  assumes "length (ring_list (rpos q) (wpos q) (slot q) cap) < cap"
  shows "ring_list (rpos (push c q)) (wpos (push c q)) (slot (push c q)) cap = ring_list (rpos q) (wpos q) (slot q) cap @ [c]"
proof -
  let ?n = "unat (wpos q - rpos q)" and ?r = "unat (rpos q)"
  have n: "?n < cap" using assms by simp
  have w: "unat (wpos q) mod cap = (?r + ?n) mod cap"
    using ring_index [OF cap(1), of "rpos q" ?n] by simp
  have "wpos q + 1 - rpos q = (wpos q - rpos q) + 1" by (simp add: algebra_simps)
  moreover have "unat ((wpos q - rpos q) + 1) = ?n + 1"
    using n cap(3) by (simp add: unat_word_ariths)
  ultimately have len: "unat (wpos q + 1 - rpos q) = Suc ?n" by (simp only: Suc_eq_plus1)
  show ?thesis
  proof (rule nth_equalityI)
    fix i
    assume "i < length (ring_list (rpos (push c q)) (wpos (push c q)) (slot (push c q)) cap)"
    then have i: "i < Suc ?n" by (simp add: push_laws len)
    have l: "ring_list (rpos (push c q)) (wpos (push c q)) (slot (push c q)) cap ! i = slot (push c q) ((?r + i) mod cap)"
      using ring_nth [of i "push c q"] i by (simp add: push_laws len)
    show "ring_list (rpos (push c q)) (wpos (push c q)) (slot (push c q)) cap ! i = (ring_list (rpos q) (wpos q) (slot q) cap @ [c]) ! i"
    proof (cases "i = ?n")
      case True
      then show ?thesis unfolding l by (simp add: push_laws w nth_append)
    next
      case False
      then have i': "i < ?n" using i by simp
      then have "(?r + i) mod cap \<noteq> (?r + ?n) mod cap" using mod_inj_window n cap(2) by blast
      then show ?thesis unfolding l using i' by (simp add: push_laws w nth_append ring_nth)
    qed
  qed (simp add: push_laws len)
qed

lemma ring_pop:
  assumes "rpos q \<noteq> wpos q"
  shows "ring_list (rpos (pop q)) (wpos (pop q)) (slot (pop q)) cap = tl (ring_list (rpos q) (wpos q) (slot q) cap)"
    "hd (ring_list (rpos q) (wpos q) (slot q) cap) = slot q (unat (rpos q) mod cap)"
proof -
  let ?n = "unat (wpos q - rpos q)"
  have n: "0 < ?n" using assms by (simp add: unat_gt_0)
  have "wpos q - (rpos q + 1) = (wpos q - rpos q) - 1" by (simp add: algebra_simps)
  moreover have "unat ((wpos q - rpos q) - 1) = ?n - 1" using assms by (intro unat_minus_one) simp
  ultimately have len: "unat (wpos q - (rpos q + 1)) = ?n - 1" by (simp only:)
  show "ring_list (rpos (pop q)) (wpos (pop q)) (slot (pop q)) cap = tl (ring_list (rpos q) (wpos q) (slot q) cap)"
  proof (rule nth_equalityI)
    fix i
    assume "i < length (ring_list (rpos (pop q)) (wpos (pop q)) (slot (pop q)) cap)"
    then have i: "i < ?n - 1" by (simp add: pop_laws len)
    show "ring_list (rpos (pop q)) (wpos (pop q)) (slot (pop q)) cap ! i = tl (ring_list (rpos q) (wpos q) (slot q) cap) ! i"
      using i by (simp only: ring_list_def nth_tl nth_map length_map length_upt nth_upt pop_laws len length_tl) (simp add: add.assoc)
  qed (simp add: pop_laws len)
  show "hd (ring_list (rpos q) (wpos q) (slot q) cap) = slot q (unat (rpos q) mod cap)"
    using n by (simp add: ring_list_def hd_map upt_rec)
qed

end

subsection \<open>The three rings of the kernel\<close>

definition pipe_push :: "uint8 \<Rightarrow> pipe \<Rightarrow> pipe" where
  "pipe_push c x = x\<lparr>pi_data := (pi_data x)(unat (pi_nwrite x) mod PIPESIZE := c), pi_nwrite := pi_nwrite x + 1\<rparr>"

definition pipe_pop :: "pipe \<Rightarrow> pipe" where
  "pipe_pop x = x\<lparr>pi_nread := pi_nread x + 1\<rparr>"

definition pipe_list :: "pipe \<Rightarrow> uint8 list" where
  "pipe_list x = ring_list (pi_nread x) (pi_nwrite x) (pi_data x) PIPESIZE"

interpretation piper: ring pi_nread pi_nwrite pi_data PIPESIZE pipe_push pipe_pop
  by unfold_locales (simp_all add: pipe_push_def pipe_pop_def PIPESIZE_def)

lemma pipe_ring:
  "length (pipe_list x) < PIPESIZE \<Longrightarrow> pipe_list (pipe_push c x) = pipe_list x @ [c]"
  "pi_nread x \<noteq> pi_nwrite x \<Longrightarrow> pipe_list (pipe_pop x) = tl (pipe_list x)"
  "pi_nread x \<noteq> pi_nwrite x \<Longrightarrow> hd (pipe_list x) = pi_data x (unat (pi_nread x) mod PIPESIZE)"
  "pi_nread x = pi_nwrite x \<longleftrightarrow> pipe_list x = []"
  "pi_nwrite x = pi_nread x + of_nat PIPESIZE \<longleftrightarrow> length (pipe_list x) = PIPESIZE"
  unfolding pipe_list_def
  by (rule piper.ring_push, assumption)
    (rule piper.ring_pop, assumption, rule piper.ring_pop, assumption, rule piper.ring_empty, rule piper.ring_full)

definition tx_push :: "uint8 \<Rightarrow> 'z ustate_scheme \<Rightarrow> 'z ustate_scheme" where
  "tx_push c s = s\<lparr>uart_tx_buf := (uart_tx_buf s)(unat (uart_tx_w s) mod UART_TX_BUF_SIZE := c), uart_tx_w := uart_tx_w s + 1\<rparr>"

definition tx_pop :: "'z ustate_scheme \<Rightarrow> 'z ustate_scheme" where
  "tx_pop s = s\<lparr>uart_tx_r := uart_tx_r s + 1\<rparr>"

definition tx_list :: "'z ustate_scheme \<Rightarrow> uint8 list" where
  "tx_list s = ring_list (uart_tx_r s) (uart_tx_w s) (uart_tx_buf s) UART_TX_BUF_SIZE"

interpretation uartr: ring uart_tx_r uart_tx_w uart_tx_buf UART_TX_BUF_SIZE tx_push tx_pop
  by unfold_locales (simp_all add: tx_push_def tx_pop_def UART_TX_BUF_SIZE_def)

definition cons_push :: "uint8 \<Rightarrow> cons \<Rightarrow> cons" where
  "cons_push c k = k\<lparr>cons_buf := (cons_buf k)(unat (cons_e k) mod INPUT_BUF := c), cons_e := cons_e k + 1\<rparr>"

definition cons_pop :: "cons \<Rightarrow> cons" where
  "cons_pop k = k\<lparr>cons_r := cons_r k + 1\<rparr>"

interpretation consr: ring cons_r cons_e cons_buf INPUT_BUF cons_push cons_pop
  by unfold_locales (simp_all add: cons_push_def cons_pop_def INPUT_BUF_def)

subsection \<open>One byte of user memory\<close>

lemma nchunk_1: "nchunk va 1 = 1"
  using nchunk_pos [of 1 va] nchunk_le [of va 1] by simp

lemma copyin_byte:
  assumes "pt_ok (mem s) pt"
  shows "copyin_obj pt [] va 1 e s = (case user_byte (mem s) pt va of None \<Rightarrow> Ret (- 1, []) e s | Some c \<Rightarrow> Ret (0, [c]) e s)"
proof -
  have 0: "copyin_obj pt bs va' 0 e s = Ret (0, bs) e s" for bs va' by (subst copyin_obj.simps) simp
  show ?thesis
    by (subst copyin_obj.simps)
      (simp add: walkaddr_pure [OF assms] user_byte_def Let_def nchunk_1 [unfolded One_nat_def] 0 bytes_at_def)
qed

lemma put_bytes_1: "put_bytes a [c] m = m(a := c)"
  by (auto simp: put_bytes_def fun_eq_iff unat_eq_zero)

lemma copyout_byte:
  assumes "umem_ok (mem s) pt" "user_inj (mem s) pt"
  shows "user_byte (mem s) pt va = None \<Longrightarrow> copyout_obj pt va [c] e s = Ret (- 1) e s"
    "user_byte (mem s) pt va \<noteq> None \<Longrightarrow> \<exists>m. copyout_obj pt va [c] e s = Ret 0 e (s\<lparr>mem := m\<rparr>) \<and> umem_ok m pt \<and> user_inj m pt \<and>
       (\<forall>vb. user_byte m pt vb = (if vb = va then Some c else user_byte (mem s) pt vb))"
proof -
  have ok: "pt_ok (mem s) pt" using assms(1) by (simp add: umem_ok_def)
  have 0: "copyout_obj pt va' [] e t = Ret 0 e t" for va' and t :: "'a kstate_scheme" by (subst copyout_obj.simps) simp
  show "user_byte (mem s) pt va = None \<Longrightarrow> copyout_obj pt va [c] e s = Ret (- 1) e s"
    by (subst copyout_obj.simps) (simp add: walkaddr_pure [OF ok] user_byte_def Let_def split: if_splits)
  let ?f = "uaddr (mem s) pt (PGROUNDDOWN va)" and ?o = "va - PGROUNDDOWN va"
  let ?m = "(mem s)(?f + ?o := c)"
  assume "user_byte (mem s) pt va \<noteq> None"
  then have f: "?f \<noteq> 0" by (simp add: user_byte_def Let_def split: if_splits)
  have run: "copyout_obj pt va [c] e s = Ret 0 e (s\<lparr>mem := ?m\<rparr>)"
    using f by (subst copyout_obj.simps)
      (simp add: walkaddr_pure [OF ok] Let_def nchunk_1 [unfolded One_nat_def] 0 upd_mem_def put_bytes_1)
  have out: "?m x = mem s x" if "PGROUNDDOWN x \<noteq> ?f" for x
    using that user_addr_page [OF pg_aligned_uaddr [of "mem s" pt "PGROUNDDOWN va"], of va] by auto
  have "?f \<notin> pt_pages (mem s) pt" using assms(1) uaddr_user [OF f] by (simp add: umem_ok_def)
  then have same: "?m x = mem s x" if "PGROUNDDOWN x \<in> pt_pages (mem s) pt" for x using that out by metis
  have wf: "pt_wf (mem s) pt" using ok by (simp add: pt_ok_def)
  have u: "uaddr ?m pt vb = uaddr (mem s) pt vb" "pt_wf ?m pt" "pt_pages ?m pt = pt_pages (mem s) pt" for vb
    by (rule uaddr_cong [OF wf]; erule same)+
  have "umem_ok ?m pt" "user_inj ?m pt"
    using assms ok u by (auto simp: umem_ok_def pt_ok_def user_inj_def user_pages_def)
  moreover have "user_byte ?m pt vb = (if vb = va then Some c else user_byte (mem s) pt vb)" for vb
  proof (cases "vb = va")
    case True
    then show ?thesis using f by (simp add: user_byte_def Let_def u(1))
  next
    case False
    let ?g = "uaddr (mem s) pt (PGROUNDDOWN vb)"
    have "?g + (vb - PGROUNDDOWN vb) \<noteq> ?f + ?o" if "?g \<noteq> 0"
    proof
      assume e: "?g + (vb - PGROUNDDOWN vb) = ?f + ?o"
      then have "?g = ?f" using user_addr_page [OF pg_aligned_uaddr [of "mem s" pt "PGROUNDDOWN va"], of va]
          user_addr_page [OF pg_aligned_uaddr [of "mem s" pt "PGROUNDDOWN vb"], of vb] by simp
      with that assms(2) have "PGROUNDDOWN vb = PGROUNDDOWN va" unfolding user_inj_def by blast
      with e False show False by simp
    qed
    then show ?thesis using False by (simp add: user_byte_def Let_def u(1))
  qed
  ultimately show "\<exists>m. copyout_obj pt va [c] e s = Ret 0 e (s\<lparr>mem := m\<rparr>) \<and> umem_ok m pt \<and> user_inj m pt \<and>
       (\<forall>vb. user_byte m pt vb = (if vb = va then Some c else user_byte (mem s) pt vb))"
    using run by blast
qed

subsection \<open>The loops of the pipe\<close>

lemma pipe_push_all:
  assumes "length (pipe_list x) + length bs \<le> PIPESIZE"
  shows "pipe_list (fold pipe_push bs x) = pipe_list x @ bs \<and> pi_readopen (fold pipe_push bs x) = pi_readopen x \<and>
     pi_writeopen (fold pipe_push bs x) = pi_writeopen x"
  using assms
proof (induction bs arbitrary: x)
  case (Cons b bs)
  then show ?case using pipe_ring(1) [of x b] Cons.IH [of "pipe_push b x"] by (simp add: pipe_push_def)
qed simp

definition with_pipe :: "uint64 \<Rightarrow> pipe \<Rightarrow> 'z flstate_scheme \<Rightarrow> 'z flstate_scheme" where
  "with_pipe pi x s = s\<lparr>pipes := (pipes s)(pi := x)\<rparr>"

lemma with_pipe_simps [simp]:
  "pipes (with_pipe pi x s) = (pipes s)(pi := x)" "mem (with_pipe pi x s) = mem s" "procs (with_pipe pi x s) = procs s"
  "with_pipe pi y (with_pipe pi x s) = with_pipe pi y s"
  by (simp_all add: with_pipe_def)

lemma pipewrite_loop_from:
  fixes s :: "'z flstate_scheme"
  assumes pt: "pt = p_pagetable (procs s p)" "pt_ok (mem s) pt" and p: "p_killed (procs s p) = 0" "pi_readopen x \<noteq> 0"
    and bs: "\<forall>i < length bs. user_byte (mem s) pt (addr + of_nat i) = Some (bs ! i)"
    and room: "length (pipe_list x) + length bs \<le> PIPESIZE"
    and stop: "n = int (length bs) \<or> int (length bs) < n \<and> length (pipe_list x) + length bs < PIPESIZE \<and>
        user_byte (mem s) pt (addr + of_nat (length bs)) = None"
    and i: "i \<le> length bs"
  shows "loop_env (\<lambda>i _. nat (n - i)) (pipewrite_body (Some p) pi addr n) (int i) e (with_pipe pi (fold pipe_push (take i bs) x) s) =
     Ret (Some (int (length bs))) e (with_pipe pi (fold pipe_push bs x) s)"
  (is "loop_env ?m ?body (int i) e (?S i) = _")
  using i
proof (induction "length bs - i" arbitrary: i)
  case 0
  then have i: "i = length bs" by simp
  have all: "pipe_list (fold pipe_push bs x) = pipe_list x @ bs" "pi_readopen (fold pipe_push bs x) = pi_readopen x"
    using pipe_push_all [OF room] by simp_all
  have "?body (int i) e (?S i) = Ret (Inr (Some (int (length bs)))) e (?S i)"
  proof (cases "n = int (length bs)")
    case True
    then show ?thesis by (simp add: i pipewrite_body_def)
  next
    case False
    then have n: "int (length bs) < n" "length (pipe_list x) + length bs < PIPESIZE" "user_byte (mem s) pt (addr + of_nat (length bs)) = None"
      using stop by auto
    have "pi_nwrite (fold pipe_push bs x) \<noteq> pi_nread (fold pipe_push bs x) + of_nat PIPESIZE"
      using n(2) unfolding pipe_ring(5) all(1) by simp
    then show ?thesis
      using n p pt(1) all(2) copyin_byte [of "with_pipe pi (fold pipe_push bs x) s" pt "addr + of_nat (length bs)" e] pt(2)
      by (simp add: i pipewrite_body_def get_pipe_def get_proc_def deref_def)
  qed
  then show ?case unfolding i by (intro loop_env_done) simp
next
  case (Suc k)
  then have i: "i < length bs" by simp
  let ?x = "fold pipe_push (take i bs) x"
  have all: "pipe_list ?x = pipe_list x @ take i bs" "pi_readopen ?x = pi_readopen x"
    using pipe_push_all [of x "take i bs"] room i by simp_all
  have f: "pi_nwrite ?x \<noteq> pi_nread ?x + of_nat PIPESIZE"
    using room i unfolding pipe_ring(5) all(1) by simp
  have n: "int i < n" using i stop by auto
  have t: "fold pipe_push (take (Suc i) bs) x = pipe_push (bs ! i) ?x"
    using i by (simp add: take_Suc_conv_app_nth)
  have "?body (int i) e (?S i) = Ret (Inl (int (Suc i))) e (?S (Suc i))"
    using n p pt(1) f all(2) copyin_byte [of "with_pipe pi ?x s" pt "addr + of_nat i" e] pt(2) bs i
    by (simp add: pipewrite_body_def get_pipe_def get_proc_def deref_def upd_pipe_def byte_def t) (simp add: pipe_push_def with_pipe_def)
  then have "loop_env ?m ?body (int i) e (?S i) = loop_env ?m ?body (int (Suc i)) e (?S (Suc i))"
    by (rule loop_env_next) (use n in simp)
  also have "\<dots> = Ret (Some (int (length bs))) e (with_pipe pi (fold pipe_push bs x) s)"
    by (rule Suc.hyps(1)) (use Suc.hyps(2) i in auto)
  finally show ?case .
qed

lemma pipe_pops:
  assumes "i \<le> length (pipe_list x)"
  shows "pipe_list ((pipe_pop ^^ i) x) = drop i (pipe_list x) \<and> pi_writeopen ((pipe_pop ^^ i) x) = pi_writeopen x"
  using assms
proof (induction i)
  case (Suc i)
  let ?x = "(pipe_pop ^^ i) x"
  have d: "pipe_list ?x = drop i (pipe_list x)" "pi_writeopen ?x = pi_writeopen x" using Suc by simp_all
  have "pi_nread ?x \<noteq> pi_nwrite ?x" using Suc.prems unfolding pipe_ring(4) d(1) by simp
  moreover have "pi_writeopen (pipe_pop ?x) = pi_writeopen ?x" by (simp add: pipe_pop_def)
  ultimately show ?case using pipe_ring(2) [of ?x] d by (simp add: drop_Suc tl_drop)
qed simp

definition user_range :: "memory \<Rightarrow> uint64 \<Rightarrow> uint64 \<Rightarrow> uint8 list \<Rightarrow> memory \<Rightarrow> bool" where
  "user_range m0 pt addr bs m \<longleftrightarrow> umem_ok m pt \<and> user_inj m pt \<and>
     (\<forall>vb. user_byte m pt vb = (if unat (vb - addr) < length bs then Some (bs ! unat (vb - addr)) else user_byte m0 pt vb))"

lemma user_range_snoc:
  assumes "user_range m0 pt addr bs m" "umem_ok m' pt" "user_inj m' pt" "length bs < 2 ^ 64"
    "\<forall>vb. user_byte m' pt vb = (if vb = addr + of_nat (length bs) then Some c else user_byte m pt vb)"
  shows "user_range m0 pt addr (bs @ [c]) m'"
proof -
  have "vb = addr + of_nat (length bs) \<longleftrightarrow> unat (vb - addr) = length bs" for vb
  proof
    assume "unat (vb - addr) = length bs"
    then have "vb - addr = of_nat (length bs)" by (metis of_nat_unat ucast_id)
    then show "vb = addr + of_nat (length bs)" by (simp add: algebra_simps)
  qed (use assms(4) in \<open>simp add: unat_of_nat take_bit_nat_eq_self\<close>)
  with assms show ?thesis by (auto simp: user_range_def nth_append less_Suc_eq)
qed

lemma piperead_loop_from:
  fixes s :: "'z flstate_scheme"
  assumes pt: "pt = p_pagetable (procs s p)" and k: "k = min (nat n) (length (pipe_list x))" "k < 2 ^ 64"
    and j: "j \<le> k" "\<forall>i < j. user_byte (mem s) pt (addr + of_nat i) \<noteq> None" "j = k \<or> user_byte (mem s) pt (addr + of_nat j) = None"
    and i: "i \<le> j" "user_range (mem s) pt addr (take i (pipe_list x)) m"
  shows "\<exists>m'. loop_env (\<lambda>i _. nat (n - i)) (piperead_body (Some p) pi addr n) (int i) e (with_pipe pi ((pipe_pop ^^ i) x) (s\<lparr>mem := m\<rparr>)) =
     Ret (int j) e (with_pipe pi ((pipe_pop ^^ (if j < k then Suc j else j)) x) (s\<lparr>mem := m'\<rparr>)) \<and>
     user_range (mem s) pt addr (take j (pipe_list x)) m'"
  using i
proof (induction "j - i" arbitrary: i m)
  case 0
  then have i: "i = j" by simp
  let ?x = "(pipe_pop ^^ j) x" and ?s = "with_pipe pi ((pipe_pop ^^ (if j < k then Suc j else j)) x) (s\<lparr>mem := m\<rparr>)"
  have d: "pipe_list ?x = drop j (pipe_list x)" using pipe_pops [of j x] j(1) k(1) by simp
  have um: "umem_ok m pt" "user_inj m pt" using 0 by (simp_all add: user_range_def)
  have "piperead_body (Some p) pi addr n (int j) e (with_pipe pi ?x (s\<lparr>mem := m\<rparr>)) = Ret (Inr (int j)) e ?s"
  proof (cases "j = k")
    case True
    then have "\<not> int j < n \<or> pi_nread ?x = pi_nwrite ?x" unfolding pipe_ring(4) d using k(1) by (auto simp: min_def split: if_splits)
    then show ?thesis using True by (auto simp: piperead_body_def get_pipe_def)
  next
    case False
    then have n: "j < k" "int j < n" "pi_nread ?x \<noteq> pi_nwrite ?x" unfolding pipe_ring(4) d using j(1) k(1) by auto
    have "j < 2 ^ 64" using n(1) k(2) by simp
    then have "user_byte m pt (addr + of_nat j) = None"
      using 0 False j(3) n(1) k(1) by (simp add: user_range_def i unat_of_nat take_bit_nat_eq_self)
    then show ?thesis
      using n pt copyout_byte(1) [of "with_pipe pi (pipe_pop ?x) (s\<lparr>mem := m\<rparr>)" pt "addr + of_nat j"] um
      by (simp add: piperead_body_def get_pipe_def upd_pipe_def deref_def get_proc_def pipe_pop_def with_pipe_def)
  qed
  then have "loop_env (\<lambda>i _. nat (n - i)) (piperead_body (Some p) pi addr n) (int j) e (with_pipe pi ?x (s\<lparr>mem := m\<rparr>)) = Ret (int j) e ?s"
    by (rule loop_env_done)
  then show ?case using 0 i by blast
next
  case (Suc l)
  then have i: "i < j" by simp
  let ?x = "(pipe_pop ^^ i) x"
  let ?c = "pipe_list x ! i"
  have d: "pipe_list ?x = drop i (pipe_list x)" using pipe_pops [of i x] i j(1) k(1) by simp
  have um: "umem_ok m pt" "user_inj m pt" using Suc by (simp_all add: user_range_def)
  have n: "int i < n" "pi_nread ?x \<noteq> pi_nwrite ?x" "i < length (pipe_list x)" unfolding pipe_ring(4) d using i j(1) k(1) by auto
  have c: "pi_data ?x (unat (pi_nread ?x) mod PIPESIZE) = ?c"
    using pipe_ring(3) [OF n(2)] n(3) by (simp add: d hd_drop_conv_nth)
  have "user_byte m pt (addr + of_nat i) \<noteq> None"
    using Suc.prems(2) j(2) i by (auto simp: user_range_def)
  from copyout_byte(2) [of "with_pipe pi (pipe_pop ?x) (s\<lparr>mem := m\<rparr>)" pt "addr + of_nat i" ?c e] this um
  obtain m1 where m1: "copyout_obj pt (addr + of_nat i) [?c] e (with_pipe pi (pipe_pop ?x) (s\<lparr>mem := m\<rparr>)) =
        Ret 0 e (with_pipe pi (pipe_pop ?x) (s\<lparr>mem := m\<rparr>)\<lparr>mem := m1\<rparr>)" "umem_ok m1 pt" "user_inj m1 pt"
      "\<forall>vb. user_byte m1 pt vb = (if vb = addr + of_nat i then Some ?c else user_byte m pt vb)"
    by auto
  have b: "piperead_body (Some p) pi addr n (int i) e (with_pipe pi ?x (s\<lparr>mem := m\<rparr>)) =
      Ret (Inl (int (Suc i))) e (with_pipe pi ((pipe_pop ^^ Suc i) x) (s\<lparr>mem := m1\<rparr>))"
    using n pt c m1(1)
    by (simp add: piperead_body_def get_pipe_def upd_pipe_def deref_def get_proc_def pipe_pop_def with_pipe_def)
  have r: "user_range (mem s) pt addr (take (Suc i) (pipe_list x)) m1"
    using user_range_snoc [OF Suc.prems(2) m1(2,3)] m1(4) n(3) i j(1) k(2) by (simp add: take_Suc_conv_app_nth)
  have "loop_env (\<lambda>i _. nat (n - i)) (piperead_body (Some p) pi addr n) (int i) e (with_pipe pi ?x (s\<lparr>mem := m\<rparr>)) =
      loop_env (\<lambda>i _. nat (n - i)) (piperead_body (Some p) pi addr n) (int (Suc i)) e (with_pipe pi ((pipe_pop ^^ Suc i) x) (s\<lparr>mem := m1\<rparr>))"
    by (rule loop_env_next [where body = "piperead_body (Some p) pi addr n", OF b]) (use n in simp)
  moreover have "l = j - Suc i" "Suc i \<le> j" using Suc.hyps(2) i by auto
  note Suc.hyps(1) [OF this r]
  ultimately show ?case by simp
qed

subsection \<open>\<open>pipewrite\<close> and \<open>piperead\<close>\<close>

lemma psim_pipes:
  fixes s t :: "'z flstate_scheme"
  assumes "psim s t"
  shows "pipes s = pipes t" "mem s = mem t"
  using assms unfolding psim_def pstrip_def
  by - (drule arg_cong [where f = pipes], simp, drule arg_cong [where f = mem], simp)

lemma psim_upds:
  fixes s t :: "'z flstate_scheme"
  assumes "psim s t"
  shows "psim (with_pipe pi x (s\<lparr>mem := m\<rparr>)) (with_pipe pi x (t\<lparr>mem := m\<rparr>))"
proof -
  have *: "pstrip (with_pipe pi x (u\<lparr>mem := m\<rparr>)) = (pstrip u)\<lparr>mem := m, pipes := (pipes u)(pi := x)\<rparr>" for u :: "'z flstate_scheme"
    by (simp add: pstrip_def with_pipe_def)
  show ?thesis using assms psim_pipes(1) [OF assms] unfolding psim_def * by simp
qed

lemma on_pipe:
  assumes "on p L s"
  shows "on p L (with_pipe pi x (s\<lparr>mem := m\<rparr>))"
  by (rule on_cong [OF assms]) (use assms in \<open>simp_all add: with_pipe_def on_def\<close>)

lemma on_entered:
  fixes s :: "'z flstate_scheme" and pi :: uint64
  assumes "on p {} s"
  defines "t \<equiv> acquired (Pipe_lock pi) (intena_saved s)"
  shows "bind myproc (\<lambda>me. bind (acquire (Pipe_lock pi)) (\<lambda>_. f me)) e s = f (Some p) e t"
    "on p {Pipe_lock pi} t" "psim t s" "procs t = procs s"
proof -
  note a = on_acquired [OF on_intena [OF assms(1)], of "Pipe_lock pi"]
  show "bind myproc (\<lambda>me. bind (acquire (Pipe_lock pi)) (\<lambda>_. f me)) e s = f (Some p) e t"
    using a(2) by (simp add: on_myproc [OF assms(1)] t_def)
  show "on p {Pipe_lock pi} t" using a(1) by (simp add: t_def)
  show "psim t s" unfolding t_def using psim_trans [OF psim_acquired psim_intena] .
  show "procs t = procs s" by (simp add: t_def intena_saved_def)
qed

lemma on_leave:
  fixes s :: "'z flstate_scheme"
  assumes "on p {Pipe_lock pi} s"
  shows "\<exists>t. bind (wakeup ch) (\<lambda>_. bind (release (Pipe_lock pi)) (\<lambda>_. return v)) e s = Ret v e t \<and> on p {} t \<and> psim t s"
proof -
  note w = on_wakeup [OF assms, of ch]
  note r = on_released [OF w(2), of "Pipe_lock pi"]
  have "psim (released (Pipe_lock pi) (woken_all ch (Some p) s)) s" using psim_trans [OF psim_released psim_woken] .
  then show ?thesis using w(1) r by (intro exI [of _ "released (Pipe_lock pi) (woken_all ch (Some p) s)"]) simp
qed

lemma pipewrite_run:
  fixes s :: "'z flstate_scheme"
  assumes o: "on p {} s" and pt: "pt = p_pagetable (procs s p)" "pt_ok (mem s) pt"
    and p: "p_killed (procs s p) = 0" "pi_readopen (pipes s pi) \<noteq> 0"
    and bs: "\<forall>i < length bs. user_byte (mem s) pt (addr + of_nat i) = Some (bs ! i)"
    and room: "length (pipe_list (pipes s pi)) + length bs \<le> PIPESIZE"
    and stop: "n = int (length bs) \<or> int (length bs) < n \<and> length (pipe_list (pipes s pi)) + length bs < PIPESIZE \<and>
        user_byte (mem s) pt (addr + of_nat (length bs)) = None"
  shows "\<exists>s'. pipewrite pi addr n e s = Ret (int (length bs)) e s' \<and> on p {} s' \<and>
     psim s' (with_pipe pi (fold pipe_push bs (pipes s pi)) s)"
proof -
  let ?x = "pipes s pi" and ?t = "acquired (Pipe_lock pi) (intena_saved s)"
  note t = on_entered [OF o, of pi]
  note m = psim_pipes [OF t(3)]
  have "with_pipe pi ?x ?t = ?t" using m(1) by (simp add: with_pipe_def fun_upd_idem)
  then have l: "pipewrite_loop (Some p) pi addr n e ?t = Ret (Some (int (length bs))) e (with_pipe pi (fold pipe_push bs ?x) ?t)"
    using pipewrite_loop_from [of pt ?t p ?x bs addr n 0 pi e] pt p bs room stop t(4) m
    by (simp add: pipewrite_loop_def)
  let ?u = "with_pipe pi (fold pipe_push bs ?x) ?t"
  have "?t\<lparr>mem := mem ?t\<rparr> = ?t" by simp
  then have e: "?t\<lparr>mem := mem s\<rparr> = ?t" unfolding m(2) .
  have u: "on p {Pipe_lock pi} ?u" "psim ?u (with_pipe pi (fold pipe_push bs ?x) s)"
    using on_pipe [OF t(2), of pi "fold pipe_push bs ?x" "mem s"] psim_upds [OF t(3), of pi "fold pipe_push bs ?x" "mem s"]
    unfolding e by simp_all
  obtain s' where s': "bind (wakeup (Some (Chan_nread pi))) (\<lambda>_. bind (release (Pipe_lock pi)) (\<lambda>_. return (int (length bs)))) e ?u =
      Ret (int (length bs)) e s'" "on p {} s'" "psim s' ?u"
    using on_leave [OF u(1), of "Some (Chan_nread pi)" "int (length bs)" e] by blast
  have "pipewrite pi addr n e s = Ret (int (length bs)) e s'"
    unfolding pipewrite_def t(1) using l s'(1) by simp
  then show ?thesis using s' psim_trans [OF s'(3) u(2)] by blast
qed

lemma piperead_run:
  fixes s :: "'z flstate_scheme"
  assumes o: "on p {} s" and pt: "pt = p_pagetable (procs s p)" "umem_ok (mem s) pt" "user_inj (mem s) pt"
    and x: "x = pipes s pi" "pipe_list x \<noteq> [] \<or> pi_writeopen x = 0"
    and k: "k = min (nat n) (length (pipe_list x))" "k < 2 ^ 64"
    and j: "j \<le> k" "\<forall>i < j. user_byte (mem s) pt (addr + of_nat i) \<noteq> None" "j = k \<or> user_byte (mem s) pt (addr + of_nat j) = None"
  shows "\<exists>s' m. piperead pi addr n e s = Ret (int j) e s' \<and> on p {} s' \<and> user_range (mem s) pt addr (take j (pipe_list x)) m \<and>
     psim s' (with_pipe pi ((pipe_pop ^^ (if j < k then Suc j else j)) x) (s\<lparr>mem := m\<rparr>))"
proof -
  let ?t = "acquired (Pipe_lock pi) (intena_saved s)" and ?y = "(pipe_pop ^^ (if j < k then Suc j else j)) x"
  note t = on_entered [OF o, of pi]
  note m = psim_pipes [OF t(3)]
  have w: "pipe_wait (Some p) pi e ?t = Ret True e ?t"
    unfolding pipe_wait_def using x m(1) pipe_ring(4) [of x]
    by (intro while_sleep_done) (auto simp: get_pipe_def)
  have 0: "with_pipe pi x (?t\<lparr>mem := mem s\<rparr>) = ?t" using m x(1) by (simp add: with_pipe_def fun_upd_idem)
  have "user_range (mem ?t) pt addr (take 0 (pipe_list x)) (mem s)" using pt m(2) by (simp add: user_range_def)
  then obtain m' where l: "piperead_loop (Some p) pi addr n e ?t = Ret (int j) e (with_pipe pi ?y (?t\<lparr>mem := m'\<rparr>))"
      "user_range (mem s) pt addr (take j (pipe_list x)) m'"
    using piperead_loop_from [of pt ?t p k n x j addr 0 "mem s" pi e] pt(1) k j t(4) m(2) 0
    by (auto simp: piperead_loop_def)
  let ?u = "with_pipe pi ?y (?t\<lparr>mem := m'\<rparr>)"
  have u: "on p {Pipe_lock pi} ?u" "psim ?u (with_pipe pi ?y (s\<lparr>mem := m'\<rparr>))"
    using on_pipe [OF t(2)] psim_upds [OF t(3)] by blast+
  obtain s' where s': "bind (wakeup (Some (Chan_nwrite pi))) (\<lambda>_. bind (release (Pipe_lock pi)) (\<lambda>_. return (int j))) e ?u =
      Ret (int j) e s'" "on p {} s'" "psim s' ?u"
    using on_leave [OF u(1), of "Some (Chan_nwrite pi)" "int j" e] by blast
  have "piperead pi addr n e s = Ret (int j) e s'"
    unfolding piperead_def t(1) using w l(1) s'(1) by simp
  then show ?thesis using s' psim_trans [OF s'(3) u(2)] l(2) by blast
qed

subsection \<open>Properties\<close>

text \<open>
  C12. A pipe is a queue: \<open>pipewrite\<close>. With a reader, room for the bytes and no signal, the call
  returns without waiting; it appends to the queue, in order, the bytes the user has at
  \<open>addr\<close>, all \<open>n\<close> of them or those before the first address that is not mapped, and returns
  their number. No memory and no other pipe changes. The counters may wrap.
\<close>

theorem pipewrite_appends:
  fixes s :: "'z flstate_scheme"
  assumes "on p {} s" "pt_ok (mem s) (p_pagetable (procs s p))" "p_killed (procs s p) = 0" "pi_readopen (pipes s pi) \<noteq> 0"
    "\<forall>i < length bs. user_byte (mem s) (p_pagetable (procs s p)) (addr + of_nat i) = Some (bs ! i)"
    "length (pipe_list (pipes s pi)) + length bs \<le> PIPESIZE"
    "n = int (length bs) \<or> int (length bs) < n \<and> length (pipe_list (pipes s pi)) + length bs < PIPESIZE \<and>
        user_byte (mem s) (p_pagetable (procs s p)) (addr + of_nat (length bs)) = None"
  shows "\<exists>s'. pipewrite pi addr n e s = Ret (int (length bs)) e s' \<and> on p {} s' \<and>
     pipe_list (pipes s' pi) = pipe_list (pipes s pi) @ bs \<and> (\<forall>pj. pj \<noteq> pi \<longrightarrow> pipes s' pj = pipes s pj) \<and> mem s' = mem s"
proof -
  obtain s' where s': "pipewrite pi addr n e s = Ret (int (length bs)) e s'" "on p {} s'"
      "psim s' (with_pipe pi (fold pipe_push bs (pipes s pi)) s)"
    using pipewrite_run [OF assms(1) refl assms(2-7)] by blast
  then show ?thesis using psim_pipes [OF s'(3)] pipe_push_all [OF assms(6)] by auto
qed

text \<open>
  C13. A pipe is a queue: \<open>piperead\<close>. When the queue is not empty, or no writer is left, the
  call returns without waiting; it takes the first \<open>min n (length q)\<close> bytes off the queue,
  the user sees them at \<open>addr\<close> and every other byte as before, and their number is returned.
  If an address is not mapped, the count is that of the bytes before it, and the byte that
  could not be delivered has left the queue too.
\<close>

theorem piperead_takes:
  fixes s :: "'z flstate_scheme"
  assumes "on p {} s" "umem_ok (mem s) (p_pagetable (procs s p))" "user_inj (mem s) (p_pagetable (procs s p))"
    "pipe_list (pipes s pi) \<noteq> [] \<or> pi_writeopen (pipes s pi) = 0"
    "k = min (nat n) (length (pipe_list (pipes s pi)))" "k < 2 ^ 64"
    "j \<le> k" "\<forall>i < j. user_byte (mem s) (p_pagetable (procs s p)) (addr + of_nat i) \<noteq> None"
    "j = k \<or> user_byte (mem s) (p_pagetable (procs s p)) (addr + of_nat j) = None"
  shows "\<exists>s'. piperead pi addr n e s = Ret (int j) e s' \<and> on p {} s' \<and>
     pipe_list (pipes s' pi) = drop (if j < k then Suc j else j) (pipe_list (pipes s pi)) \<and>
     (\<forall>va. user_byte (mem s') (p_pagetable (procs s p)) va =
        (if unat (va - addr) < j then Some (pipe_list (pipes s pi) ! unat (va - addr)) else user_byte (mem s) (p_pagetable (procs s p)) va))"
proof -
  let ?x = "pipes s pi" and ?i = "if j < k then Suc j else j"
  obtain s' m where s': "piperead pi addr n e s = Ret (int j) e s'" "on p {} s'"
      "user_range (mem s) (p_pagetable (procs s p)) addr (take j (pipe_list ?x)) m"
      "psim s' (with_pipe pi ((pipe_pop ^^ ?i) ?x) (s\<lparr>mem := m\<rparr>))"
    using piperead_run [OF assms(1) refl assms(2,3) refl assms(4-9)] by blast
  have le: "j \<le> length (pipe_list ?x)" "?i \<le> length (pipe_list ?x)" using assms(5,7) by auto
  have "pipes s' pi = (pipe_pop ^^ ?i) ?x" "mem s' = m" using psim_pipes [OF s'(4)] by simp_all
  then show ?thesis
    using s'(1-3) pipe_pops [OF le(2)] le(1) by (intro exI [of _ s']) (simp add: user_range_def)
qed

text \<open>A machine with files: process 1 has one page of memory, and the pipe at 0 holds three bytes with its counters about to wrap.\<close>

definition inode0 :: inode where
  "inode0 = \<lparr>i_dev = 0, i_inum = 0, i_ref = 0, i_valid = 0, i_type = 0, i_major = 0, i_minor = 0, i_nlink = 0, i_size = 0, i_addrs = (\<lambda>_. 0)\<rparr>"

definition pipe0 :: pipe where
  "pipe0 = \<lparr>pi_data = (\<lambda>i. of_nat i), pi_nread = 0xFFFFFFFE, pi_nwrite = 1, pi_readopen = 1, pi_writeopen = 1\<rparr>"

definition ust0 :: ustate where
  "ust0 = fstate.extend (lstate.extend (lst bufs_ring log0 (\<lambda>_. 0)) (fstate.fields sb0 (\<lambda>_. inode0)))
     (ustate.fields (\<lambda>_. 0) (\<lambda>_. 0) True [] [] (\<lambda>_. 0) 0 0 0 0 \<lparr>cons_buf = (\<lambda>_. 0), cons_r = 0, cons_w = 0, cons_e = 0\<rparr>)"

definition flst0 :: flstate where
  "flst0 = (ustate.extend ust0 (flstate.fields
       (\<lambda>_. \<lparr>f_type = FD_NONE, f_ref = 0, f_readable = False, f_writable = False, f_pipe = 0, f_ip = None, f_off = 0, f_major = 0\<rparr>)
       (\<lambda>_. \<lparr>dev_read = None, dev_write = None\<rparr>) (\<lambda>_. pipe0)))
     \<lparr>mem := mem vm_map0, procs := (procs pst0)(1 := (procs pst0 1)\<lparr>p_pagetable := root0\<rparr>)\<rparr>"

lemmas flst0_defs = flst0_def ust0_def lst_def vst0_def sst0_def pst0_def sstate.defs pstate.defs vstate.defs lstate.defs
  fstate.defs ustate.defs flstate.defs

lemma flst0_fields:
  "mem flst0 = mem vm_map0" "p_pagetable (procs flst0 1) = root0" "p_killed (procs flst0 1) = 0" "pipes flst0 pi = pipe0"
  by (simp_all add: flst0_defs proc0_def)

lemma flst0_on: "on 1 {} flst0"
  by (simp add: on_def lh_def lock_free_def flst0_defs cpu0_def proc0_def NPROC_def spinlock0_def myid_def)

lemma pipe0_list: "pipe_list pipe0 = [254, 255, 0]"
  by (simp add: pipe_list_def pipe0_def ring_list_def PIPESIZE_def upt_rec)

lemma flst0_user: "umem_ok (mem flst0) (p_pagetable (procs flst0 1))" "user_inj (mem flst0) (p_pagetable (procs flst0 1))"
  "i < 16 \<Longrightarrow> user_byte (mem flst0) (p_pagetable (procs flst0 1)) (0x1008 + of_nat i) \<noteq> None"
  using vm_map0_user user_bytes0 unfolding flst0_fields by simp_all

theorem pipewrite_appends_witness:
  "\<exists>c s'. pipewrite 0 0x1008 1 [] flst0 = Ret 1 [] s' \<and> pipe_list (pipes s' 0) = [254, 255, 0, c]"
proof -
  obtain c where c: "user_byte (mem flst0) (p_pagetable (procs flst0 1)) 0x1008 = Some c" using flst0_user(3) [of 0] by auto
  have "pt_ok (mem flst0) (p_pagetable (procs flst0 1))" using flst0_user(1) by (simp add: umem_ok_def)
  from pipewrite_appends [OF flst0_on this, of 0 "[c]" "0x1008" 1 "[]"] c
  show ?thesis by (auto simp: flst0_fields flst0_fields [unfolded One_nat_def] pipe0_list PIPESIZE_def) (auto simp: pipe0_def)
qed

theorem piperead_takes_witness:
  "\<exists>s'. piperead 0 0x1008 2 [] flst0 = Ret 2 [] s' \<and> pipe_list (pipes s' 0) = [0] \<and> user_byte (mem s') root0 0x1009 = Some 255"
proof -
  have "\<forall>i < 2. user_byte (mem flst0) (p_pagetable (procs flst0 1)) (0x1008 + of_nat i) \<noteq> None" using flst0_user(3) by simp
  from piperead_takes [OF flst0_on flst0_user(1,2), of 0 2 2 2 "0x1008" "[]"] this
  obtain s' where "piperead 0 0x1008 2 [] flst0 = Ret 2 [] s'" "pipe_list (pipes s' 0) = [0]"
      "\<forall>va. user_byte (mem s') root0 va = (if unat (va - 0x1008) < 2 then Some ([254, 255, 0] ! unat (va - 0x1008)) else user_byte (mem flst0) root0 va)"
    by (auto simp: flst0_fields flst0_fields [unfolded One_nat_def] pipe0_list)
  then show ?thesis by (auto dest: spec [of _ "0x1009 :: uint64"])
qed

end
