(* ===== verification/Spec2Isabelle.thy ===== *)
theory Spec2Isabelle
  imports Usercopy Boot Asm Transaction Fifo
begin

text \<open>
  A verification library for a version of the xv6 kernel for RISC-V that has the additional
  system calls \<open>trace\<close> and \<open>sysinfo\<close>. The theories model the C and assembly code under
  \<open>src/kernel\<close> and prove what it promises.

  \<^bold>\<open>The program and its parts.\<close> A hart starts in machine mode (\<open>entry.S\<close>, \<open>start.c\<close>), sets up
  the timer and enters \<open>main.c\<close>. From then on harts run processes: the scheduler picks a
  runnable process (\<open>proc.c\<close>, \<open>swtch.S\<close>), user code enters the kernel through the trampoline
  (\<open>trampoline.S\<close>, \<open>trap.c\<close>) with a system call (\<open>syscall.c\<close>, \<open>sysproc.c\<close>, \<open>sysfile.c\<close>), a
  fault, or a device interrupt (\<open>plic.c\<close>, \<open>uart.c\<close>, \<open>virtio_disk.c\<close>). Files go through the
  table of open files and pipes (\<open>file.c\<close>, \<open>pipe.c\<close>) to inodes and directories (\<open>fs.c\<close>),
  whose blocks go through the log (\<open>log.c\<close>) and the buffer cache (\<open>bio.c\<close>) to the disk driver.
  Spinlocks (\<open>spinlock.c\<close>) protect data shared between harts, sleep locks (\<open>sleeplock.c\<close>) are
  held across disk requests. Memory comes from the page allocator (\<open>kalloc.c\<close>) and is mapped
  by page tables (\<open>vm.c\<close>).

  \<^bold>\<open>How code is modelled.\<close> A C function is a function from the list of future steps of the rest
  of the machine and a state to an outcome (\<open>Prelude\<close>): it returns, panics, dereferences a bad
  pointer, waits for ever, runs for ever, or never comes back. Each time code spins or sleeps it
  takes the next step off the list; an empty list gives \<open>Block\<close> with the state at that
  moment. The state is a record that grows with the layers: \<open>mach\<close> (harts, cpus, locks),
  \<open>kstate\<close> (memory, free list), \<open>vmstate\<close>, \<open>pstate\<close> (process table), \<open>sstate\<close> (sleep locks),
  \<open>vstate\<close> (buffers, driver, disk), \<open>lstate\<close> (log), \<open>fstate\<close> (inodes), \<open>ustate\<close> (console),
  \<open>flstate\<close> (files, pipes), \<open>tstate\<close> (traps), \<open>bstate\<close> (start-up). Machine integers are words
  of their width. Pointers into kernel tables are indices, with \<open>None\<close> for a null pointer;
  memory that user code or the page-table walker can address is a function from addresses to
  bytes. A loop over a table is a recursion over its indices; a loop that may wait is
  \<open>loop_env\<close>, whose every round must use a step or make a measure smaller and is \<open>Diverge\<close>
  otherwise; a walk along a linked list is bounded by the number of its elements, and not
  ending within the bound is \<open>Diverge\<close> too. No bound is fuel that a theorem could run out
  of: the theorems that say that code returns exclude \<open>Diverge\<close> and \<open>Block\<close>.

  \<^bold>\<open>Parameters.\<close> Code outside the repository is not defined here. The virtio disk is a
  function on states with the hypothesis \<open>virtio_device\<close>, what the virtio specification says
  about one pending request; \<open>blk_device\<close> satisfies it. The addresses the linker assigns,
  the contents of device registers and the images of user programs are fields of the state.

  \<^bold>\<open>Theories and sources.\<close>
  \<^item> \<open>Prelude\<close>: outcomes, loops, triples. \<open>Riscv\<close>, \<open>Page_Arith\<close>: \<open>riscv.h\<close>, \<open>memlayout.h\<close>,
    \<open>param.h\<close>, \<open>types.h\<close>. \<open>Kstring\<close>: \<open>string.c\<close>.
  \<^item> \<open>Spinlock\<close>: \<open>spinlock.c\<close>, with a step relation of all harts for mutual exclusion.
    \<open>Kalloc\<close>: \<open>kalloc.c\<close>. \<open>Vm\<close>: \<open>vm.c\<close>; \<open>Pagetable\<close> and \<open>Usercopy\<close> hold its theorems.
  \<^item> \<open>Proc\<close>: \<open>proc.c\<close>, \<open>proc.h\<close>; \<open>Sched\<close> its theorems. \<open>Calm\<close>: the logic for sequential runs
    with waits and crashes.
  \<^item> \<open>Sleeplock\<close>, \<open>Virtio\<close>, \<open>Bio\<close>, \<open>Log\<close>, \<open>Fs\<close>: \<open>sleeplock.c\<close>, \<open>virtio_disk.c\<close>, \<open>bio.c\<close>,
    \<open>log.c\<close>, \<open>fs.c\<close>. \<open>Diskio\<close>, \<open>Bcache\<close>, \<open>Journal\<close>, \<open>Transaction\<close> and \<open>Inode\<close> hold the theorems
    on the driver, the cache, commit and recovery, transactions, and files.
  \<^item> \<open>Console\<close>: \<open>uart.c\<close>, \<open>printf.c\<close>, \<open>console.c\<close>. \<open>File\<close>: \<open>file.c\<close>, \<open>pipe.c\<close>;
    \<open>Fifo\<close> holds the theorems on ring buffers. \<open>Process\<close>:
    \<open>exec.c\<close> and the process operations of \<open>proc.c\<close> that use files. \<open>Sysproc\<close>, \<open>Sysfile\<close>,
    \<open>Trap\<close>, \<open>Boot\<close>: the files of these names, \<open>syscall.c\<close>, \<open>plic.c\<close>, \<open>start.c\<close>, \<open>main.c\<close>.
  \<^item> \<open>Asm\<close>: an interpreter for the instructions the assembly files use, and \<open>trampoline.S\<close>,
    \<open>kernelvec.S\<close>, \<open>swtch.S\<close>, \<open>entry.S\<close> as lists of instructions.

  \<^bold>\<open>What the lemmas show.\<close>
  \<^item> \<^emph>\<open>Locks.\<close> Any interleaving of harts that acquire and release a spinlock, interrupts included,
    keeps at most one of them inside and never panics (invariant over a step relation).
  \<^item> \<^emph>\<open>Memory.\<close> The free list is a duplicate-free chain of pages of the allocator's range; every
    operation keeps that and does what it says. A page table is a tree of its own pages;
    \<open>walk\<close>, \<open>mappages\<close> and \<open>uvmunmap\<close> change exactly the mappings asked for; \<open>copyin\<close> and
    \<open>copyout\<close> move exactly the bytes of a user range, through the page table.
  \<^item> \<^emph>\<open>Processes.\<close> \<open>sleep\<close> hands over the lock atomically, \<open>wakeup\<close> and \<open>kill\<close> reach exactly the
    right processes. The assembly routines save and restore every register they must.
  \<^item> \<^emph>\<open>Disk.\<close> A request of the driver moves one block (\<open>Diskio\<close>). The cache hands out at most
    one buffer per block with the block's contents (\<open>Bcache\<close>: the invariant \<open>bcache\<close>, established
    by \<open>binit\<close>; the locale \<open>block_cache\<close> is what the log needs of it). \<open>commit\<close> and recovery
    are atomic (\<open>Journal\<close>), a transaction through \<open>begin_op\<close>, \<open>log_write\<close> and \<open>end_op\<close> is one
    atomic update (\<open>Transaction\<close>, locale \<open>atomic_store\<close>), and sequences of them survive crashes
    and interrupted recoveries as prefixes (below). \<open>readi\<close> returns the bytes of the file
    (\<open>Inode\<close>).
  \<^item> \<^emph>\<open>Queues.\<close> Pipes, the serial port's output buffer and the console's input buffer are
    instances of one contract, the locale \<open>ring\<close> (\<open>Fifo\<close>): with 32-bit counters that wrap
    around, pushing appends and popping removes the oldest element.

  The logic for code that waits is \<open>ok f k P m Q C\<close> (\<open>Calm\<close>): from a state with \<open>P\<close>, given \<open>n\<close>
  steps \<open>f\<close> of the rest of the machine, \<open>m\<close> either returns with \<open>Q\<close> after at most \<open>k\<close> of them, or
  \<open>n\<close> is less than \<open>k\<close> and it waits in a state with \<open>C\<close>. So one statement gives partial
  correctness, that the code returns when enough requests complete, and what a crash leaves.

  \<^bold>\<open>Assumptions.\<close> The theorems that involve the disk are about one process that uses the file
  system, with the rest of the machine running only while it waits, and then doing what
  \<open>disk_turn\<close> says: the device completes the pending request, its interrupt is handled, and
  the process is scheduled again. A disk writes a block entirely or not at all. Concurrency
  between harts is covered for spinlocks, not for the file system.

  \<^bold>\<open>Not modelled.\<close> \<open>ramdisk.c\<close> is not built and refers to fields that \<open>struct buf\<close> no longer has.
  \<open>defs.h\<close> and \<open>user.h\<close> only declare functions. The programs under \<open>user\<close> and \<open>mkfs\<close> run on top of
  the kernel or on the machine that builds it; they make system calls and nothing in the
  kernel depends on their code.
\<close>

section \<open>Properties that span components\<close>

text \<open>
  C1. Transactions, a crash, and a reboot. A machine runs a sequence of transactions and stops
  at any of its disk requests; recovery after the reboot may be interrupted any number of times
  in the same way before it completes. Then every block of the file system has the contents
  that a prefix of the sequence gives it: no transaction is torn, none is lost while a later
  one survives.
\<close>

theorem crash_atomicity:
  fixes dev :: "'z lstate_scheme \<Rightarrow> 'z lstate_scheme"
  assumes dev: "virtio_device dev" and idle: "fs_idle p d st V s" "\<forall>us \<in> set uss. fits st us"
    and crash: "for_each uss (transaction d) (replicate k (disk_turn dev p)) s = Block t" "crashes dev d st (image t) J"
    and reboot: "booted q d st J s2" "recover_from_log (replicate l (disk_turn dev q)) s2 = Ret () e s3"
  shows "\<exists>n \<le> length uss. \<forall>w. w \<notin> log_area st \<longrightarrow>
     disk_block (image s3) (unat w) = fold (fold apply_update) (take n uss) V w"
proof -
  have p: "log_pos st" using idle(1) by (auto simp: fs_idle_def log_ready_def)
  obtain n where n: "n \<le> length uss" "recovers_to st (fold (fold apply_update) (take n uss) V) (image t)"
    using ok_case [OF atomic_store.tx_sequence [OF atomic_store_transaction [OF dev] idle(2)] idle(1), of k] crash(1) by auto
  have J: "log_wf st J" "\<And>w. w \<notin> log_area st \<Longrightarrow> recovered st J w = recovered st (image t) w"
    using crashes_keep_view [OF dev p crash(2)] n(2) by (auto simp: recovers_to_def)
  have "disk_block (image s3) (unat w) = recovered st J w" if "w \<notin> log_area st" for w
    using ok_case [OF ok_booted [OF dev p J(1)] reboot(1), of l] reboot(2) that by simp
  then show ?thesis using n J(2) by (auto simp: recovers_to_def)
qed

theorem crash_atomicity_witness:
  "\<exists>t e s3. for_each [fill50] (transaction 1) [] (lst bufs_ring log0 (\<lambda>_. 0)) = Block t \<and>
     recover_from_log (replicate 93 (disk_turn blk_device 1)) (lst bufs_ring log0 (image t)) = Ret () e s3 \<and>
     (\<exists>n \<le> 1. \<forall>w. w \<notin> log_area 2 \<longrightarrow>
        disk_block (image s3) (unat w) = fold (fold apply_update) (take n [fill50]) (\<lambda>_. replicate BSIZE 0) w)"
proof -
  let ?s = "lst bufs_ring log0 (\<lambda>_. 0)" and ?V = "\<lambda>_. replicate BSIZE 0"
  have f: "\<forall>us \<in> set [fill50]. fits 2 us" using fits_fill50 by simp
  obtain t where t: "for_each [fill50] (transaction 1) (replicate 0 (disk_turn blk_device 1)) ?s = Block t"
    using fill50_blocks by auto
  obtain n where "recovers_to 2 (fold (fold apply_update) (take n [fill50]) ?V) (image t)"
    using ok_case [OF atomic_store.tx_sequence [OF atomic_store_transaction [OF virtio_device_blk] f] idle0, of 0] t by auto
  then have wf: "log_wf 2 (image t)" by (simp add: recovers_to_def)
  have p: "log_pos 2" using log0_ready by (simp add: log_ready_def)
  have b: "booted 1 1 2 (image t) (lst bufs_ring log0 (image t))" by (rule booted_lst) (simp_all add: log0_def)
  obtain e s3 where s3: "recover_from_log (replicate 93 (disk_turn blk_device 1)) (lst bufs_ring log0 (image t)) = Ret () e s3"
    using ok_returns [OF ok_booted [OF virtio_device_blk p wf] b, of 93] by (auto simp: NLOG_def LOGSIZE_def MAXOPBLOCKS_def)
  from crash_atomicity [OF virtio_device_blk idle0 f t crashes_none b s3] t s3
  show ?thesis by auto
qed

end
